(* ===== verification/Prelude.thy ===== *)
theory Prelude
  imports Complex_Main
begin

text \<open>
  What every component of the development shares: failures as values (the
  exception types of \<^verbatim>\<open>exceptions.hpp\<close> and of the C++ standard library), the
  result type and its sequencing operator, the C++ conversions between integer
  widths, and the number formatting the code uses in its messages
  (\<^verbatim>\<open>std::to_string\<close> and \<^verbatim>\<open>utils::to_string_with_precision\<close>).
\<close>

named_theorems result_simps \<open>rewriting of results: sequencing and guards\<close>
named_theorems result_elims \<open>inversion of results\<close>

section \<open>Failures as values\<close>

text \<open>
  \<^verbatim>\<open>detail::nullptr_error\<close> and \<^verbatim>\<open>detail::bad_request\<close> are the two exception types of
  the program. \<open>std_exception\<close> is any other \<^verbatim>\<open>std::exception\<close> the code or the
  libraries it calls throw (\<^verbatim>\<open>std::runtime_error\<close>, \<^verbatim>\<open>std::invalid_argument\<close>,
  \<^verbatim>\<open>std::out_of_range\<close>): no handler of the program tells them apart.
  \<open>undefined_behaviour\<close> marks the points where the C++ standard gives the code no
  meaning (reading past the end of a sequence, converting a non-finite or too large
  float to an integer). It is not an exception and no handler sees it.
\<close>

datatype failure =
    nullptr_error string
  | bad_request string
  | std_exception string
  | undefined_behaviour string

type_synonym 'a result = "failure + 'a"

definition rbind :: "'a result \<Rightarrow> ('a \<Rightarrow> 'b result) \<Rightarrow> 'b result" where
  "rbind r f = (case r of Inl e \<Rightarrow> Inl e | Inr x \<Rightarrow> f x)"

text \<open>\<open>guard c e\<close> is the early exit \<^verbatim>\<open>if (not c) throw e\<close>.\<close>

definition guard :: "bool \<Rightarrow> failure \<Rightarrow> unit result" where
  "guard c e = (if c then Inr () else Inl e)"

text \<open>A loop over a list whose body may throw.\<close>

fun rfold :: "('a \<Rightarrow> 's \<Rightarrow> 's result) \<Rightarrow> 'a list \<Rightarrow> 's \<Rightarrow> 's result" where
  "rfold f [] s = Inr s"
| "rfold f (x # xs) s = rbind (f x s) (rfold f xs)"

fun rmap :: "('a \<Rightarrow> 'b result) \<Rightarrow> 'a list \<Rightarrow> 'b list result" where
  "rmap f [] = Inr []"
| "rmap f (x # xs) = rbind (f x) (\<lambda>y. rbind (rmap f xs) (\<lambda>ys. Inr (y # ys)))"

section \<open>Integer conversions\<close>

text \<open>
  \<^verbatim>\<open>std::size_t\<close> is a natural number below \<open>2 ^ 64\<close>; a signed value converts to it
  modulo \<open>2 ^ 64\<close>. \<^verbatim>\<open>std::uint8_t\<close> and \<^verbatim>\<open>std::int8_t\<close> values are integers; the
  conversions are written out. \<^verbatim>\<open>int\<close> values are unbounded integers: the bounds that
  keep them within 32 bits are proved where they matter.
\<close>

definition to_size_t :: "int \<Rightarrow> nat" where
  "to_size_t i = nat (i mod 2 ^ 64)"

text \<open>Unsigned arithmetic wraps.\<close>

definition wrap64 :: "nat \<Rightarrow> nat" where
  "wrap64 n = n mod 2 ^ 64"

definition to_u8 :: "int \<Rightarrow> int" where
  "to_u8 i = i mod 256"

definition to_i8 :: "int \<Rightarrow> int" where
  "to_i8 i = (i + 128) mod 256 - 128"

text \<open>A floating-point value converts to an integer by dropping its fraction.\<close>

definition trunc :: "real \<Rightarrow> int" where
  "trunc x = (if x < 0 then \<lceil>x\<rceil> else \<lfloor>x\<rfloor>)"

section \<open>Number formatting\<close>

definition digit_char :: "nat \<Rightarrow> char" where
  "digit_char d = char_of (48 + d)"

definition char_digit :: "char \<Rightarrow> nat" where
  "char_digit c = of_char c - 48"

fun nat_digits :: "nat \<Rightarrow> string" where
  "nat_digits n = (if n < 10 then [digit_char n] else nat_digits (n div 10) @ [digit_char (n mod 10)])"

text \<open>\<open>k\<close> decimal digits of \<open>n\<close>, leading zeros included.\<close>

fun fixed_digits :: "nat \<Rightarrow> nat \<Rightarrow> string" where
  "fixed_digits 0 n = []"
| "fixed_digits (Suc k) n = fixed_digits k (n div 10) @ [digit_char (n mod 10)]"

definition to_string :: "int \<Rightarrow> string" where
  "to_string i = (if i < 0 then ''-'' else '''') @ nat_digits (nat \<bar>i\<bar>)"

text \<open>Round half to even, the rounding of both the arithmetic and the formatted output.\<close>

definition rne :: "real \<Rightarrow> int" where
  "rne y = (let f = \<lfloor>y\<rfloor>; d = y - of_int f in
     if d < 1 / 2 then f else if 1 / 2 < d then f + 1 else if even f then f else f + 1)"

text \<open>
  \<^verbatim>\<open>std::fixed << std::setprecision(n) << val\<close>: the decimal with \<open>n\<close> fraction digits
  nearest to the value, a minus sign for every negative value.
\<close>

definition to_string_with_precision :: "real \<Rightarrow> nat \<Rightarrow> string" where
  "to_string_with_precision val n =
     (let m = nat (rne (\<bar>val\<bar> * 10 ^ n)) in
      (if val < 0 then ''-'' else '''') @ nat_digits (m div 10 ^ n) @
      (if n = 0 then '''' else ''.'' @ fixed_digits n (m mod 10 ^ n)))"

text \<open>Reading a formatted number back, for the statements about the formatting.\<close>

definition digits_value :: "string \<Rightarrow> nat" where
  "digits_value s = foldl (\<lambda>v c. 10 * v + char_digit c) 0 s"

definition read_fixed :: "string \<Rightarrow> real" where
  "read_fixed s =
     (let neg = (s \<noteq> [] \<and> hd s = CHR ''-''); body = (if neg then tl s else s);
          whole = takeWhile (\<lambda>c. c \<noteq> CHR ''.'') body;
          frac = drop (Suc (length whole)) body
      in (if neg then - 1 else 1) *
         (real (digits_value whole) + real (digits_value frac) / 10 ^ length frac))"

section \<open>Lemmas on results\<close>

lemma rbind_Inr [simp, result_simps]: "rbind (Inr x) f = f x"
  by (simp add: rbind_def)

lemma rbind_Inl [simp, result_simps]: "rbind (Inl e) f = Inl e"
  by (simp add: rbind_def)

lemma rbind_eq_Inr [result_simps]: "rbind r f = Inr y \<longleftrightarrow> (\<exists>x. r = Inr x \<and> f x = Inr y)"
  by (cases r) simp_all

lemma rbind_eq_Inl [result_simps]: "rbind r f = Inl e \<longleftrightarrow> r = Inl e \<or> (\<exists>x. r = Inr x \<and> f x = Inl e)"
  by (cases r) auto

lemma rbind_InrE [elim!, result_elims]:
  assumes "rbind r f = Inr y"
  obtains x where "r = Inr x" and "f x = Inr y"
  using assms by (auto simp: rbind_eq_Inr)

lemma rbind_assoc: "rbind (rbind r f) g = rbind r (\<lambda>x. rbind (f x) g)"
  by (cases r) simp_all

lemma rbind_cong [fundef_cong]:
  "r = r' \<Longrightarrow> (\<And>x. r' = Inr x \<Longrightarrow> f x = g x) \<Longrightarrow> rbind r f = rbind r' g"
  by (cases r) auto

lemma guard_eq_Inr [simp, result_simps]: "guard c e = Inr u \<longleftrightarrow> c"
  by (simp add: guard_def)

lemma guard_eq_Inl [simp, result_simps]: "guard c e = Inl e' \<longleftrightarrow> \<not> c \<and> e' = e"
  by (auto simp: guard_def)

lemma guard_True [simp]: "guard True e = Inr ()"
  by (simp add: guard_def)

lemma guard_False [simp]: "guard False e = Inl e"
  by (simp add: guard_def)

lemma rfold_append: "rfold f (xs @ ys) s = rbind (rfold f xs s) (rfold f ys)"
proof (induction xs arbitrary: s)
  case (Cons x xs)
  then show ?case by (cases "f x s") simp_all
qed simp

lemma rfold_snoc: "rfold f (xs @ [x]) s = rbind (rfold f xs s) (f x)"
proof -
  have "rbind r (rfold f [x]) = rbind r (f x)" for r by (cases r; cases "f x (projr r)") simp_all
  then show ?thesis by (simp only: rfold_append)
qed

lemma rfold_invariant:
  assumes "rfold f xs s = Inr t" and "I s"
    and "\<And>x s s'. x \<in> set xs \<Longrightarrow> I s \<Longrightarrow> f x s = Inr s' \<Longrightarrow> I s'"
  shows "I t"
  using assms by (induction xs arbitrary: s) auto

text \<open>A loop over \<open>0, ..., n - 1\<close> with an invariant on the index.\<close>

lemma rfold_upt_invariant:
  assumes "rfold f [0..<n] s = Inr t" and "P 0 s"
    and "\<And>i s s'. i < n \<Longrightarrow> P i s \<Longrightarrow> f i s = Inr s' \<Longrightarrow> P (Suc i) s'"
  shows "P n t"
  using assms
proof (induction n arbitrary: t)
  case (Suc n)
  then obtain s1 where "rfold f [0..<n] s = Inr s1" "f n s1 = Inr t" by (auto simp: rfold_append)
  with Suc show ?case by (metis less_Suc_eq)
qed simp

text \<open>The first failing index of such a loop.\<close>

lemma rfold_upt_failure:
  assumes "rfold f [0..<n] s = Inl e"
  obtains i t where "i < n" "rfold f [0..<i] s = Inr t" "f i t = Inl e"
  using assms
proof (induction n arbitrary: thesis)
  case (Suc n)
  show ?case
  proof (cases "rfold f [0..<n] s")
    case (Inl e')
    then have "e' = e" using Suc.prems(2) by (simp add: rfold_append)
    with Inl Suc show ?thesis by (metis less_SucI)
  next
    case (Inr t)
    then have "f n t = Inl e" using Suc.prems(2) by (simp add: rfold_append rbind_eq_Inl)
    with Inr Suc.prems(1) show ?thesis by blast
  qed
qed simp

lemma rmap_eq_Inr: "rmap f xs = Inr ys \<longleftrightarrow> list_all2 (\<lambda>x y. f x = Inr y) xs ys"
proof (induction xs arbitrary: ys)
  case (Cons x xs)
  then show ?case by (cases ys) (auto simp: result_simps)
qed auto

lemma rmap_length: "rmap f xs = Inr ys \<Longrightarrow> length ys = length xs"
  by (auto simp: rmap_eq_Inr list_all2_lengthD)

lemma rmap_total: "(\<And>x. x \<in> set xs \<Longrightarrow> f x = Inr (g x)) \<Longrightarrow> rmap f xs = Inr (map g xs)"
  by (induction xs) simp_all

section \<open>Lemmas on conversions\<close>

lemma to_size_t_nonneg: "0 \<le> i \<Longrightarrow> i < 2 ^ 64 \<Longrightarrow> to_size_t i = nat i"
  by (simp add: to_size_t_def)

lemma to_size_t_bound: "to_size_t i < 2 ^ 64"
proof -
  have "i mod 2 ^ 64 < 2 ^ 64" by simp
  then have "nat (i mod 2 ^ 64) < nat (2 ^ 64)" by (subst nat_less_eq_zless) simp_all
  then show ?thesis by (simp add: to_size_t_def)
qed

lemma wrap64_small [simp]: "n < 2 ^ 64 \<Longrightarrow> wrap64 n = n"
  by (simp add: wrap64_def)

lemma wrap64_code [code]: "wrap64 n = (if int n < 2 ^ 64 then n else n mod 2 ^ 64)"
proof -
  have "int n < 2 ^ 64 \<longleftrightarrow> n < 2 ^ 64" by (metis of_nat_less_iff of_nat_numeral of_nat_power)
  then show ?thesis by (simp add: wrap64_def)
qed

lemma to_u8_small [simp]: "0 \<le> i \<Longrightarrow> i < 256 \<Longrightarrow> to_u8 i = i"
  by (simp add: to_u8_def)

lemma to_i8_small [simp]: "- 128 \<le> i \<Longrightarrow> i < 128 \<Longrightarrow> to_i8 i = i"
  by (simp add: to_i8_def)

lemma trunc_of_int [simp]: "trunc (of_int n) = n"
  by (simp add: trunc_def)

lemma trunc_of_nat [simp]: "trunc (of_nat n) = int n"
  using trunc_of_int[of "int n"] by simp

lemma trunc_numeral [simp]: "trunc 0 = 0" "trunc 1 = 1" "trunc (numeral n) = numeral n" "trunc (- numeral n) = - numeral n"
  by (simp_all add: trunc_def)

lemma trunc_mono:
  assumes "x \<le> y"
  shows "trunc x \<le> trunc y"
proof (cases "x < 0 \<and> 0 \<le> y")
  case True
  then have "\<lceil>x\<rceil> \<le> \<lfloor>y\<rfloor>" by (meson ceiling_le_zero less_imp_le order_trans zero_le_floor)
  with True show ?thesis by (simp add: trunc_def)
qed (use assms in \<open>auto simp: trunc_def floor_mono ceiling_mono\<close>)

lemma trunc_nonneg: "0 \<le> x \<Longrightarrow> 0 \<le> trunc x"
  by (simp add: trunc_def)

lemma trunc_floor: "0 \<le> x \<Longrightarrow> trunc x = \<lfloor>x\<rfloor>"
  by (simp add: trunc_def)

lemma rne_error: "\<bar>of_int (rne y) - y\<bar> \<le> 1 / 2"
  unfolding rne_def Let_def by (auto split: if_splits)

lemma rne_of_int [simp]: "rne (of_int n) = n"
  by (simp add: rne_def)

lemma rne_numerals [simp]: "rne 0 = 0" "rne 1 = 1" "rne (numeral n) = numeral n"
  using rne_of_int[of 0] rne_of_int[of 1] rne_of_int[of "numeral n"] by simp_all

lemma rne_mono:
  assumes "x \<le> y"
  shows "rne x \<le> rne y"
proof (cases "\<lfloor>x\<rfloor> = \<lfloor>y\<rfloor>")
  case True
  then show ?thesis using assms unfolding rne_def Let_def by auto
next
  case False
  then have "\<lfloor>x\<rfloor> + 1 \<le> \<lfloor>y\<rfloor>" using floor_mono[OF assms] by simp
  moreover have "rne x \<le> \<lfloor>x\<rfloor> + 1" "\<lfloor>y\<rfloor> \<le> rne y" unfolding rne_def Let_def by auto
  ultimately show ?thesis by simp
qed

lemma rne_nonneg: "0 \<le> y \<Longrightarrow> 0 \<le> rne y"
  using rne_mono[of 0 y] rne_of_int[of 0] by simp

lemma rne_minus [simp]: "rne (- y) = - rne y"
proof (cases "y = of_int \<lfloor>y\<rfloor>")
  case True
  then obtain n where "y = of_int n" by blast
  then show ?thesis by (metis rne_of_int of_int_minus)
next
  case False
  define f where "f = \<lfloor>y\<rfloor>"
  have y: "of_int f < y" "y < of_int f + 1" using False unfolding f_def by linarith+
  then have "\<lfloor>- y\<rfloor> = - f - 1" by linarith
  then show ?thesis unfolding rne_def Let_def f_def[symmetric] by auto
qed

section \<open>Lemmas on number formatting\<close>

declare nat_digits.simps [simp del]

lemma char_digit_digit_char [simp]: "d < 10 \<Longrightarrow> char_digit (digit_char d) = d"
  by (simp add: char_digit_def digit_char_def)

lemma digits_value_Nil [simp]: "digits_value [] = 0"
  by (simp add: digits_value_def)

lemma digits_value_snoc [simp]: "digits_value (s @ [c]) = 10 * digits_value s + char_digit c"
  by (simp add: digits_value_def)

lemma digits_value_nat_digits [simp]: "digits_value (nat_digits n) = n"
proof (induction n rule: nat_digits.induct)
  case (1 n)
  show ?case
  proof (cases "n < 10")
    case True
    then show ?thesis by (simp add: nat_digits.simps[of n] digits_value_def)
  next
    case False
    with 1 show ?thesis by (simp add: nat_digits.simps[of n])
  qed
qed

lemma length_fixed_digits [simp]: "length (fixed_digits k n) = k"
  by (induction k arbitrary: n) simp_all

lemma digits_value_fixed_digits: "n < 10 ^ k \<Longrightarrow> digits_value (fixed_digits k n) = n"
proof (induction k arbitrary: n)
  case (Suc k)
  then have "n div 10 < 10 ^ k" by (simp add: less_mult_imp_div_less mult.commute)
  with Suc.IH show ?case by simp
qed simp

lemma digit_char_range: "d < 10 \<Longrightarrow> digit_char d \<noteq> CHR ''.'' \<and> digit_char d \<noteq> CHR ''-''"
  by (auto simp: digit_char_def dest: arg_cong[where f = "of_char :: char \<Rightarrow> nat"])

lemma nat_digits_chars: "c \<in> set (nat_digits n) \<Longrightarrow> c \<noteq> CHR ''.'' \<and> c \<noteq> CHR ''-''"
proof (induction n rule: nat_digits.induct)
  case (1 n)
  then show ?case
    by (cases "n < 10") (auto simp: nat_digits.simps[of n] digit_char_range)
qed

lemma nat_digits_nonempty [simp]: "nat_digits n \<noteq> []"
  by (simp add: nat_digits.simps[of n])

lemma read_fixed_sign:
  assumes "s \<noteq> []" and "\<And>c. c \<in> set s \<Longrightarrow> c \<noteq> CHR ''-''"
  shows "read_fixed (''-'' @ s) = - read_fixed s"
  using assms by (cases s) (auto simp: read_fixed_def Let_def)

lemma takeWhile_digits: "takeWhile (\<lambda>c. c \<noteq> CHR ''.'') (nat_digits n) = nat_digits n"
  by (simp add: takeWhile_eq_all_conv nat_digits_chars)

lemma read_fixed_digits:
  assumes "m = w * 10 ^ n + f" and "f < 10 ^ n"
  shows "read_fixed (nat_digits w @ (if n = 0 then '''' else ''.'' @ fixed_digits n f)) = real m / 10 ^ n"
proof -
  have neg: "hd (nat_digits w @ t) \<noteq> CHR ''-''" for t
    using nat_digits_chars[of "hd (nat_digits w)" w] by (cases "nat_digits w") auto
  have whole: "takeWhile (\<lambda>c. c \<noteq> CHR ''.'') (nat_digits w @ t) = nat_digits w"
    if "t = [] \<or> hd t = CHR ''.''" for t
    using that by (cases t) (simp_all add: takeWhile_append takeWhile_digits nat_digits_chars)
  show ?thesis
  proof (cases "n = 0")
    case True
    then show ?thesis using assms neg[of "[]"]
      by (simp add: read_fixed_def Let_def takeWhile_digits)
  next
    case False
    then show ?thesis
      using assms neg[of "''.'' @ fixed_digits n f"] whole[of "''.'' @ fixed_digits n f"]
      by (simp add: read_fixed_def Let_def digits_value_fixed_digits field_simps)
  qed
qed

end
