(* ===== verification/Floating.thy ===== *)
theory Floating
  imports Prelude "HOL-Library.Log_Nat"
begin

text \<open>
  Floating-point arithmetic as the C++ code uses it. A \<^verbatim>\<open>float\<close> or \<^verbatim>\<open>double\<close> that
  carries a coordinate, an axis limit or a surface depth is a real number, and every
  arithmetic operation of the code is followed by the rounding of its type: \<open>f32\<close> to
  24 significant bits, \<open>f64\<close> to 53, to nearest with ties to even. The exponent range is
  not bounded, so there is no overflow, no underflow and no negative zero. Seismic
  samples are values of \<open>fp\<close>, which has the infinities and NaN too, because the
  division of two cubes produces them.

  The rounding executes: \<open>expo\<close> has a code equation on rationals, so concrete inputs
  evaluate inside the kernel. The locale \<open>rounding\<close> collects the laws the components
  rely on; \<open>f32\<close> and \<open>f64\<close> interpret it.
\<close>

named_theorems fp_simps \<open>exact floating-point results\<close>

section \<open>Rounding to a number of significant bits\<close>

text \<open>The binary exponent: \<open>2 ^ expo x \<le> \<bar>x\<bar> < 2 ^ (expo x + 1)\<close>.\<close>

definition expo :: "real \<Rightarrow> int" where
  "expo x = (if x = 0 then 0 else \<lfloor>log 2 \<bar>x\<bar>\<rfloor>)"

definition rnd :: "nat \<Rightarrow> real \<Rightarrow> real" where
  "rnd p x = (if x = 0 then 0
     else (let k = expo x - (int p - 1) in of_int (rne (x / 2 powi k)) * 2 powi k))"

definition representable :: "nat \<Rightarrow> real \<Rightarrow> bool" where
  "representable p x \<longleftrightarrow> (\<exists>m k. x = of_int m * 2 powi k \<and> \<bar>m\<bar> \<le> 2 ^ p)"

text \<open>The results of \<^verbatim>\<open>float\<close> and \<^verbatim>\<open>double\<close> operations.\<close>

definition f32 :: "real \<Rightarrow> real" where
  "f32 x = rnd 24 x"

definition f64 :: "real \<Rightarrow> real" where
  "f64 x = rnd 53 x"

text \<open>A value that a \<^verbatim>\<open>float\<close> variable can hold.\<close>

definition is_f32 :: "real \<Rightarrow> bool" where
  "is_f32 x \<longleftrightarrow> f32 x = x"

section \<open>Sample values\<close>

datatype fp = Fin real | PInf | NInf | NaN

fun fp_cvt :: "(real \<Rightarrow> real) \<Rightarrow> fp \<Rightarrow> fp" where
  "fp_cvt r (Fin x) = Fin (r x)"
| "fp_cvt r y = y"

fun fneg :: "fp \<Rightarrow> fp" where
  "fneg (Fin x) = Fin (- x)"
| "fneg PInf = NInf"
| "fneg NInf = PInf"
| "fneg NaN = NaN"

fun fp_abs :: "fp \<Rightarrow> fp" where
  "fp_abs (Fin x) = Fin \<bar>x\<bar>"
| "fp_abs NaN = NaN"
| "fp_abs _ = PInf"

fun fadd :: "(real \<Rightarrow> real) \<Rightarrow> fp \<Rightarrow> fp \<Rightarrow> fp" where
  "fadd r (Fin x) (Fin y) = Fin (r (x + y))"
| "fadd r NaN _ = NaN"
| "fadd r _ NaN = NaN"
| "fadd r PInf NInf = NaN"
| "fadd r NInf PInf = NaN"
| "fadd r (Fin _) y = y"
| "fadd r x _ = x"

definition fsub :: "(real \<Rightarrow> real) \<Rightarrow> fp \<Rightarrow> fp \<Rightarrow> fp" where
  "fsub r x y = fadd r x (fneg y)"

text \<open>The infinity with the sign of a non-zero real.\<close>

definition signed_inf :: "real \<Rightarrow> fp" where
  "signed_inf x = (if x = 0 then NaN else if 0 < x then PInf else NInf)"

fun fmul :: "(real \<Rightarrow> real) \<Rightarrow> fp \<Rightarrow> fp \<Rightarrow> fp" where
  "fmul r (Fin x) (Fin y) = Fin (r (x * y))"
| "fmul r NaN _ = NaN"
| "fmul r _ NaN = NaN"
| "fmul r (Fin x) PInf = signed_inf x"
| "fmul r (Fin x) NInf = signed_inf (- x)"
| "fmul r PInf (Fin y) = signed_inf y"
| "fmul r NInf (Fin y) = signed_inf (- y)"
| "fmul r x y = (if x = y then PInf else NInf)"

text \<open>
  Division. A zero divisor gives the infinity with the sign of the dividend, and NaN for
  a zero dividend; the sign of a zero divisor is not represented.
\<close>

fun fdiv :: "(real \<Rightarrow> real) \<Rightarrow> fp \<Rightarrow> fp \<Rightarrow> fp" where
  "fdiv r (Fin x) (Fin y) = (if y = 0 then signed_inf x else Fin (r (x / y)))"
| "fdiv r NaN _ = NaN"
| "fdiv r _ NaN = NaN"
| "fdiv r (Fin x) _ = Fin 0"
| "fdiv r PInf (Fin y) = (if y < 0 then NInf else PInf)"
| "fdiv r NInf (Fin y) = (if y < 0 then PInf else NInf)"
| "fdiv r _ _ = NaN"

fun fp_sqrt :: "(real \<Rightarrow> real) \<Rightarrow> fp \<Rightarrow> fp" where
  "fp_sqrt r (Fin x) = (if x < 0 then NaN else Fin (r (sqrt x)))"
| "fp_sqrt r PInf = PInf"
| "fp_sqrt r _ = NaN"

text \<open>The comparisons \<^verbatim>\<open><\<close> and \<^verbatim>\<open>==\<close>: false as soon as one side is NaN.\<close>

fun flt :: "fp \<Rightarrow> fp \<Rightarrow> bool" where
  "flt (Fin x) (Fin y) = (x < y)"
| "flt NaN _ = False"
| "flt _ NaN = False"
| "flt NInf y = (y \<noteq> NInf)"
| "flt x PInf = (x \<noteq> PInf)"
| "flt _ _ = False"

fun feq :: "fp \<Rightarrow> fp \<Rightarrow> bool" where
  "feq NaN _ = False"
| "feq _ NaN = False"
| "feq x y = (x = y)"

fun is_fin :: "fp \<Rightarrow> bool" where
  "is_fin (Fin _) = True"
| "is_fin _ = False"

fun fp_val :: "fp \<Rightarrow> real" where
  "fp_val (Fin x) = x"
| "fp_val _ = 0"

section \<open>The binary exponent\<close>

lemma two_powi: "(2::real) powi e = 2 powr of_int e"
  by (simp add: powr_real_of_int')

lemma two_powi_le_iff [simp]: "(2::real) powi a \<le> 2 powi b \<longleftrightarrow> a \<le> b"
  by (simp add: two_powi)

lemma of_int_abs_le_two_power: "\<bar>m\<bar> \<le> 2 ^ p \<longleftrightarrow> \<bar>real_of_int m\<bar> \<le> 2 ^ p"
  by (metis of_int_abs of_int_le_iff of_int_numeral of_int_power)

lemma expo_unique:
  assumes "2 powi e \<le> \<bar>x\<bar>" and "\<bar>x\<bar> < 2 powi (e + 1)"
  shows "expo x = e"
proof -
  have pos: "0 < \<bar>x\<bar>" using assms(1) by (smt (verit) zero_less_power_int)
  then have "\<bar>x\<bar> = 2 powr log 2 \<bar>x\<bar>" by simp
  moreover have "(2::real) powi e = 2 powr of_int e" "(2::real) powi (e + 1) = 2 powr of_int (e + 1)"
    by (rule two_powi)+
  ultimately have "2 powr of_int e \<le> 2 powr log 2 \<bar>x\<bar>" "2 powr log 2 \<bar>x\<bar> < 2 powr of_int (e + 1)"
    using assms by simp_all
  then have "of_int e \<le> log 2 \<bar>x\<bar>" "log 2 \<bar>x\<bar> < of_int (e + 1)" by simp_all
  then have "\<lfloor>log 2 \<bar>x\<bar>\<rfloor> = e" by (intro floor_unique) simp_all
  then show ?thesis using pos by (simp add: expo_def)
qed

lemma expo_bounds:
  assumes "x \<noteq> 0"
  shows "2 powi expo x \<le> \<bar>x\<bar>" and "\<bar>x\<bar> < 2 powi (expo x + 1)"
proof -
  define e where "e = \<lfloor>log 2 \<bar>x\<bar>\<rfloor>"
  have l: "of_int e \<le> log 2 \<bar>x\<bar>" "log 2 \<bar>x\<bar> < of_int (e + 1)"
    unfolding e_def using floor_correct[of "log 2 \<bar>x\<bar>"] by simp_all
  have "(2::real) powi e = 2 powr of_int e" "(2::real) powi (e + 1) = 2 powr of_int (e + 1)"
    by (rule two_powi)+
  moreover have "\<bar>x\<bar> = 2 powr log 2 \<bar>x\<bar>" using assms by simp
  ultimately have "2 powi e \<le> \<bar>x\<bar> \<and> \<bar>x\<bar> < 2 powi (e + 1)"
    using l by (metis powr_le_cancel_iff powr_less_cancel_iff one_less_numeral_iff semiring_norm(76))
  moreover have "expo x = e" using assms by (simp add: expo_def e_def)
  ultimately show "2 powi expo x \<le> \<bar>x\<bar>" and "\<bar>x\<bar> < 2 powi (expo x + 1)" by simp_all
qed

lemma expo_minus [simp]: "expo (- x) = expo x"
  by (simp add: expo_def)

lemma expo_mono:
  assumes "x \<noteq> 0" and "\<bar>x\<bar> \<le> \<bar>y\<bar>"
  shows "expo x \<le> expo y"
proof (rule ccontr)
  assume "\<not> expo x \<le> expo y"
  then have "(2::real) powi (expo y + 1) \<le> 2 powi expo x"
    by (intro power_int_increasing) simp_all
  moreover have "y \<noteq> 0" using assms by auto
  ultimately show False using assms expo_bounds(1)[of x] expo_bounds(2)[of y] by linarith
qed

text \<open>
  The code equation of the exponent: compare the lengths of numerator and denominator.
\<close>

lemma expo_Ratreal [code]:
  "expo (Ratreal r) = (case quotient_of r of (a, b) \<Rightarrow>
     if a = 0 then 0 else
     (let e = bitlen \<bar>a\<bar> - bitlen b in
       if (if 0 \<le> e then b * 2 ^ nat e \<le> \<bar>a\<bar> else b \<le> \<bar>a\<bar> * 2 ^ nat (- e)) then e else e - 1))"
proof -
  obtain a b where q: "quotient_of r = (a, b)" by (cases "quotient_of r")
  then have b: "0 < b" and r: "r = of_int a / of_int b"
    by (auto dest: quotient_of_denom_pos quotient_of_div)
  have x: "Ratreal r = of_int a / of_int b" by (simp add: r of_rat_divide)
  show ?thesis
  proof (cases "a = 0")
    case True
    then show ?thesis by (simp add: q r expo_def)
  next
    case False
    define e where "e = bitlen \<bar>a\<bar> - bitlen b"
    have powi_bitlen: "2 powi (bitlen n - 1) \<le> real_of_int n \<and> real_of_int n < 2 powi bitlen n"
      if "0 < n" for n
    proof -
      have bl: "0 < bitlen n" using that bitlen_eq_zero_iff[of n] bitlen_nonneg[of n] by linarith
      have "real_of_int (2 ^ nat (bitlen n - 1)) \<le> real_of_int n" "real_of_int n < real_of_int (2 ^ nat (bitlen n))"
        using bitlen_bounds[OF that] by linarith+
      then show ?thesis using bl by (simp add: power_int_nonneg_exp)
    qed
    have A: "2 powi (bitlen \<bar>a\<bar> - 1) \<le> \<bar>real_of_int a\<bar>" "\<bar>real_of_int a\<bar> < 2 powi bitlen \<bar>a\<bar>"
      using powi_bitlen[of "\<bar>a\<bar>"] False by simp_all
    have B: "2 powi (bitlen b - 1) \<le> real_of_int b" "real_of_int b < 2 powi bitlen b"
      using powi_bitlen[OF b] by simp_all
    have lo: "2 powi (e - 1) \<le> \<bar>real_of_int a\<bar> / real_of_int b"
    proof -
      have "2 powi (e - 1) * real_of_int b \<le> 2 powi (e - 1) * 2 powi bitlen b"
        using B by (intro mult_left_mono) simp_all
      also have "\<dots> = 2 powi (bitlen \<bar>a\<bar> - 1)" by (simp add: e_def flip: power_int_add)
      finally show ?thesis using A b by (simp add: field_simps)
    qed
    have hi: "\<bar>real_of_int a\<bar> / real_of_int b < 2 powi (e + 1)"
    proof -
      have "2 powi bitlen \<bar>a\<bar> = (2::real) powi (e + 1) * 2 powi (bitlen b - 1)"
        by (simp add: e_def flip: power_int_add)
      also have "\<dots> \<le> 2 powi (e + 1) * real_of_int b" using B by (intro mult_left_mono) simp_all
      finally show ?thesis using A b by (simp add: field_simps)
    qed
    have test: "(if 0 \<le> e then b * 2 ^ nat e \<le> \<bar>a\<bar> else b \<le> \<bar>a\<bar> * 2 ^ nat (- e))
        \<longleftrightarrow> 2 powi e \<le> \<bar>real_of_int a\<bar> / real_of_int b" (is "?t \<longleftrightarrow> ?u")
    proof (cases "0 \<le> e")
      case True
      have "?u \<longleftrightarrow> real_of_int (b * 2 ^ nat e) \<le> real_of_int \<bar>a\<bar>"
        using b True by (simp add: field_simps power_int_nonneg_exp)
      then show ?thesis using True by (simp only: of_int_le_iff if_True)
    next
      case e: False
      have "?u \<longleftrightarrow> real_of_int b \<le> real_of_int (\<bar>a\<bar> * 2 ^ nat (- e))"
        using b e by (simp add: field_simps power_int_def)
      then show ?thesis using e by (simp only: of_int_le_iff if_False)
    qed
    have ax: "\<bar>Ratreal r\<bar> = \<bar>real_of_int a\<bar> / real_of_int b" using b by (simp only: x abs_divide)
    show ?thesis
    proof (cases "2 powi e \<le> \<bar>real_of_int a\<bar> / real_of_int b")
      case True
      then have "expo (Ratreal r) = e" using hi by (intro expo_unique) (simp_all only: ax)
      then show ?thesis unfolding q prod.case Let_def e_def[symmetric] test using True False by simp
    next
      case nt: False
      then have "expo (Ratreal r) = e - 1" using lo by (intro expo_unique) (simp_all add: ax del: Ratreal_def)
      then show ?thesis unfolding q prod.case Let_def e_def[symmetric] test using nt False by simp
    qed
  qed
qed

section \<open>The rounding\<close>

lemma rnd_0 [simp]: "rnd p 0 = 0"
  by (simp add: rnd_def)

lemma rnd_minus [simp]: "rnd p (- x) = - rnd p x"
  by (simp add: rnd_def Let_def)

lemma rnd_error:
  assumes "0 < p"
  shows "\<bar>rnd p x - x\<bar> \<le> \<bar>x\<bar> / 2 ^ p"
proof (cases "x = 0")
  case False
  define k where "k = expo x - (int p - 1)"
  have k: "(2::real) powi k * 2 ^ p = 2 * 2 powi expo x"
    by (simp add: k_def power_int_diff power_int_add field_simps)
  have "rnd p x - x = (of_int (rne (x / 2 powi k)) - x / 2 powi k) * 2 powi k"
    using False by (simp add: rnd_def Let_def k_def algebra_simps)
  then have "\<bar>rnd p x - x\<bar> \<le> 1 / 2 * 2 powi k"
    using rne_error[of "x / 2 powi k"] by (simp add: abs_mult mult_right_mono)
  also have "\<dots> = 2 powi expo x / 2 ^ p" using k by (simp add: field_simps)
  also have "\<dots> \<le> \<bar>x\<bar> / 2 ^ p"
    using expo_bounds(1)[OF False] by (simp add: divide_right_mono)
  finally show ?thesis .
qed simp

lemma rnd_representable:
  assumes "0 < p" and "representable p x"
  shows "rnd p x = x"
proof (cases "x = 0")
  case False
  from assms(2) obtain m k where x: "x = of_int m * 2 powi k" and m: "\<bar>m\<bar> \<le> 2 ^ p"
    unfolding representable_def by blast
  define j where "j = expo x - (int p - 1)"
  have "x / 2 powi j \<in> \<int>"
  proof (cases "j \<le> k")
    case True
    then have "(2::real) powi k / 2 powi j = 2 ^ nat (k - j)"
      by (simp flip: power_int_diff add: power_int_nonneg_exp)
    then have "x / 2 powi j = of_int (m * 2 ^ nat (k - j))" by (simp add: x flip: times_divide_eq_right)
    then show ?thesis by (metis Ints_of_int)
  next
    case False
    have "(2::real) powi expo x \<le> 2 powi (int p + k)"
    proof -
      have "2 powi expo x \<le> \<bar>x\<bar>" by (rule expo_bounds(1)) fact
      also have "\<dots> = of_int \<bar>m\<bar> * 2 powi k" by (simp add: x abs_mult)
      also have "\<dots> \<le> 2 ^ p * 2 powi k"
        using m by (intro mult_right_mono) (simp_all add: of_int_abs_le_two_power)
      finally show ?thesis by (simp add: power_int_add)
    qed
    then have "expo x \<le> int p + k" by simp
    then have jk: "j = k + 1" "expo x = int p + k" using False by (simp_all add: j_def)
    have "\<bar>m\<bar> = 2 ^ p"
    proof -
      have "2 powi (int p + k) \<le> \<bar>x\<bar>" using expo_bounds(1)[OF \<open>x \<noteq> 0\<close>] jk by simp
      then have "(2::real) ^ p \<le> of_int \<bar>m\<bar>" by (simp add: x abs_mult power_int_add)
      then have "(2::int) ^ p \<le> \<bar>m\<bar>" by (metis of_int_le_iff of_int_numeral of_int_power)
      with m show ?thesis by simp
    qed
    then have "even m" using assms(1) by (metis abs_dvd_iff dvd_abs_iff even_power even_numeral)
    then obtain n where "m = 2 * n" by blast
    then have "x / 2 powi j = of_int n" by (simp add: x jk power_int_add)
    then show ?thesis by simp
  qed
  then obtain n where n: "x / 2 powi j = of_int n" by (auto elim: Ints_cases)
  have "rnd p x = of_int (rne (x / 2 powi j)) * 2 powi j"
    using False by (simp add: rnd_def Let_def j_def)
  also have "\<dots> = of_int n * 2 powi j" by (simp only: n rne_of_int)
  also have "\<dots> = x" using n by (simp add: field_simps)
  finally show ?thesis .
qed simp


lemma representable_rnd:
  assumes "0 < p"
  shows "representable p (rnd p x)"
proof (cases "x = 0")
  case True
  then show ?thesis by (auto simp: representable_def intro: exI[of _ 0])
next
  case False
  define k where "k = expo x - (int p - 1)"
  define m where "m = rne (x / 2 powi k)"
  have "\<bar>x\<bar> / 2 powi k \<le> 2 ^ p"
  proof -
    have "\<bar>x\<bar> \<le> 2 powi (expo x + 1)" using expo_bounds(2)[OF False] by simp
    also have "expo x + 1 = int p + k" by (simp add: k_def)
    finally show ?thesis by (simp add: power_int_add field_simps)
  qed
  then have "x / 2 powi k \<le> of_int (2 ^ p)" "of_int (- (2 ^ p)) \<le> x / 2 powi k"
    using False by (simp_all add: abs_le_iff field_simps abs_if split: if_splits)
  then have "m \<le> 2 ^ p" "- (2 ^ p) \<le> m"
    unfolding m_def by (metis rne_mono rne_of_int)+
  then have "\<bar>m\<bar> \<le> 2 ^ p" by simp
  moreover have "rnd p x = of_int m * 2 powi k"
    using False by (simp add: rnd_def Let_def k_def m_def)
  ultimately show ?thesis unfolding representable_def by blast
qed

lemma rnd_power: "0 < p \<Longrightarrow> rnd p (2 powi e) = 2 powi e"
  by (rule rnd_representable, simp, unfold representable_def, rule exI[of _ 1], rule exI[of _ e]) simp

lemma rnd_nonneg: "0 \<le> x \<Longrightarrow> 0 \<le> rnd p x"
  using rne_mono[of 0 "x / 2 powi (expo x - (int p - 1))"] rne_of_int[of 0]
  by (auto simp: rnd_def Let_def)

lemma rnd_mono_pos:
  assumes p: "0 < p" and x: "0 < x" and xy: "x \<le> y"
  shows "rnd p x \<le> rnd p y"
proof (cases "expo x = expo y")
  case True
  then show ?thesis using x xy
    by (auto simp: rnd_def Let_def intro!: mult_right_mono rne_mono divide_right_mono)
next
  case False
  then have lt: "expo x + 1 \<le> expo y" using expo_mono[of x y] x xy by simp
  have upper: "rnd p x \<le> 2 powi (expo x + 1)"
  proof -
    have "x / 2 powi (expo x - (int p - 1)) \<le> of_int (2 ^ p)"
      using expo_bounds(2)[of x] x by (simp add: field_simps flip: power_int_add) (simp add: power_int_diff power_int_add field_simps)
    then have "rne (x / 2 powi (expo x - (int p - 1))) \<le> 2 ^ p" by (metis rne_mono rne_of_int)
    then have "real_of_int (rne (x / 2 powi (expo x - (int p - 1)))) \<le> 2 ^ p"
      by (metis of_int_le_iff of_int_numeral of_int_power)
    then have "rnd p x \<le> 2 ^ p * 2 powi (expo x - (int p - 1))"
      using x by (simp add: rnd_def Let_def)
    also have "\<dots> = 2 powi (expo x + 1)" by (simp add: power_int_diff power_int_add)
    finally show ?thesis .
  qed
  have lower: "2 powi expo y \<le> rnd p y"
  proof -
    have "of_int (2 ^ (p - 1)) \<le> y / 2 powi (expo y - (int p - 1))"
      using expo_bounds(1)[of y] x xy p
      by (simp add: field_simps power_int_diff power_int_add of_nat_diff flip: power_int_of_nat)
    then have "2 ^ (p - 1) \<le> rne (y / 2 powi (expo y - (int p - 1)))" by (metis rne_mono rne_of_int)
    then have "2 ^ (p - 1) \<le> real_of_int (rne (y / 2 powi (expo y - (int p - 1))))"
      by (metis of_int_le_iff of_int_numeral of_int_power)
    then have "2 ^ (p - 1) * 2 powi (expo y - (int p - 1)) \<le> rnd p y"
      using x xy by (simp add: rnd_def Let_def)
    moreover have "2 ^ (p - 1) * 2 powi (expo y - (int p - 1)) = (2::real) powi expo y"
      using p by (simp add: power_int_diff flip: power_int_of_nat add: of_nat_diff)
    ultimately show ?thesis by simp
  qed
  have "(2::real) powi (expo x + 1) \<le> 2 powi expo y" using lt by simp
  then show ?thesis using upper lower by linarith
qed

lemma rnd_mono:
  assumes p: "0 < p" and xy: "x \<le> y"
  shows "rnd p x \<le> rnd p y"
proof (cases "0 < x")
  case True
  then show ?thesis using rnd_mono_pos p xy by blast
next
  case nx: False
  show ?thesis
  proof (cases "y < 0")
    case True
    then have "rnd p (- y) \<le> rnd p (- x)" using rnd_mono_pos[of p "- y" "- x"] p xy by simp
    then show ?thesis by simp
  next
    case False
    then have "rnd p x \<le> 0" "0 \<le> rnd p y"
      using nx rnd_nonneg[of "- x" p] rnd_nonneg[of y p] by simp_all
    then show ?thesis by simp
  qed
qed

section \<open>The laws of a rounding\<close>

text \<open>What the components rely on: the rounding is monotone and odd, exact on the
  numbers with at most \<open>prec\<close> significant bits, and within half a unit in the last
  place.\<close>

locale rounding =
  fixes fl :: "real \<Rightarrow> real" and prec :: nat
  assumes prec_pos: "0 < prec"
    and mono: "x \<le> y \<Longrightarrow> fl x \<le> fl y"
    and odd: "fl (- x) = - fl x"
    and error: "\<bar>fl x - x\<bar> \<le> \<bar>x\<bar> / 2 ^ prec"
    and exact: "representable prec x \<Longrightarrow> fl x = x"
    and rounded: "representable prec (fl x)"
begin

lemma idem: "fl (fl x) = fl x"
  by (rule exact) (rule rounded)

lemma fixed_representable: "fl x = x \<longleftrightarrow> representable prec x"
  using exact rounded by metis

lemma of_int: "\<bar>n\<bar> \<le> 2 ^ prec \<Longrightarrow> fl (of_int n) = of_int n"
  by (rule exact, unfold representable_def, rule exI[of _ n], rule exI[of _ 0]) simp

lemma of_nat: "n \<le> 2 ^ prec \<Longrightarrow> fl (real n) = real n"
proof -
  assume "n \<le> 2 ^ prec"
  then have "int n \<le> int (2 ^ prec)" by (rule zle_int[THEN iffD2])
  then show ?thesis using of_int[of "int n"] by simp
qed

lemma zero: "fl 0 = 0"
  using of_int[of 0] by simp

lemma nonneg: "0 \<le> x \<Longrightarrow> 0 \<le> fl x"
  using mono[of 0 x] zero by simp

lemma nonpos: "x \<le> 0 \<Longrightarrow> fl x \<le> 0"
  using mono[of x 0] zero by simp

lemma upper: "x \<le> y \<Longrightarrow> fl y = y \<Longrightarrow> fl x \<le> y"
  using mono by metis

lemma lower: "y \<le> x \<Longrightarrow> fl y = y \<Longrightarrow> y \<le> fl x"
  using mono by metis

lemma pos: "0 < x \<Longrightarrow> 0 < fl x"
proof -
  assume x: "0 < x"
  have "(1::real) < 2 ^ prec" using prec_pos by (simp add: one_less_power)
  then have "x / 2 ^ prec < x" using x by (simp add: divide_less_eq)
  then show ?thesis using error[of x] x by (simp add: abs_le_iff)
qed

lemma neg: "x < 0 \<Longrightarrow> fl x < 0"
  using pos[of "- x"] odd[of x] by simp

lemma zero_iff: "fl x = 0 \<longleftrightarrow> x = 0"
  using pos neg zero by (metis less_irrefl linorder_neqE_linordered_idom)

lemma sign: "0 < fl x \<longleftrightarrow> 0 < x" "fl x < 0 \<longleftrightarrow> x < 0" "0 \<le> fl x \<longleftrightarrow> 0 \<le> x" "fl x \<le> 0 \<longleftrightarrow> x \<le> 0"
  using pos neg zero by (metis less_irrefl linorder_neqE_linordered_idom not_le order_less_asym)+

lemma abs: "fl \<bar>x\<bar> = \<bar>fl x\<bar>"
  using odd[of x] nonneg[of x] nonpos[of x] by (cases "0 \<le> x") simp_all

lemma bounds: "x - \<bar>x\<bar> / 2 ^ prec \<le> fl x" "fl x \<le> x + \<bar>x\<bar> / 2 ^ prec"
  using error[of x] by (simp_all add: abs_le_iff)

lemma half: "fl x = x \<Longrightarrow> fl (x / 2) = x / 2"
proof -
  assume "fl x = x"
  then obtain m k where "x = of_int m * 2 powi k" "\<bar>m\<bar> \<le> 2 ^ prec"
    using rounded[of x] unfolding representable_def by auto
  then have "x / 2 = of_int m * 2 powi (k - 1)" by (simp add: power_int_diff)
  then show ?thesis using \<open>\<bar>m\<bar> \<le> 2 ^ prec\<close> by (intro exact) (auto simp: representable_def)
qed

lemma twice: "fl x = x \<Longrightarrow> fl (2 * x) = 2 * x"
proof -
  assume "fl x = x"
  then obtain m k where "x = of_int m * 2 powi k" "\<bar>m\<bar> \<le> 2 ^ prec"
    using rounded[of x] unfolding representable_def by auto
  then have "2 * x = of_int m * 2 powi (k + 1)" by (simp add: power_int_add)
  then show ?thesis using \<open>\<bar>m\<bar> \<le> 2 ^ prec\<close> by (intro exact) (auto simp: representable_def)
qed

end

lemma rounding_rnd: "0 < p \<Longrightarrow> rounding (rnd p) p"
  by unfold_locales (simp_all add: rnd_error rnd_representable representable_rnd rnd_mono)

interpretation single: rounding f32 24
proof -
  have "f32 = rnd 24" by (auto simp: f32_def)
  then show "rounding f32 24" using rounding_rnd[of 24] by simp
qed

interpretation double: rounding f64 53
proof -
  have "f64 = rnd 53" by (auto simp: f64_def)
  then show "rounding f64 53" using rounding_rnd[of 53] by simp
qed

lemmas f32_signs [simp] = single.zero single.zero_iff single.sign single.idem single.odd
lemmas f64_signs [simp] = double.zero double.zero_iff double.sign double.idem double.odd

lemma representable_mono: "p \<le> q \<Longrightarrow> representable p x \<Longrightarrow> representable q x"
proof -
  assume pq: "p \<le> q" and "representable p x"
  then obtain m k where x: "x = of_int m * 2 powi k" "\<bar>m\<bar> \<le> 2 ^ p"
    unfolding representable_def by blast
  moreover have "(2::int) ^ p \<le> 2 ^ q" using pq by simp
  ultimately show ?thesis unfolding representable_def using order_trans by blast
qed

lemma f64_f32 [simp]: "f64 (f32 x) = f32 x"
  by (intro double.exact representable_mono[OF _ single.rounded]) simp

lemma is_f32_f32 [simp]: "is_f32 (f32 x)"
  by (simp add: is_f32_def)

lemma f64_is_f32: "is_f32 x \<Longrightarrow> f64 x = x"
  using f64_f32[of x] by (simp add: is_f32_def)

lemma is_f32_of_int: "\<bar>n\<bar> \<le> 2 ^ 24 \<Longrightarrow> is_f32 (of_int n)"
  by (simp add: is_f32_def single.of_int)

text \<open>Whole numbers evaluate without rounding.\<close>

lemma f32_code [code]: "f32 x = (if x = of_int \<lfloor>x\<rfloor> \<and> \<bar>\<lfloor>x\<rfloor>\<bar> \<le> 16777216 then x else rnd 24 x)"
  using single.of_int[of "\<lfloor>x\<rfloor>"] by (auto simp: f32_def)

lemma f64_code [code]: "f64 x = (if x = of_int \<lfloor>x\<rfloor> \<and> \<bar>\<lfloor>x\<rfloor>\<bar> \<le> 9007199254740992 then x else rnd 53 x)"
  using double.of_int[of "\<lfloor>x\<rfloor>"] by (auto simp: f64_def)

lemma f32_numerals [simp, fp_simps]:
  "f32 1 = 1"
  "(numeral n :: int) \<le> 2 ^ 24 \<Longrightarrow> f32 (numeral n) = numeral n"
  using single.of_int[of 1] single.of_int[of "numeral n"] by simp_all

lemma f64_numerals [simp, fp_simps]:
  "f64 1 = 1"
  "(numeral n :: int) \<le> 2 ^ 53 \<Longrightarrow> f64 (numeral n) = numeral n"
  using double.of_int[of 1] double.of_int[of "numeral n"] by simp_all

section \<open>Sample values\<close>

lemma is_fin_iff: "is_fin y \<longleftrightarrow> (\<exists>x. y = Fin x)"
  by (cases y) simp_all

lemma is_fin_val: "is_fin y \<Longrightarrow> Fin (fp_val y) = y"
  by (cases y) simp_all

lemma fsub_Fin [simp]: "fsub r (Fin x) (Fin y) = Fin (r (x - y))"
  by (simp add: fsub_def)

lemma flt_irrefl [simp]: "\<not> flt x x"
  by (cases x) simp_all

lemma flt_trans: "flt x y \<Longrightarrow> flt y z \<Longrightarrow> flt x z"
  by (cases x; cases y; cases z) auto

lemma all_fin_map: "(\<forall>y \<in> set ys. is_fin y) \<longleftrightarrow> (\<exists>xs. ys = map Fin xs)"
proof (induction ys)
  case (Cons y ys)
  then show ?case by (cases y) (auto simp: Cons_eq_map_conv)
qed simp

end
