(* ===== verification/Openvds.thy ===== *)
theory Openvds
  imports Floating
begin

text \<open>
  The third-party code the program calls, as parameters: OpenVDS (names, axis
  descriptors, layouts, coordinate transformers and the access manager) and the makima
  interpolator of Boost. A record of type \<open>openvds\<close> is an argument of every definition
  that calls into them. Nothing is assumed about its fields here; the statements that
  rely on documented behaviour name it as a hypothesis.
\<close>

section \<open>Vectors of three components\<close>

text \<open>\<^verbatim>\<open>OpenVDS::IntVector3\<close>, \<^verbatim>\<open>OpenVDS::DoubleVector3\<close> and \<^verbatim>\<open>OpenVDS::DoubleVector2\<close>.\<close>

datatype 'a vec3 = Vec3 (vx: 'a) (vy: 'a) (vz: 'a)

type_synonym ivec3 = "int vec3"
type_synonym dvec3 = "real vec3"
type_synonym dvec2 = "real \<times> real"

text \<open>\<open>vnth v i\<close> is \<^verbatim>\<open>v[i]\<close> for \<open>i < 3\<close>, \<open>vupd v i a\<close> is \<^verbatim>\<open>v[i] = a\<close>.\<close>

definition vnth :: "'a vec3 \<Rightarrow> nat \<Rightarrow> 'a" where
  "vnth v i = (if i = 0 then vx v else if i = 1 then vy v else vz v)"

definition vupd :: "'a vec3 \<Rightarrow> nat \<Rightarrow> 'a \<Rightarrow> 'a vec3" where
  "vupd v i a = (case v of Vec3 x y z \<Rightarrow>
     if i = 0 then Vec3 a y z else if i = 1 then Vec3 x a z else Vec3 x y a)"

definition vadd :: "('a \<Rightarrow> 'a \<Rightarrow> 'a) \<Rightarrow> 'a vec3 \<Rightarrow> 'a vec3 \<Rightarrow> 'a vec3" where
  "vadd f u v = Vec3 (f (vx u) (vx v)) (f (vy u) (vy v)) (f (vz u) (vz v))"

definition real_vec3 :: "ivec3 \<Rightarrow> dvec3" where
  "real_vec3 v = map_vec3 of_int v"

section \<open>OpenVDS\<close>

text \<open>\<^verbatim>\<open>OpenVDS::KnownAxisNames\<close> and \<^verbatim>\<open>OpenVDS::KnownUnitNames\<close>.\<close>

record vds_names =
  Names_I :: string
  Names_J :: string
  Names_K :: string
  Names_Inline :: string
  Names_Crossline :: string
  Names_Depth :: string
  Names_Time :: string
  Names_Sample :: string
  Units_Meter :: string
  Units_Foot :: string
  Units_USSurveyFoot :: string
  Units_Millisecond :: string
  Units_Second :: string

text \<open>The known axis names are pairwise different, as OpenVDS documents them.\<close>

definition distinct_names :: "vds_names \<Rightarrow> bool" where
  "distinct_names n \<longleftrightarrow> distinct
     [Names_I n, Names_J n, Names_K n, Names_Inline n, Names_Crossline n,
      Names_Depth n, Names_Time n, Names_Sample n]"

text \<open>\<^verbatim>\<open>OpenVDS::VolumeDataAxisDescriptor\<close>.\<close>

record axis_descriptor =
  ad_num_samples :: int
  ad_name :: string
  ad_unit :: string
  ad_coordinate_min :: real
  ad_coordinate_max :: real

text \<open>
  \<^verbatim>\<open>OpenVDS::VolumeDataLayout\<close>: the answers to the queries the program makes. A
  metadata lookup may throw.
\<close>

record vds_layout =
  GetDimensionality :: int
  GetAxisDescriptor :: "nat \<Rightarrow> axis_descriptor"
  GetDimensionName :: "nat \<Rightarrow> string"
  SurveyCoordinateSystemCRSWkt :: "string result"
  ImportInformationInputFileName :: "string result"
  ImportInformationImportTimeStamp :: "string result"
  SurveyCoordinateSystemOrigin :: "dvec2 result"
  SurveyCoordinateSystemInlineSpacing :: "dvec2 result"
  SurveyCoordinateSystemCrosslineSpacing :: "dvec2 result"

text \<open>\<^verbatim>\<open>OpenVDS::IJKCoordinateTransformer\<close>.\<close>

record ijk_transformer =
  ijk_AnnotationToIJKIndex :: "dvec3 \<Rightarrow> ivec3"
  ijk_VoxelIndexToIJKIndex :: "ivec3 \<Rightarrow> ivec3"
  ijk_IJKIndexToWorld :: "ivec3 \<Rightarrow> dvec3"
  ijk_IJKIndexToAnnotation :: "ivec3 \<Rightarrow> dvec3"
  ijk_IJKPositionToAnnotation :: "dvec3 \<Rightarrow> dvec3"
  ijk_WorldToAnnotation :: "dvec3 \<Rightarrow> dvec3"
  ijk_IJKToVoxelDimensionMap :: "nat vec3"

datatype InterpolationMethod = Nearest | Linear | Cubic | Angular | Triangular

text \<open>
  \<^verbatim>\<open>OpenVDS::VolumeDataAccessManager\<close>, with the arguments the program varies. A
  request takes the byte size of the target buffer; it throws, or its
  \<^verbatim>\<open>WaitForCompletion\<close> fails (\<open>None\<close>), or it delivers the floats it writes to the
  start of the buffer.
\<close>

record access_manager =
  GetVolumeSubsetBufferSize :: "int list \<Rightarrow> int list \<Rightarrow> int result"
  RequestVolumeSubset :: "int \<Rightarrow> int list \<Rightarrow> int list \<Rightarrow> fp list option result"
  GetVolumeTracesBufferSize :: "nat \<Rightarrow> int \<Rightarrow> int result"
  RequestVolumeTraces ::
    "int \<Rightarrow> real list list \<Rightarrow> nat \<Rightarrow> InterpolationMethod \<Rightarrow> int \<Rightarrow> fp list option result"
  GetVolumeSamplesBufferSize :: "nat \<Rightarrow> int result"
  RequestVolumeSamples ::
    "int \<Rightarrow> real list list \<Rightarrow> nat \<Rightarrow> InterpolationMethod \<Rightarrow> fp list option result"

record vds_handle =
  vds_GetLayout :: vds_layout
  vds_GetAccessManager :: access_manager

text \<open>
  The library as a whole. \<open>Open\<close> gives the error string when its error code is not zero.
  \<open>makima\<close> builds the interpolator of \<^verbatim>\<open>boost::math::interpolators::makima\<close> from
  abscissas and ordinates and throws when it cannot; the interpolator may throw too.
\<close>

record openvds =
  known_names :: vds_names
  CoordinateToSamplePosition :: "axis_descriptor \<Rightarrow> real \<Rightarrow> real"
  make_ijk_transformer :: "vds_layout \<Rightarrow> ijk_transformer"
  Open :: "string \<Rightarrow> string \<Rightarrow> string + vds_handle"
  makima :: "real list \<Rightarrow> fp list \<Rightarrow> (real \<Rightarrow> fp result) result"

abbreviation Dimensionality_Max :: nat where
  "Dimensionality_Max \<equiv> 6"

section \<open>A concrete instance\<close>

text \<open>
  A small concrete library, to evaluate the definitions on: known names, and the layout of
  a survey with three inlines 1, 3, 5, two crosslines 10, 11 and four samples
  4, 8, 12, 16.
\<close>

definition example_names :: vds_names where
  "example_names = \<lparr>Names_I = ''I'', Names_J = ''J'', Names_K = ''K'', Names_Inline = ''Inline'',
     Names_Crossline = ''Crossline'', Names_Depth = ''Depth'', Names_Time = ''Time'', Names_Sample = ''Sample'',
     Units_Meter = ''m'', Units_Foot = ''ft'', Units_USSurveyFoot = ''usft'', Units_Millisecond = ''ms'',
     Units_Second = ''s''\<rparr>"

definition example_layout :: vds_layout where
  "example_layout = \<lparr>GetDimensionality = 3,
     GetAxisDescriptor = (\<lambda>d.
       if d = 0 then \<lparr>ad_num_samples = 4, ad_name = ''Sample'', ad_unit = ''ms'', ad_coordinate_min = 4, ad_coordinate_max = 16\<rparr>
       else if d = 1 then \<lparr>ad_num_samples = 2, ad_name = ''Crossline'', ad_unit = ''unitless'', ad_coordinate_min = 10, ad_coordinate_max = 11\<rparr>
       else \<lparr>ad_num_samples = 3, ad_name = ''Inline'', ad_unit = ''unitless'', ad_coordinate_min = 1, ad_coordinate_max = 5\<rparr>),
     GetDimensionName = (\<lambda>d. if d = 0 then ''Sample'' else if d = 1 then ''Crossline'' else ''Inline''),
     SurveyCoordinateSystemCRSWkt = Inr ''utmXX'',
     ImportInformationInputFileName = Inr ''in.segy'',
     ImportInformationImportTimeStamp = Inr ''2021-09-02'',
     SurveyCoordinateSystemOrigin = Inr (2, 0),
     SurveyCoordinateSystemInlineSpacing = Inr (3, 2),
     SurveyCoordinateSystemCrosslineSpacing = Inr (2, 3)\<rparr>"

section \<open>Lemmas\<close>

lemma vnth_simps [simp]:
  "vnth (Vec3 x y z) 0 = x" "vnth (Vec3 x y z) 1 = y" "vnth (Vec3 x y z) (Suc 0) = y"
  "vnth (Vec3 x y z) 2 = z"
  by (simp_all add: vnth_def)

lemma vec3_eq_iff: "u = v \<longleftrightarrow> vnth u 0 = vnth v 0 \<and> vnth u 1 = vnth v 1 \<and> vnth u 2 = vnth v 2"
  by (cases u; cases v) simp

lemma vadd_simps [simp]: "vadd p (Vec3 a b c) (Vec3 x y z) = Vec3 (p a x) (p b y) (p c z)"
  by (simp add: vadd_def)

end
