(* ===== verification/Directions.thy ===== *)
theory Directions
  imports Openvds
begin

text \<open>
  The enumerations of \<^verbatim>\<open>ctypes.h\<close>, the axis types of \<^verbatim>\<open>axis_type.hpp\<close> and the class
  \<^verbatim>\<open>Direction\<close>. The enumerations of \<^verbatim>\<open>ctypes.h\<close> cross the C interface, where any
  integer can arrive: each has one constructor for the values that are no enumerator,
  which the \<^verbatim>\<open>default\<close> branches of the code handle.
\<close>

section \<open>ctypes.h\<close>

datatype axis_name =
    I | J | K | INLINE | CROSSLINE | DEPTH | TIME | SAMPLE | other_axis_name int

datatype coordinate_system = INDEX | ANNOTATION | CDP | other_coordinate_system int

datatype binary_operator =
    INVALID_OPERATOR | NO_OPERATOR | ADDITION | SUBTRACTION | MULTIPLICATION | DIVISION
  | other_binary_operator int

datatype interpolation_method =
    NEAREST | LINEAR | CUBIC | ANGULAR | TRIANGULAR | other_interpolation_method int

datatype attribute =
    VALUE | MIN | MINAT | MAX | MAXAT | MAXABS | MAXABSAT | MEAN | MEANABS | MEANPOS
  | MEANNEG | MEDIAN | RMS | VAR | SD | SUMPOS | SUMNEG | other_attribute int

record Bound =
  bound_lower :: int
  bound_upper :: int
  bound_name :: axis_name

section \<open>axis_type.hpp, axis_type.cpp\<close>

datatype AxisType = AxisType_ILINE | AxisType_XLINE | AxisType_SAMPLE

fun axis_type_to_string :: "AxisType \<Rightarrow> string" where
  "axis_type_to_string AxisType_ILINE = ''inline''"
| "axis_type_to_string AxisType_XLINE = ''xline''"
| "axis_type_to_string AxisType_SAMPLE = ''sample''"

section \<open>direction.cpp\<close>

record Direction =
  m_axis_name :: axis_name

definition direction_name :: "Direction \<Rightarrow> axis_name" where
  "direction_name d = m_axis_name d"

definition direction_coordinate_system :: "Direction \<Rightarrow> coordinate_system result" where
  "direction_coordinate_system d = (case direction_name d of
       I \<Rightarrow> Inr INDEX | J \<Rightarrow> Inr INDEX | K \<Rightarrow> Inr INDEX
     | INLINE \<Rightarrow> Inr ANNOTATION | CROSSLINE \<Rightarrow> Inr ANNOTATION | DEPTH \<Rightarrow> Inr ANNOTATION
     | TIME \<Rightarrow> Inr ANNOTATION | SAMPLE \<Rightarrow> Inr ANNOTATION
     | other_axis_name _ \<Rightarrow> Inl (std_exception ''Unhandled axis''))"

definition direction_to_string :: "vds_names \<Rightarrow> Direction \<Rightarrow> string result" where
  "direction_to_string n d = (case direction_name d of
       I \<Rightarrow> Inr (Names_I n)
     | J \<Rightarrow> Inr (Names_J n)
     | K \<Rightarrow> Inr (Names_K n)
     | INLINE \<Rightarrow> Inr (Names_Inline n)
     | CROSSLINE \<Rightarrow> Inr (Names_Crossline n)
     | DEPTH \<Rightarrow> Inr (Names_Depth n)
     | TIME \<Rightarrow> Inr (Names_Time n)
     | SAMPLE \<Rightarrow> Inr (Names_Sample n)
     | other_axis_name _ \<Rightarrow> Inl (std_exception ''Unhandled axis''))"

definition direction_axis_type :: "Direction \<Rightarrow> AxisType result" where
  "direction_axis_type d = (case direction_name d of
       I \<Rightarrow> Inr AxisType_ILINE | INLINE \<Rightarrow> Inr AxisType_ILINE
     | J \<Rightarrow> Inr AxisType_XLINE | CROSSLINE \<Rightarrow> Inr AxisType_XLINE
     | K \<Rightarrow> Inr AxisType_SAMPLE | DEPTH \<Rightarrow> Inr AxisType_SAMPLE
     | TIME \<Rightarrow> Inr AxisType_SAMPLE | SAMPLE \<Rightarrow> Inr AxisType_SAMPLE
     | other_axis_name _ \<Rightarrow> Inl (std_exception ''Unhandled axis''))"

definition is_iline :: "Direction \<Rightarrow> bool result" where
  "is_iline d = rbind (direction_axis_type d) (\<lambda>t. Inr (t = AxisType_ILINE))"

definition is_xline :: "Direction \<Rightarrow> bool result" where
  "is_xline d = rbind (direction_axis_type d) (\<lambda>t. Inr (t = AxisType_XLINE))"

definition is_sample :: "Direction \<Rightarrow> bool result" where
  "is_sample d = rbind (direction_axis_type d) (\<lambda>t. Inr (t = AxisType_SAMPLE))"

section \<open>Lemmas\<close>

lemma axis_type_to_string_inj: "axis_type_to_string s = axis_type_to_string t \<Longrightarrow> s = t"
  by (cases s; cases t) simp_all

lemma direction_axis_type_result:
  "direction_axis_type d = Inl e \<longleftrightarrow>
     (\<exists>k. m_axis_name d = other_axis_name k) \<and> e = std_exception ''Unhandled axis''"
  by (auto simp: direction_axis_type_def direction_name_def split: axis_name.splits)

text \<open>The three queries classify every direction of the enumeration exactly once.\<close>

lemma direction_classified:
  assumes "direction_axis_type d = Inr t"
  shows "is_iline d = Inr (t = AxisType_ILINE) \<and> is_xline d = Inr (t = AxisType_XLINE) \<and>
    is_sample d = Inr (t = AxisType_SAMPLE)"
  using assms by (simp add: is_iline_def is_xline_def is_sample_def)

lemma coordinate_system_never_CDP: "direction_coordinate_system d = Inr s \<Longrightarrow> s = INDEX \<or> s = ANNOTATION"
  by (auto simp: direction_coordinate_system_def split: axis_name.splits)

lemma coordinate_system_axis_type:
  "(\<exists>s. direction_coordinate_system d = Inr s) \<longleftrightarrow> (\<exists>t. direction_axis_type d = Inr t)"
  by (auto simp: direction_coordinate_system_def direction_axis_type_def split: axis_name.splits)

end
