(* ===== verification/Axes.thy ===== *)
theory Axes
  imports Directions
begin

text \<open>
  The class \<^verbatim>\<open>Axis\<close> (\<^verbatim>\<open>axis.hpp\<close>, \<^verbatim>\<open>axis.cpp\<close>): its fields, its constructor and its
  queries, with the rounding of every \<^verbatim>\<open>float\<close> and \<^verbatim>\<open>double\<close> operation. An axis of a
  metadata handle is well formed: it has at least two samples and a positive step.
\<close>

section \<open>axis.hpp, axis.cpp\<close>

record Axis =
  m_min :: real
  m_max :: real
  m_nsamples :: int
  m_name :: string
  m_unit :: string
  m_dimension :: nat
  m_axis_descriptor :: axis_descriptor

definition make_Axis :: "real \<Rightarrow> real \<Rightarrow> int \<Rightarrow> string \<Rightarrow> string \<Rightarrow> nat \<Rightarrow> Axis" where
  "make_Axis mn mx nsamples nm unt dimension =
     \<lparr>m_min = mn, m_max = mx, m_nsamples = nsamples, m_name = nm, m_unit = unt,
      m_dimension = dimension,
      m_axis_descriptor = \<lparr>ad_num_samples = nsamples, ad_name = nm, ad_unit = unt,
        ad_coordinate_min = mn, ad_coordinate_max = mx\<rparr>\<rparr>"

text \<open>
  \<^verbatim>\<open>float\<close> arithmetic throughout: the difference of two floats divided by an \<^verbatim>\<open>int\<close> that
  converts to \<^verbatim>\<open>float\<close>. The divisor is not zero for the axes of a metadata handle.
\<close>

definition axis_stepsize :: "Axis \<Rightarrow> real" where
  "axis_stepsize a = f32 (f32 (m_max a - m_min a) / f32 (of_int (m_nsamples a - 1)))"

definition axis_inrange :: "Axis \<Rightarrow> real \<Rightarrow> bool" where
  "axis_inrange a coordinate \<longleftrightarrow> m_min a \<le> coordinate \<and> m_max a \<ge> coordinate"

text \<open>The literal \<^verbatim>\<open>0.5\<close> is a \<^verbatim>\<open>double\<close>, so both bounds are computed in \<^verbatim>\<open>double\<close>.\<close>

definition axis_inrange_with_margin :: "Axis \<Rightarrow> real \<Rightarrow> bool" where
  "axis_inrange_with_margin a coordinate \<longleftrightarrow>
     f64 (m_min a - f64 (1 / 2 * axis_stepsize a)) \<le> coordinate \<and>
     f64 (m_max a + f64 (1 / 2 * axis_stepsize a)) > coordinate"

definition axis_to_sample_position :: "openvds \<Rightarrow> Axis \<Rightarrow> real \<Rightarrow> real" where
  "axis_to_sample_position v a coordinate = CoordinateToSamplePosition v (m_axis_descriptor a) coordinate"

text \<open>The invariant of an axis, and the range of its fields as machine values.\<close>

definition wf_axis :: "Axis \<Rightarrow> bool" where
  "wf_axis a \<longleftrightarrow> 2 \<le> m_nsamples a \<and> 0 < axis_stepsize a"

definition float_axis :: "Axis \<Rightarrow> bool" where
  "float_axis a \<longleftrightarrow> is_f32 (m_min a) \<and> is_f32 (m_max a)"

text \<open>An axis of whole numbers: first line \<open>lo\<close>, step \<open>s\<close>, within the exact range of \<^verbatim>\<open>float\<close>.\<close>

definition whole_axis :: "int \<Rightarrow> int \<Rightarrow> Axis \<Rightarrow> bool" where
  "whole_axis lo s a \<longleftrightarrow> m_min a = of_int lo \<and> m_max a = of_int (lo + s * (m_nsamples a - 1)) \<and>
     2 \<le> m_nsamples a \<and> 0 < s \<and> \<bar>lo\<bar> \<le> 2 ^ 22 \<and> \<bar>lo + s * (m_nsamples a - 1)\<bar> \<le> 2 ^ 22"

section \<open>Lemmas\<close>

lemma make_Axis_simps [simp]:
  "m_min (make_Axis mn mx n nm u d) = mn" "m_max (make_Axis mn mx n nm u d) = mx"
  "m_nsamples (make_Axis mn mx n nm u d) = n" "m_name (make_Axis mn mx n nm u d) = nm"
  "m_unit (make_Axis mn mx n nm u d) = u" "m_dimension (make_Axis mn mx n nm u d) = d"
  by (simp_all add: make_Axis_def)

lemma stepsize_pos_iff: "2 \<le> m_nsamples a \<Longrightarrow> 0 < axis_stepsize a \<longleftrightarrow> m_min a < m_max a"
  by (simp add: axis_stepsize_def zero_less_divide_iff)

lemma wf_axis_iff: "wf_axis a \<longleftrightarrow> 2 \<le> m_nsamples a \<and> m_min a < m_max a"
  using stepsize_pos_iff by (auto simp: wf_axis_def)

lemma is_f32_stepsize [simp]: "is_f32 (axis_stepsize a)"
  by (simp add: axis_stepsize_def)

text \<open>The step is the rounded distance over the number of steps, up to one rounding.\<close>

lemma stepsize_error:
  assumes "2 \<le> m_nsamples a" and "m_nsamples a \<le> 2 ^ 24"
  shows "\<bar>axis_stepsize a * of_int (m_nsamples a - 1) - f32 (m_max a - m_min a)\<bar>
     \<le> \<bar>f32 (m_max a - m_min a)\<bar> / 2 ^ 24"
proof -
  define n where "n = m_nsamples a - 1"
  define D where "D = f32 (m_max a - m_min a)"
  have n: "0 < real_of_int n" using assms by (simp add: n_def)
  have fn: "f32 (of_int n) = of_int n" using assms by (intro single.of_int) (simp add: n_def)
  have "\<bar>axis_stepsize a - D / of_int n\<bar> \<le> \<bar>D / of_int n\<bar> / 2 ^ 24"
    using single.error[of "D / of_int n"] by (simp add: axis_stepsize_def fn flip: n_def D_def)
  then have "\<bar>(axis_stepsize a - D / of_int n) * of_int n\<bar> \<le> \<bar>D / of_int n\<bar> / 2 ^ 24 * of_int n"
    unfolding abs_mult using n by (intro mult_mono) simp_all
  then show ?thesis using n by (simp add: left_diff_distrib abs_divide flip: n_def D_def)
qed

text \<open>Two different numbers of \<open>p\<close> significant bits are not too close.\<close>

lemma representable_gap:
  assumes "0 < p" and "representable p x" and "representable p y" and "x \<noteq> y"
  shows "\<bar>x\<bar> / 2 ^ (p + 1) \<le> \<bar>x - y\<bar>"
proof (cases "x = 0")
  case False
  define k where "k = expo x - int p"
  have ub: "\<bar>x\<bar> < 2 powi k * 2 ^ (p + 1)" and lb: "2 powi k * 2 ^ p \<le> \<bar>x\<bar>"
    using expo_bounds[OF False] by (simp_all add: k_def power_int_diff power_int_add)
  have grid: "\<exists>n. z = of_int n * 2 powi k" 
    if rep: "representable p z" and big: "2 powi k * 2 ^ p \<le> 2 * \<bar>z\<bar>" for z
  proof -
    obtain m j where z: "z = of_int m * 2 powi j" and m: "\<bar>m\<bar> \<le> 2 ^ p"
      using rep unfolding representable_def by blast
    show ?thesis
    proof (cases "k \<le> j")
      case True
      then have "(2::real) powi j = 2 ^ nat (j - k) * 2 powi k"
        by (simp flip: power_int_add add: power_int_nonneg_exp[symmetric])
      then have "z = of_int (m * 2 ^ nat (j - k)) * 2 powi k" by (simp add: z)
      then show ?thesis by blast
    next
      case jk: False
      have "2 powi k * 2 ^ p \<le> 2 * (real_of_int \<bar>m\<bar> * 2 powi j)" using big by (simp add: z abs_mult)
      also have "\<dots> \<le> 2 * (2 ^ p * 2 powi j)"
        using m by (intro mult_left_mono mult_right_mono) (simp_all add: of_int_abs_le_two_power)
      finally have "(2::real) powi k \<le> 2 powi (j + 1)" by (simp add: power_int_add)
      then have kj: "k = j + 1" using jk by simp
      have "2 ^ p \<le> real_of_int \<bar>m\<bar>" using big by (simp add: z abs_mult kj power_int_add)
      then have "\<bar>m\<bar> = 2 ^ p" using m by (metis antisym of_int_le_iff of_int_numeral of_int_power)
      then have "even m" using assms(1) by (metis abs_dvd_iff dvd_abs_iff even_power even_numeral)
      then obtain n where "m = 2 * n" by blast
      then have "z = of_int n * 2 powi k" by (simp add: z kj power_int_add)
      then show ?thesis by blast
    qed
  qed
  show ?thesis
  proof (cases "2 powi k * 2 ^ p \<le> 2 * \<bar>y\<bar>")
    case True
    obtain n n' where n: "x = of_int n * 2 powi k" "y = of_int n' * 2 powi k"
      using grid[of x] grid[of y] assms(2,3) lb True by (metis abs_ge_zero mult_2 add_increasing2)
    then have "1 \<le> \<bar>real_of_int (n - n')\<bar>" using assms(4) by auto
    then have "2 powi k \<le> \<bar>real_of_int (n - n')\<bar> * 2 powi k" by simp
    also have "\<dots> = \<bar>x - y\<bar>" by (simp add: n abs_mult flip: left_diff_distrib)
    finally have "2 powi k * 2 ^ (p + 1) \<le> \<bar>x - y\<bar> * 2 ^ (p + 1)" by (rule mult_right_mono) simp
    then have "\<bar>x\<bar> \<le> \<bar>x - y\<bar> * 2 ^ (p + 1)" using ub by linarith
    then show ?thesis by (simp add: divide_le_eq)
  next
    case False
    then have "\<bar>x\<bar> / 2 \<le> \<bar>x - y\<bar>" using lb by linarith
    moreover have "\<bar>x\<bar> / 2 ^ (p + 1) \<le> \<bar>x\<bar> / 2" by (intro divide_left_mono) simp_all
    ultimately show ?thesis by linarith
  qed
qed simp

text \<open>Half a step is not lost when it is added to the end of the axis.\<close>

lemma margin_above_max:
  assumes wf: "wf_axis a" and fl: "float_axis a" and n: "m_nsamples a \<le> 2 ^ 24"
  shows "m_max a < f64 (m_max a + f64 (1 / 2 * axis_stepsize a))"
proof -
  define h where "h = 1 / 2 * axis_stepsize a"
  define D where "D = f32 (m_max a - m_min a)"
  have mm: "m_min a < m_max a" "2 \<le> m_nsamples a" using wf by (simp_all add: wf_axis_iff)
  have h0: "0 < h" using wf by (simp add: h_def wf_axis_def)
  have fh: "f64 h = h" using double.half[of "axis_stepsize a"] by (simp add: h_def f64_is_f32)
  have D0: "0 < D" using mm by (simp add: D_def)
  have "\<bar>m_max a\<bar> / 2 ^ 25 \<le> m_max a - m_min a"
    using representable_gap[of 24 "m_max a" "m_min a"] mm fl
    by (simp add: float_axis_def is_f32_def single.fixed_representable)
  moreover have "(m_max a - m_min a) * (1 / 2) \<le> D"
    using single.bounds(1)[of "m_max a - m_min a"] mm by (simp add: D_def field_simps)
  moreover have "D * (1 / 2) \<le> axis_stepsize a * of_int (m_nsamples a - 1)"
  proof -
    have close: "D * (1 / 2) \<le> x" if "\<bar>x - D\<bar> \<le> \<bar>D\<bar> / 2 ^ 24" for x
      using that D0 by (simp add: abs_if split: if_splits)
    show ?thesis by (rule close) (use stepsize_error[OF mm(2) n] in \<open>simp only: D_def\<close>)
  qed
  moreover have "axis_stepsize a * of_int (m_nsamples a - 1) \<le> axis_stepsize a * 2 ^ 24"
  proof (rule mult_left_mono)
    show "real_of_int (m_nsamples a - 1) \<le> 2 ^ 24" using n by simp
  qed (use wf in \<open>simp add: wf_axis_def\<close>)
  ultimately have "\<bar>m_max a\<bar> / 2 ^ 52 \<le> h" by (simp add: h_def)
  then have "\<bar>m_max a\<bar> + h < h * 2 ^ 53" using h0 by simp
  moreover have "\<bar>m_max a + h\<bar> \<le> \<bar>m_max a\<bar> + h" using h0 by linarith
  ultimately have "\<bar>m_max a + h\<bar> / 2 ^ 53 < h" by (simp add: divide_less_eq)
  then have "m_max a < f64 (m_max a + h)" using double.bounds(1)[of "m_max a + h"] by linarith
  then show ?thesis using fh unfolding h_def by (simp only:)
qed

text \<open>The sample number of a coordinate within the axis, in the arithmetic of the code.\<close>

lemma voxelline_bounds:
  assumes wf: "wf_axis a" and n: "m_nsamples a \<le> 2 ^ 22"
    and l: "m_min a \<le> x" "x \<le> m_max a"
  shows "0 \<le> f32 (f32 (x - m_min a) / axis_stepsize a)"
    and "f32 (f32 (x - m_min a) / axis_stepsize a) < of_int (m_nsamples a)"
proof -
  define D where "D = f32 (m_max a - m_min a)"
  define k where "k = real_of_int (m_nsamples a - 1)"
  define s where "s = axis_stepsize a"
  have s: "0 < s" and n2: "2 \<le> m_nsamples a" and mm: "m_min a < m_max a"
    using wf wf_axis_iff[of a] by (simp_all add: wf_axis_def s_def)
  have D: "0 < D" using mm by (simp add: D_def)
  have k: "1 \<le> k" "k \<le> 2 ^ 22" using n2 n by (simp_all add: k_def)
  have d: "0 \<le> f32 (x - m_min a)" "f32 (x - m_min a) \<le> D"
    using l unfolding D_def by (simp_all add: single.mono)
  then show "0 \<le> f32 (f32 (x - m_min a) / axis_stepsize a)" using s by (simp add: s_def)
  have "\<bar>s * k - D\<bar> \<le> \<bar>D\<bar> / 2 ^ 24"
    unfolding s_def k_def D_def using n n2 by (intro stepsize_error) simp_all
  then have "D - D / 2 ^ 24 \<le> s * k" using D by linarith
  then have "D / s * (1 - 1 / 2 ^ 24) \<le> k" using s by (simp add: field_simps)
  then have q: "D / s \<le> k + k / 2 ^ 23" using k by simp
  have "f32 (f32 (x - m_min a) / s) \<le> f32 (D / s)"
    using d s by (intro single.mono divide_right_mono) simp_all
  also have "\<dots> \<le> D / s + D / s / 2 ^ 24" using single.bounds(2)[of "D / s"] D s by simp
  also have "\<dots> < k + 1" using q k by simp
  finally show "f32 (f32 (x - m_min a) / axis_stepsize a) < of_int (m_nsamples a)"
    by (simp add: s_def k_def)
qed

text \<open>An axis of whole numbers: every quantity is exact.\<close>

lemma stepsize_exact:
  assumes "m_min a = of_int lo" and "m_max a = of_int (lo + s * (m_nsamples a - 1))"
    and "2 \<le> m_nsamples a" and "0 < s" and "s * (m_nsamples a - 1) \<le> 2 ^ 24"
  shows "axis_stepsize a = of_int s"
proof -
  define n where "n = m_nsamples a - 1"
  have n: "1 \<le> n" using assms(3) by (simp add: n_def)
  have sn: "s * n \<le> 2 ^ 24" using assms(5) by (simp add: n_def)
  have "1 * n \<le> s * n" "s * 1 \<le> s * n" using n assms(4) by (intro mult_right_mono mult_left_mono; simp)+
  then have b: "n \<le> 2 ^ 24" "s \<le> 2 ^ 24" using sn by simp_all
  have "m_max a - m_min a = of_int (s * n)" using assms(1,2) by (simp add: n_def)
  moreover have "f32 (of_int (s * n)) = of_int (s * n)" using sn n assms(4) by (intro single.of_int) simp
  moreover have "f32 (of_int n) = of_int n" using b n by (intro single.of_int) simp
  moreover have "f32 (of_int s) = of_int s" using b assms(4) by (intro single.of_int) simp
  ultimately show ?thesis using n by (simp add: axis_stepsize_def flip: n_def)
qed

lemma whole_axis_stepsize: "whole_axis lo s a \<Longrightarrow> axis_stepsize a = of_int s"
  by (rule stepsize_exact[of a lo]) (auto simp: whole_axis_def)

lemma whole_axis_wf: "whole_axis lo s a \<Longrightarrow> wf_axis a"
  using whole_axis_stepsize[of lo s a] by (auto simp: wf_axis_def whole_axis_def)

lemma f32_small_int: "\<bar>n\<bar> \<le> 16777216 \<Longrightarrow> f32 (of_int n) = of_int n"
  using single.of_int[of n] by simp

section \<open>Properties\<close>

text \<open>A coordinate inside the axis is inside the range with margin. The half step that
  \<^verbatim>\<open>inrange_with_margin\<close> adds survives the rounding of the step to \<^verbatim>\<open>float\<close> and of the
  bounds to \<^verbatim>\<open>double\<close>, for every axis of at most \<open>2 ^ 24\<close> samples.\<close>

theorem inrange_imp_inrange_with_margin:
  assumes "wf_axis a" and "float_axis a" and "m_nsamples a \<le> 2 ^ 24"
    and "axis_inrange a c"
  shows "axis_inrange_with_margin a c"
proof -
  have "f64 (m_min a - f64 (1 / 2 * axis_stepsize a)) \<le> m_min a"
    using assms(1,2) by (intro double.upper) (simp_all add: wf_axis_def float_axis_def f64_is_f32)
  then show ?thesis
    using margin_above_max[OF assms(1-3)] assms(4)
    by (auto simp: axis_inrange_def axis_inrange_with_margin_def)
qed

theorem inrange_imp_inrange_with_margin_witness:
  "axis_inrange_with_margin (make_Axis 4 16 4 ''Sample'' ''ms'' 2) 16"
  by (rule inrange_imp_inrange_with_margin)
    (simp_all add: wf_axis_iff float_axis_def is_f32_def axis_inrange_def)

end
