(* ===== verification/Transformers.thy ===== *)
theory Transformers
  imports Axes
begin

text \<open>
  The coordinate transformers (\<^verbatim>\<open>coordinate_transformer.hpp\<close>) and the bounding box
  (\<^verbatim>\<open>boundingbox.hpp\<close>, \<^verbatim>\<open>boundingbox.cpp\<close>). A single cube forwards to the OpenVDS
  transformer; the intersection of two cubes shifts its indices by the position of the
  intersection's origin in each cube.
\<close>

section \<open>SingleCoordinateTransformer\<close>

record SingleCoordinateTransformer =
  coordinate_transformer :: ijk_transformer

definition single_AnnotationToIJKIndex :: "SingleCoordinateTransformer \<Rightarrow> dvec3 \<Rightarrow> ivec3" where
  "single_AnnotationToIJKIndex t annotationPosition =
     ijk_AnnotationToIJKIndex (coordinate_transformer t) annotationPosition"

definition single_VoxelIndexToIJKIndex :: "SingleCoordinateTransformer \<Rightarrow> ivec3 \<Rightarrow> ivec3" where
  "single_VoxelIndexToIJKIndex t voxelIndex = ijk_VoxelIndexToIJKIndex (coordinate_transformer t) voxelIndex"

definition single_IJKIndexToWorld :: "SingleCoordinateTransformer \<Rightarrow> ivec3 \<Rightarrow> dvec3" where
  "single_IJKIndexToWorld t ijkIndex = ijk_IJKIndexToWorld (coordinate_transformer t) ijkIndex"

definition single_IJKIndexToAnnotation :: "SingleCoordinateTransformer \<Rightarrow> ivec3 \<Rightarrow> dvec3" where
  "single_IJKIndexToAnnotation t ijkIndex = ijk_IJKIndexToAnnotation (coordinate_transformer t) ijkIndex"

definition single_IJKPositionToAnnotation :: "SingleCoordinateTransformer \<Rightarrow> dvec3 \<Rightarrow> dvec3" where
  "single_IJKPositionToAnnotation t ijkPosition =
     ijk_IJKPositionToAnnotation (coordinate_transformer t) ijkPosition"

definition single_WorldToAnnotation :: "SingleCoordinateTransformer \<Rightarrow> dvec3 \<Rightarrow> dvec3" where
  "single_WorldToAnnotation t worldPosition = ijk_WorldToAnnotation (coordinate_transformer t) worldPosition"

definition single_IJKToVoxelDimensionMap :: "SingleCoordinateTransformer \<Rightarrow> nat vec3" where
  "single_IJKToVoxelDimensionMap t = ijk_IJKToVoxelDimensionMap (coordinate_transformer t)"

section \<open>DoubleCoordinateTransformer\<close>

record DoubleCoordinateTransformer =
  m_transformer_a :: SingleCoordinateTransformer
  m_intersection_zero_as_cube_a_index :: ivec3
  m_intersection_zero_as_cube_b_index :: ivec3

text \<open>The constructor. The loop over the three components is \<^const>\<open>map_vec3\<close>.\<close>

definition make_DoubleCoordinateTransformer ::
  "SingleCoordinateTransformer \<Rightarrow> SingleCoordinateTransformer \<Rightarrow> DoubleCoordinateTransformer result" where
  "make_DoubleCoordinateTransformer transformer_a transformer_b =
     (if single_IJKToVoxelDimensionMap transformer_a \<noteq> single_IJKToVoxelDimensionMap transformer_b
      then Inl (std_exception ''Coordinate Transformers have different dimension maps'')
      else (let
        cube_b_zero_as_annotation = single_IJKIndexToAnnotation transformer_b (Vec3 0 0 0);
        cube_b_zero_as_cube_a_index = single_AnnotationToIJKIndex transformer_a cube_b_zero_as_annotation;
        zero_a = map_vec3 (\<lambda>i. if i \<ge> 0 then i else 0) cube_b_zero_as_cube_a_index;
        intersection_zero_as_annotation = single_IJKIndexToAnnotation transformer_a zero_a;
        zero_b = single_AnnotationToIJKIndex transformer_b intersection_zero_as_annotation
      in Inr \<lparr>m_transformer_a = transformer_a,
              m_intersection_zero_as_cube_a_index = zero_a,
              m_intersection_zero_as_cube_b_index = zero_b\<rparr>))"

text \<open>
  Indices are added as \<^verbatim>\<open>int\<close>, positions as \<^verbatim>\<open>double\<close>.
\<close>

definition as_cube_a_ijk_index :: "DoubleCoordinateTransformer \<Rightarrow> ivec3 \<Rightarrow> ivec3" where
  "as_cube_a_ijk_index t ijkIndex = vadd (+) ijkIndex (m_intersection_zero_as_cube_a_index t)"

definition as_cube_a_ijk_position :: "DoubleCoordinateTransformer \<Rightarrow> dvec3 \<Rightarrow> dvec3" where
  "as_cube_a_ijk_position t ijkPosition =
     vadd (\<lambda>x z. f64 (x + z)) ijkPosition (real_vec3 (m_intersection_zero_as_cube_a_index t))"

definition double_VoxelIndexToIJKIndex :: "DoubleCoordinateTransformer \<Rightarrow> ivec3 \<Rightarrow> ivec3" where
  "double_VoxelIndexToIJKIndex t voxelIndex = single_VoxelIndexToIJKIndex (m_transformer_a t) voxelIndex"

definition double_IJKIndexToWorld :: "DoubleCoordinateTransformer \<Rightarrow> ivec3 \<Rightarrow> dvec3" where
  "double_IJKIndexToWorld t ijkIndex =
     single_IJKIndexToWorld (m_transformer_a t) (as_cube_a_ijk_index t ijkIndex)"

definition double_IJKIndexToAnnotation :: "DoubleCoordinateTransformer \<Rightarrow> ivec3 \<Rightarrow> dvec3" where
  "double_IJKIndexToAnnotation t ijkIndex =
     single_IJKIndexToAnnotation (m_transformer_a t) (as_cube_a_ijk_index t ijkIndex)"

definition double_WorldToAnnotation :: "DoubleCoordinateTransformer \<Rightarrow> dvec3 \<Rightarrow> dvec3" where
  "double_WorldToAnnotation t worldPosition = single_WorldToAnnotation (m_transformer_a t) worldPosition"

definition double_IJKPositionToAnnotation :: "DoubleCoordinateTransformer \<Rightarrow> dvec3 \<Rightarrow> dvec3" where
  "double_IJKPositionToAnnotation t ijkPosition =
     single_IJKPositionToAnnotation (m_transformer_a t) (as_cube_a_ijk_position t ijkPosition)"

text \<open>
  The template loops \<^verbatim>\<open>to_cube_a_voxel_position\<close> and \<^verbatim>\<open>to_cube_b_voxel_position\<close>: for
  each of the three axes one entry of the output is written. \<open>add\<close> is the addition of an
  \<^verbatim>\<open>int\<close> to the element type: exact for \<^verbatim>\<open>int\<close> (\<open>add_int\<close>), rounded for \<^verbatim>\<open>float\<close>
  (\<open>add_float\<close>). Both loops read the dimension map of cube a.
\<close>

definition add_int :: "int \<Rightarrow> int \<Rightarrow> int" where
  "add_int x z = x + z"

definition add_float :: "real \<Rightarrow> int \<Rightarrow> real" where
  "add_float x z = f32 (x + f32 (of_int z))"

definition to_cube_a_voxel_position ::
  "('t \<Rightarrow> int \<Rightarrow> 't) \<Rightarrow> DoubleCoordinateTransformer \<Rightarrow> 't list \<Rightarrow> 't list \<Rightarrow> 't list" where
  "to_cube_a_voxel_position add t out_position position =
     fold (\<lambda>ijk_index out.
       let voxel_index = vnth (single_IJKToVoxelDimensionMap (m_transformer_a t)) ijk_index
       in out[voxel_index := add (position ! voxel_index)
                                 (vnth (m_intersection_zero_as_cube_a_index t) ijk_index)])
       [0, 1, 2] out_position"

definition to_cube_b_voxel_position ::
  "('t \<Rightarrow> int \<Rightarrow> 't) \<Rightarrow> DoubleCoordinateTransformer \<Rightarrow> 't list \<Rightarrow> 't list \<Rightarrow> 't list" where
  "to_cube_b_voxel_position add t out_position position =
     fold (\<lambda>ijk_index out.
       let voxel_index = vnth (single_IJKToVoxelDimensionMap (m_transformer_a t)) ijk_index
       in out[voxel_index := add (position ! voxel_index)
                                 (vnth (m_intersection_zero_as_cube_b_index t) ijk_index)])
       [0, 1, 2] out_position"

section \<open>The abstract class CoordinateTransformer\<close>

datatype CoordinateTransformer =
    SingleTransformer SingleCoordinateTransformer
  | DoubleTransformer DoubleCoordinateTransformer

fun VoxelIndexToIJKIndex :: "CoordinateTransformer \<Rightarrow> ivec3 \<Rightarrow> ivec3" where
  "VoxelIndexToIJKIndex (SingleTransformer t) = single_VoxelIndexToIJKIndex t"
| "VoxelIndexToIJKIndex (DoubleTransformer t) = double_VoxelIndexToIJKIndex t"

fun IJKIndexToWorld :: "CoordinateTransformer \<Rightarrow> ivec3 \<Rightarrow> dvec3" where
  "IJKIndexToWorld (SingleTransformer t) = single_IJKIndexToWorld t"
| "IJKIndexToWorld (DoubleTransformer t) = double_IJKIndexToWorld t"

fun IJKIndexToAnnotation :: "CoordinateTransformer \<Rightarrow> ivec3 \<Rightarrow> dvec3" where
  "IJKIndexToAnnotation (SingleTransformer t) = single_IJKIndexToAnnotation t"
| "IJKIndexToAnnotation (DoubleTransformer t) = double_IJKIndexToAnnotation t"

fun IJKPositionToAnnotation :: "CoordinateTransformer \<Rightarrow> dvec3 \<Rightarrow> dvec3" where
  "IJKPositionToAnnotation (SingleTransformer t) = single_IJKPositionToAnnotation t"
| "IJKPositionToAnnotation (DoubleTransformer t) = double_IJKPositionToAnnotation t"

fun WorldToAnnotation :: "CoordinateTransformer \<Rightarrow> dvec3 \<Rightarrow> dvec3" where
  "WorldToAnnotation (SingleTransformer t) = single_WorldToAnnotation t"
| "WorldToAnnotation (DoubleTransformer t) = double_WorldToAnnotation t"

section \<open>boundingbox.hpp, boundingbox.cpp\<close>

record BoundingBox =
  m_nilines :: int
  m_nxlines :: int
  m_transformer :: CoordinateTransformer

definition bbox_index :: "BoundingBox \<Rightarrow> (int \<times> int) list" where
  "bbox_index b = (let ils = m_nilines b - 1; xls = m_nxlines b - 1
     in [(0, 0), (ils, 0), (ils, xls), (0, xls)])"

definition bbox_world :: "BoundingBox \<Rightarrow> (real \<times> real) list" where
  "bbox_world b = map (\<lambda>point.
     let p = IJKIndexToWorld (m_transformer b) (Vec3 (fst point) (snd point) 0)
     in (vnth p 0, vnth p 1)) (bbox_index b)"

definition bbox_annotation :: "BoundingBox \<Rightarrow> (int \<times> int) list" where
  "bbox_annotation b = map (\<lambda>point.
     let anno = IJKIndexToAnnotation (m_transformer b) (Vec3 (fst point) (snd point) 0)
     in (trunc (vnth anno 0), trunc (vnth anno 1))) (bbox_index b)"

section \<open>What the code relies on from OpenVDS\<close>

text \<open>
  The OpenVDS transformer of a survey with origin \<open>orig\<close> and step \<open>step\<close>, as documented:
  index to annotation is affine along each axis; annotation to index inverts it on the
  survey's own lattice, also beyond the limits of the cube; the dimension map is a
  permutation of the three voxel dimensions.
\<close>

definition affine :: "dvec3 \<Rightarrow> dvec3 \<Rightarrow> ivec3 \<Rightarrow> dvec3" where
  "affine orig step ijk = Vec3 (vx orig + vx step * of_int (vx ijk)) (vy orig + vy step * of_int (vy ijk))
     (vz orig + vz step * of_int (vz ijk))"

definition survey_transformer :: "dvec3 \<Rightarrow> dvec3 \<Rightarrow> SingleCoordinateTransformer \<Rightarrow> bool" where
  "survey_transformer orig step t \<longleftrightarrow>
     (\<forall>ijk. single_IJKIndexToAnnotation t ijk = affine orig step ijk) \<and>
     (\<forall>ijk. single_AnnotationToIJKIndex t (affine orig step ijk) = ijk) \<and>
     (let m = single_IJKToVoxelDimensionMap t in {vnth m 0, vnth m 1, vnth m 2} = {0, 1, 2})"

text \<open>Two surveys on one lattice: the origin of b lies a whole number of steps from a's.\<close>

definition same_lattice :: "dvec3 \<Rightarrow> dvec3 \<Rightarrow> dvec3 \<Rightarrow> ivec3 \<Rightarrow> bool" where
  "same_lattice orig_a orig_b step d \<longleftrightarrow> orig_b = affine orig_a step d"

text \<open>
  A concrete OpenVDS transformer, to evaluate the definitions on: a survey with the given
  origin and step whose world coordinates are its annotations, and whose voxel dimensions
  are sample, crossline, inline.
\<close>

definition example_ijk :: "dvec3 \<Rightarrow> dvec3 \<Rightarrow> ijk_transformer" where
  "example_ijk orig step = \<lparr>
     ijk_AnnotationToIJKIndex = (\<lambda>a. Vec3 (rne ((vx a - vx orig) / vx step)) (rne ((vy a - vy orig) / vy step))
       (rne ((vz a - vz orig) / vz step))),
     ijk_VoxelIndexToIJKIndex = (\<lambda>v. Vec3 (vz v) (vy v) (vx v)),
     ijk_IJKIndexToWorld = affine orig step,
     ijk_IJKIndexToAnnotation = affine orig step,
     ijk_IJKPositionToAnnotation = (\<lambda>p. Vec3 (vx orig + vx step * vx p) (vy orig + vy step * vy p)
       (vz orig + vz step * vz p)),
     ijk_WorldToAnnotation = (\<lambda>w. w),
     ijk_IJKToVoxelDimensionMap = Vec3 2 1 0\<rparr>"

text \<open>
  The concrete library built on it: sample positions are sample indices plus one half, and
  the interpolator, defined between the first and the last abscissa, returns the ordinate at
  the largest abscissa not above its argument.
\<close>

definition example_access :: access_manager where
  "example_access = \<lparr>
     GetVolumeSubsetBufferSize = (\<lambda>lower upper. Inr (4 * prod_list (map2 (\<lambda>l u. u - l) lower upper))),
     RequestVolumeSubset = (\<lambda>size lower upper. Inr (Some (replicate (nat size div 4) (Fin 1)))),
     GetVolumeTracesBufferSize = (\<lambda>n dim. Inr (4 * (4 * int n))),
     RequestVolumeTraces = (\<lambda>size coords n ip dim. Inr (Some (replicate (nat size div 4) (Fin 1)))),
     GetVolumeSamplesBufferSize = (\<lambda>n. Inr (4 * int n)),
     RequestVolumeSamples = (\<lambda>size coords n ip. Inr (Some (replicate (nat size div 4) (Fin 1))))\<rparr>"

definition example_vds :: openvds where
  "example_vds = \<lparr>known_names = example_names,
     CoordinateToSamplePosition = (\<lambda>d c. (c - ad_coordinate_min d) / (ad_coordinate_max d - ad_coordinate_min d) *
       of_int (ad_num_samples d - 1) + 1 / 2),
     make_ijk_transformer = (\<lambda>l. example_ijk (Vec3 1 10 4) (Vec3 2 1 4)),
     Open = (\<lambda>url cred. if url = ''vds'' then Inr \<lparr>vds_GetLayout = example_layout, vds_GetAccessManager = example_access\<rparr>
                    else Inl ''File not found''),
     makima = (\<lambda>xs ys. if length xs < 4 then Inl (std_exception ''Must be at least four data points.'')
                   else Inr (\<lambda>x. if x < hd xs \<or> last xs < x then Inl (std_exception ''outside of allowed range'')
                                  else Inr (fold (\<lambda>(a, y) r. if a \<le> x then y else r) (zip xs ys) (hd ys))))\<rparr>"

section \<open>Lemmas\<close>

lemmas single_transformer_defs =
  single_AnnotationToIJKIndex_def single_VoxelIndexToIJKIndex_def single_IJKIndexToWorld_def
  single_IJKIndexToAnnotation_def single_IJKPositionToAnnotation_def single_WorldToAnnotation_def
  single_IJKToVoxelDimensionMap_def

lemmas double_transformer_defs =
  double_VoxelIndexToIJKIndex_def double_IJKIndexToWorld_def double_IJKIndexToAnnotation_def
  double_WorldToAnnotation_def double_IJKPositionToAnnotation_def

lemma example_survey:
  assumes "vx step \<noteq> 0" "vy step \<noteq> 0" "vz step \<noteq> 0"
  shows "survey_transformer orig step \<lparr>coordinate_transformer = example_ijk orig step\<rparr>"
  using assms by (auto simp: survey_transformer_def single_transformer_defs example_ijk_def affine_def)

lemma affine_shift: "affine (affine orig step d) step ijk = affine orig step (vadd (+) ijk d)"
  by (cases ijk; cases d) (simp add: affine_def vadd_def algebra_simps)

lemma vadd_comm_group:
  "vadd (+) (vadd (+) u v) w = vadd (+) u (vadd (+) v (w :: ivec3))"
  by (cases u; cases v; cases w) simp

definition vpos :: "ivec3 \<Rightarrow> ivec3" where
  "vpos v = map_vec3 (\<lambda>i. if i \<ge> 0 then i else 0) v"

definition vneg_part :: "ivec3 \<Rightarrow> ivec3" where
  "vneg_part v = map_vec3 (\<lambda>i. if i \<ge> 0 then 0 else - i) v"

lemma vpos_decompose: "vpos d = vadd (+) (vneg_part d) d"
  by (cases d) (simp add: vpos_def vneg_part_def)

text \<open>
  The constructor computes the two shifts: with \<open>d\<close> the distance from cube a to cube b in
  steps, the intersection starts at the positive part of \<open>d\<close> in a and at its negative
  part in b.
\<close>

lemma make_double_transformer_shifts:
  assumes a: "survey_transformer orig_a step ta" and b: "survey_transformer orig_b step tb"
    and lat: "same_lattice orig_a orig_b step d"
    and ok: "make_DoubleCoordinateTransformer ta tb = Inr t"
  shows "m_transformer_a t = ta" and "m_intersection_zero_as_cube_a_index t = vpos d"
    and "m_intersection_zero_as_cube_b_index t = vneg_part d"
proof -
  have ob: "orig_b = affine orig_a step d" using lat by (simp add: same_lattice_def)
  have z: "affine orig_b step (Vec3 0 0 0) = affine orig_a step d"
    by (cases orig_b) (simp add: ob affine_def)
  have "affine orig_a step (vpos d) = affine orig_b step (vneg_part d)"
    by (simp add: ob affine_shift vpos_decompose)
  then show "m_transformer_a t = ta" and "m_intersection_zero_as_cube_a_index t = vpos d"
    and "m_intersection_zero_as_cube_b_index t = vneg_part d"
    using ok a b z
    by (auto simp: make_DoubleCoordinateTransformer_def Let_def survey_transformer_def
        simp flip: vpos_def split: if_splits)
qed

text \<open>The loops write exactly the three entries of the dimension map.\<close>

lemma permutation3_distinct:
  assumes "{x, y, z} = {0::nat, 1, 2}"
  shows "distinct [x, y, z] \<and> x < 3 \<and> y < 3 \<and> z < 3"
proof -
  have "card {x, y, z} = 3" using assms by simp
  then have "distinct [x, y, z]" by (auto simp: card_insert_if split: if_splits)
  moreover have "x \<in> {0, 1, 2}" "y \<in> {0, 1, 2}" "z \<in> {0, 1, 2}" using assms by blast+
  ultimately show ?thesis by auto
qed

lemma survey_dimension_map:
  assumes "survey_transformer orig step t"
  shows "distinct (map (vnth (single_IJKToVoxelDimensionMap t)) [0, 1, 2])"
    and "i < 3 \<Longrightarrow> vnth (single_IJKToVoxelDimensionMap t) i < 3"
proof -
  define m where "m = single_IJKToVoxelDimensionMap t"
  have "{vnth m 0, vnth m 1, vnth m 2} = {0, 1, 2}"
    using assms by (simp add: survey_transformer_def Let_def m_def)
  then have d: "distinct [vnth m 0, vnth m 1, vnth m 2] \<and> vnth m 0 < 3 \<and> vnth m 1 < 3 \<and> vnth m 2 < 3"
    by (rule permutation3_distinct)
  then show "distinct (map (vnth (single_IJKToVoxelDimensionMap t)) [0, 1, 2])" by (simp add: m_def)
  assume "i < 3"
  then have "i = 0 \<or> i = 1 \<or> i = 2" by auto
  then show "vnth (single_IJKToVoxelDimensionMap t) i < 3" using d by (auto simp: m_def)
qed

lemma fold_write_three:
  assumes "distinct (map (vnth m) [0, 1, 2])" and "\<And>i. i < 3 \<Longrightarrow> vnth m i < length xs"
  shows "length (fold (\<lambda>i out. out[vnth m i := f i]) [0, 1, 2] xs) = length xs"
    and "i < 3 \<Longrightarrow> fold (\<lambda>i out. out[vnth m i := f i]) [0, 1, 2] xs ! (vnth m i) = f i"
    and "(\<And>i. i < 3 \<Longrightarrow> j \<noteq> vnth m i) \<Longrightarrow> fold (\<lambda>i out. out[vnth m i := f i]) [0, 1, 2] xs ! j = xs ! j"
proof -
  show "length (fold (\<lambda>i out. out[vnth m i := f i]) [0, 1, 2] xs) = length xs" by simp
  have b: "vnth m 0 < length xs" "vnth m (Suc 0) < length xs" "vnth m 2 < length xs"
    using assms(2)[of 0] assms(2)[of "Suc 0"] assms(2)[of 2] by simp_all
  show "fold (\<lambda>i out. out[vnth m i := f i]) [0, 1, 2] xs ! (vnth m i) = f i" if "i < 3"
  proof -
    have "i = 0 \<or> i = 1 \<or> i = 2" using that by auto
    then show ?thesis using assms(1) b by (auto simp: nth_list_update)
  qed
  show "fold (\<lambda>i out. out[vnth m i := f i]) [0, 1, 2] xs ! j = xs ! j"
    if "\<And>i. i < 3 \<Longrightarrow> j \<noteq> vnth m i"
    using that[of 0] that[of "Suc 0"] that[of 2] by (simp add: nth_list_update_neq)
qed

lemma to_cube_voxel_position_nth:
  assumes "survey_transformer orig step (m_transformer_a t)" and "3 \<le> length out" and "i < 3"
  shows "to_cube_a_voxel_position add t out pos ! vnth (single_IJKToVoxelDimensionMap (m_transformer_a t)) i
      = add (pos ! vnth (single_IJKToVoxelDimensionMap (m_transformer_a t)) i)
            (vnth (m_intersection_zero_as_cube_a_index t) i)"
    and "to_cube_b_voxel_position add t out pos ! vnth (single_IJKToVoxelDimensionMap (m_transformer_a t)) i
      = add (pos ! vnth (single_IJKToVoxelDimensionMap (m_transformer_a t)) i)
            (vnth (m_intersection_zero_as_cube_b_index t) i)"
proof -
  let ?m = "single_IJKToVoxelDimensionMap (m_transformer_a t)"
  have b: "\<And>i. i < 3 \<Longrightarrow> vnth ?m i < length out"
    using survey_dimension_map(2)[OF assms(1)] assms(2) by (meson less_le_trans)
  note w = fold_write_three(2)[OF survey_dimension_map(1)[OF assms(1)] b assms(3)]
  show "to_cube_a_voxel_position add t out pos ! vnth ?m i
      = add (pos ! vnth ?m i) (vnth (m_intersection_zero_as_cube_a_index t) i)"
    using w by (simp only: to_cube_a_voxel_position_def Let_def)
  show "to_cube_b_voxel_position add t out pos ! vnth ?m i
      = add (pos ! vnth ?m i) (vnth (m_intersection_zero_as_cube_b_index t) i)"
    using w by (simp only: to_cube_b_voxel_position_def Let_def)
qed

lemma length_to_cube_voxel_position [simp]:
  "length (to_cube_a_voxel_position add t out pos) = length out"
  "length (to_cube_b_voxel_position add t out pos) = length out"
  by (simp_all add: to_cube_a_voxel_position_def to_cube_b_voxel_position_def Let_def)

section \<open>The interface of a lattice transformer\<close>

text \<open>
  What a client of \<^verbatim>\<open>CoordinateTransformer\<close> relies on: the indices of the cube are laid
  out on a lattice. Both implementations provide it; the intersection's origin is cube a's
  origin moved by the shift of the intersection.
\<close>

locale lattice_transformer =
  fixes on_lattice :: "dvec3 \<Rightarrow> dvec3 \<Rightarrow> 't \<Rightarrow> bool"
    and annotate :: "'t \<Rightarrow> ivec3 \<Rightarrow> dvec3"
  assumes annotate_affine: "on_lattice orig step t \<Longrightarrow> annotate t v = affine orig step v"
begin

lemma annotate_origin: "on_lattice orig step t \<Longrightarrow> annotate t (Vec3 0 0 0) = orig"
  by (cases orig) (simp add: annotate_affine affine_def)

lemma annotate_corner:
  assumes "on_lattice orig step t"
  shows "vnth (annotate t (Vec3 i j k)) 0 = vx orig + vx step * of_int i"
    and "vnth (annotate t (Vec3 i j k)) 1 = vy orig + vy step * of_int j"
  using assms by (simp_all add: annotate_affine affine_def)

lemma annotate_inj:
  assumes "on_lattice orig step t" and "vx step \<noteq> 0" "vy step \<noteq> 0" "vz step \<noteq> 0"
    and "annotate t u = annotate t v"
  shows "u = v"
  using assms by (cases u; cases v) (simp add: annotate_affine affine_def)

end

definition intersection_lattice :: "dvec3 \<Rightarrow> dvec3 \<Rightarrow> DoubleCoordinateTransformer \<Rightarrow> bool" where
  "intersection_lattice orig step t \<longleftrightarrow> (\<exists>orig_a. survey_transformer orig_a step (m_transformer_a t) \<and>
     orig = affine orig_a step (m_intersection_zero_as_cube_a_index t))"

fun cube_lattice :: "dvec3 \<Rightarrow> dvec3 \<Rightarrow> CoordinateTransformer \<Rightarrow> bool" where
  "cube_lattice orig step (SingleTransformer t) = survey_transformer orig step t"
| "cube_lattice orig step (DoubleTransformer t) = intersection_lattice orig step t"

interpretation survey: lattice_transformer survey_transformer single_IJKIndexToAnnotation
  by unfold_locales (simp add: survey_transformer_def)

interpretation intersection: lattice_transformer intersection_lattice double_IJKIndexToAnnotation
  by unfold_locales
    (auto simp: intersection_lattice_def double_IJKIndexToAnnotation_def as_cube_a_ijk_index_def
      survey.annotate_affine affine_shift)

interpretation cube: lattice_transformer cube_lattice IJKIndexToAnnotation
proof unfold_locales
  fix orig step t v
  assume "cube_lattice orig step t"
  then show "IJKIndexToAnnotation t v = affine orig step v"
    by (cases t) (simp_all add: survey.annotate_affine intersection.annotate_affine)
qed

section \<open>Properties\<close>

text \<open>C21: Two cubes on one lattice are read at the same place. For every index of the
  intersection, the index of cube a and the index of cube b that the shifts of
  \<^verbatim>\<open>DoubleCoordinateTransformer\<close> give carry the same annotation, which is the annotation the
  intersection itself reports; the shifts are not negative, and in every direction the
  intersection starts at the first line of one of the two cubes.\<close>

theorem intersection_aligned:
  assumes "survey_transformer orig_a step ta" and "survey_transformer orig_b step tb"
    and "same_lattice orig_a orig_b step d" and "make_DoubleCoordinateTransformer ta tb = Inr t"
  shows "single_IJKIndexToAnnotation ta (vadd (+) ijk (m_intersection_zero_as_cube_a_index t)) =
           single_IJKIndexToAnnotation tb (vadd (+) ijk (m_intersection_zero_as_cube_b_index t)) \<and>
         double_IJKIndexToAnnotation t ijk =
           single_IJKIndexToAnnotation ta (vadd (+) ijk (m_intersection_zero_as_cube_a_index t)) \<and>
         (i < 3 \<longrightarrow> min (vnth (m_intersection_zero_as_cube_a_index t) i)
                       (vnth (m_intersection_zero_as_cube_b_index t) i) = 0)"
proof -
  note shifts = make_double_transformer_shifts[OF assms]
  have ob: "orig_b = affine orig_a step d" using assms(3) by (simp add: same_lattice_def)
  have "single_IJKIndexToAnnotation ta (vadd (+) ijk (vpos d)) =
      single_IJKIndexToAnnotation tb (vadd (+) ijk (vneg_part d))"
    by (simp add: survey.annotate_affine[OF assms(1)] survey.annotate_affine[OF assms(2)] ob affine_shift
        vpos_decompose vadd_comm_group)
  moreover have "min (vnth (vpos d) i) (vnth (vneg_part d) i) = 0"
    by (cases d) (simp add: vpos_def vneg_part_def vnth_def)
  ultimately show ?thesis
    by (simp add: shifts double_IJKIndexToAnnotation_def as_cube_a_ijk_index_def)
qed

theorem intersection_aligned_witness:
  "let step = Vec3 2 1 4; ta = \<lparr>coordinate_transformer = example_ijk (Vec3 1 10 4) step\<rparr>;
       tb = \<lparr>coordinate_transformer = example_ijk (Vec3 3 9 8) step\<rparr>;
       t = \<lparr>m_transformer_a = ta, m_intersection_zero_as_cube_a_index = Vec3 1 0 1,
            m_intersection_zero_as_cube_b_index = Vec3 0 1 0\<rparr>
   in make_DoubleCoordinateTransformer ta tb = Inr t \<and>
      single_IJKIndexToAnnotation ta (Vec3 5 4 3) = single_IJKIndexToAnnotation tb (Vec3 4 5 2) \<and>
      min (vnth (Vec3 1 0 1) 1) (vnth (Vec3 0 1 0) 1) = (0 :: int)"
proof -
  define step where "step = Vec3 2 1 (4 :: real)"
  define ta where "ta = \<lparr>coordinate_transformer = example_ijk (Vec3 1 10 4) step\<rparr>"
  define tb where "tb = \<lparr>coordinate_transformer = example_ijk (Vec3 3 9 8) step\<rparr>"
  define t where "t = \<lparr>m_transformer_a = ta, m_intersection_zero_as_cube_a_index = Vec3 1 0 1,
            m_intersection_zero_as_cube_b_index = Vec3 0 1 0\<rparr>"
  have sa: "survey_transformer (Vec3 1 10 4) step ta" and sb: "survey_transformer (Vec3 3 9 8) step tb"
    unfolding ta_def tb_def by (rule example_survey; simp add: step_def)+
  have lat: "same_lattice (Vec3 1 10 4) (Vec3 3 9 8) step (Vec3 1 (- 1) 1)"
    by (simp add: same_lattice_def affine_def step_def)
  have mk: "make_DoubleCoordinateTransformer ta tb = Inr t"
    by (simp add: make_DoubleCoordinateTransformer_def single_transformer_defs example_ijk_def affine_def
        ta_def tb_def t_def step_def)
  show ?thesis
    using intersection_aligned[OF sa sb lat mk, of "Vec3 4 4 2" 1] mk
    by (simp add: t_def flip: step_def ta_def tb_def)
qed

text \<open>The bounding box of a cube with whole line numbers, single or intersection, is in
  annotation coordinates the four corners of its first and last lines, counter-clockwise
  from the first inline and first crossline.\<close>

theorem bbox_annotation_corners:
  assumes "cube_lattice (Vec3 (of_int il0) (of_int xl0) z) (Vec3 (of_int il_step) (of_int xl_step) dz)
             (m_transformer b)"
  shows "bbox_annotation b =
    [(il0, xl0), (il0 + il_step * (m_nilines b - 1), xl0),
     (il0 + il_step * (m_nilines b - 1), xl0 + xl_step * (m_nxlines b - 1)),
     (il0, xl0 + xl_step * (m_nxlines b - 1))]"
proof -
  have "trunc (vnth (IJKIndexToAnnotation (m_transformer b) (Vec3 i j 0)) 0) = il0 + il_step * i \<and>
        trunc (vnth (IJKIndexToAnnotation (m_transformer b) (Vec3 i j 0)) 1) = xl0 + xl_step * j" for i j
    unfolding cube.annotate_corner[OF assms] vec3.sel
    by (simp only: of_int_add[symmetric] of_int_mult[symmetric] trunc_of_int)
  then show ?thesis by (simp add: bbox_annotation_def bbox_index_def Let_def)
qed

theorem bbox_annotation_corners_witness:
  "bbox_annotation \<lparr>m_nilines = 3, m_nxlines = 2, m_transformer = SingleTransformer
     \<lparr>coordinate_transformer = example_ijk (Vec3 1 10 4) (Vec3 2 1 4)\<rparr>\<rparr>
   = [(1, 10), (5, 10), (5, 11), (1, 11)]"
proof -
  have "survey_transformer (Vec3 (of_int 1) (of_int 10) 4) (Vec3 (of_int 2) (of_int 1) 4)
      \<lparr>coordinate_transformer = example_ijk (Vec3 1 10 4) (Vec3 2 1 4)\<rparr>"
    using example_survey[of "Vec3 2 1 4" "Vec3 1 10 4"] by simp
  then show ?thesis
    using bbox_annotation_corners[of 1 10 4 2 1 4 "\<lparr>m_nilines = 3, m_nxlines = 2, m_transformer = SingleTransformer
     \<lparr>coordinate_transformer = example_ijk (Vec3 1 10 4) (Vec3 2 1 4)\<rparr>\<rparr>"] by simp
qed

end
