(* ===== verification/Metadata.thy ===== *)
theory Metadata
  imports Transformers
begin

text \<open>
  The metadata handles (\<^verbatim>\<open>metadatahandle.hpp\<close>, \<^verbatim>\<open>metadatahandle.cpp\<close>): how the axes of
  a single VDS and of the intersection of two VDS files are built and validated, and the
  queries on them. Every check of the two \<^verbatim>\<open>create\<close> functions is a branch, with its
  exception type and message.
\<close>

section \<open>State\<close>

record SingleMetadataHandle =
  sm_axes_map :: "AxisType \<rightharpoonup> Axis"
  sm_layout :: vds_layout
  sm_coordinate_transformer :: SingleCoordinateTransformer

record DoubleMetadataHandle =
  dm_axes_map :: "AxisType \<rightharpoonup> Axis"
  dm_metadata_a :: SingleMetadataHandle
  dm_metadata_b :: SingleMetadataHandle
  dm_binary_symbol :: binary_operator
  dm_coordinate_transformer :: DoubleCoordinateTransformer

text \<open>A reference to the abstract class \<^verbatim>\<open>MetadataHandle\<close> is one of the two.\<close>

datatype MetadataHandle =
    SingleMetadata SingleMetadataHandle
  | DoubleMetadata DoubleMetadataHandle

fun m_axes_map :: "MetadataHandle \<Rightarrow> AxisType \<rightharpoonup> Axis" where
  "m_axes_map (SingleMetadata m) = sm_axes_map m"
| "m_axes_map (DoubleMetadata m) = dm_axes_map m"

section \<open>Queries on the axes\<close>

text \<open>
  \<^verbatim>\<open>unordered_map::at\<close> throws on a missing key, in functions declared \<^verbatim>\<open>noexcept\<close>. Every
  handle that \<^verbatim>\<open>create\<close> returns has all three axes (\<open>wf_axes\<close> below).
\<close>

definition iline :: "MetadataHandle \<Rightarrow> Axis" where
  "iline m = the (m_axes_map m AxisType_ILINE)"

definition xline :: "MetadataHandle \<Rightarrow> Axis" where
  "xline m = the (m_axes_map m AxisType_XLINE)"

definition sample :: "MetadataHandle \<Rightarrow> Axis" where
  "sample m = the (m_axes_map m AxisType_SAMPLE)"

definition map_at :: "(AxisType \<rightharpoonup> Axis) \<Rightarrow> AxisType \<Rightarrow> Axis result" where
  "map_at m t = (case m t of None \<Rightarrow> Inl (std_exception ''_Map_base::at'') | Some a \<Rightarrow> Inr a)"

definition get_axis :: "MetadataHandle \<Rightarrow> Direction \<Rightarrow> Axis result" where
  "get_axis m direction = rbind (direction_axis_type direction) (map_at (m_axes_map m))"

section \<open>Validation\<close>

definition validate_dimensionality :: "int \<Rightarrow> unit result" where
  "validate_dimensionality dimensionality =
     guard (dimensionality = 3)
       (std_exception (''Unsupported VDS, expected 3 dimensions, got '' @ to_string dimensionality))"

definition axis_name_to_axis_type :: "vds_names \<Rightarrow> string \<Rightarrow> AxisType result" where
  "axis_name_to_axis_type n nm =
     (if nm = Names_Inline n then Inr AxisType_ILINE
      else if nm = Names_Crossline n then Inr AxisType_XLINE
      else if nm = Names_Depth n \<or> nm = Names_Time n \<or> nm = Names_Sample n then Inr AxisType_SAMPLE
      else Inl (std_exception ''Unhandled axis name''))"

definition validate_direction_uniqueness :: "(AxisType \<rightharpoonup> Axis) \<Rightarrow> AxisType \<Rightarrow> unit result" where
  "validate_direction_uniqueness axes_map axis_type =
     guard (axes_map axis_type = None)
       (std_exception (''Bad metadata: two axes describe the same axis type '' @ axis_type_to_string axis_type))"

definition validate_minimal_nsamples :: "Axis \<Rightarrow> unit result" where
  "validate_minimal_nsamples a =
     guard (\<not> m_nsamples a < 2)
       (bad_request (''Unsupported layout, expect at least two values in axis '' @ m_name a @ '', got '' @
          to_string (m_nsamples a)))"

definition validate_positive_stepsize :: "Axis \<Rightarrow> unit result" where
  "validate_positive_stepsize a =
     guard (\<not> axis_stepsize a \<le> 0)
       (bad_request (''Unsupported layout, expecting positive stepsize in axis '' @ m_name a @
          '', got max ('' @ to_string_with_precision (m_max a) 2 @
          '') <= min ('' @ to_string_with_precision (m_min a) 2 @ '')''))"

section \<open>SingleMetadataHandle\<close>

definition make_single_cube_axis :: "vds_layout \<Rightarrow> nat \<Rightarrow> Axis" where
  "make_single_cube_axis layout dimension =
     (let d = GetAxisDescriptor layout dimension in
      make_Axis (ad_coordinate_min d) (ad_coordinate_max d) (ad_num_samples d) (ad_name d) (ad_unit d) dimension)"

text \<open>The body of the loop over the dimensions in \<^verbatim>\<open>SingleMetadataHandle::create\<close>.\<close>

definition single_axis_step :: "openvds \<Rightarrow> vds_layout \<Rightarrow> nat \<Rightarrow> (AxisType \<rightharpoonup> Axis) \<Rightarrow> (AxisType \<rightharpoonup> Axis) result" where
  "single_axis_step v layout dimension axes_map =
     rbind (axis_name_to_axis_type (known_names v) (GetDimensionName layout dimension)) (\<lambda>axis_type.
     rbind (validate_direction_uniqueness axes_map axis_type) (\<lambda>_.
     let a = make_single_cube_axis layout dimension in
     rbind (validate_minimal_nsamples a) (\<lambda>_.
     rbind (validate_positive_stepsize a) (\<lambda>_.
     Inr (axes_map(axis_type \<mapsto> a))))))"

definition single_create :: "openvds \<Rightarrow> vds_layout \<Rightarrow> SingleMetadataHandle result" where
  "single_create v layout =
     rbind (validate_dimensionality (GetDimensionality layout)) (\<lambda>_.
     rbind (rfold (single_axis_step v layout) [0..<nat (GetDimensionality layout)] Map.empty) (\<lambda>axes_map.
     Inr \<lparr>sm_axes_map = axes_map, sm_layout = layout,
          sm_coordinate_transformer = \<lparr>coordinate_transformer = make_ijk_transformer v layout\<rparr>\<rparr>))"

definition single_crs :: "SingleMetadataHandle \<Rightarrow> string result" where
  "single_crs m = SurveyCoordinateSystemCRSWkt (sm_layout m)"

definition single_input_filename :: "SingleMetadataHandle \<Rightarrow> string result" where
  "single_input_filename m = ImportInformationInputFileName (sm_layout m)"

definition single_import_time_stamp :: "SingleMetadataHandle \<Rightarrow> string result" where
  "single_import_time_stamp m = ImportInformationImportTimeStamp (sm_layout m)"

section \<open>DoubleMetadataHandle\<close>

text \<open>
  The intersection of two axes. \<^verbatim>\<open>(int)axis_a.stepsize()\<close> drops the fraction of the step;
  a step below one becomes zero, the division is then not finite, and the conversion of
  the sample count to \<^verbatim>\<open>int\<close> is undefined.
\<close>

definition make_double_cube_axis :: "Axis \<Rightarrow> Axis \<Rightarrow> nat \<Rightarrow> Axis result" where
  "make_double_cube_axis axis_a axis_b dimension =
     (if m_name axis_a \<noteq> m_name axis_b then
        Inl (bad_request (''Dimension name mismatch for dimension '' @ to_string (int dimension) @ '': '' @
          m_name axis_a @ '' versus '' @ m_name axis_b))
      else if m_unit axis_a \<noteq> m_unit axis_b then
        Inl (bad_request (''Dimension unit mismatch for axis '' @ m_name axis_a @ '': '' @
          m_unit axis_a @ '' versus '' @ m_unit axis_b))
      else if axis_stepsize axis_a \<noteq> axis_stepsize axis_b then
        Inl (bad_request (''Stepsize mismatch in axis '' @ m_name axis_a @ '': '' @
          to_string_with_precision (axis_stepsize axis_a) 2 @ '' versus '' @
          to_string_with_precision (axis_stepsize axis_b) 2))
      else
        let offset = f32 (f32 (m_min axis_b - m_min axis_a) / axis_stepsize axis_a) in
        if of_int \<lfloor>offset\<rfloor> \<noteq> offset then
          Inl (bad_request (''Cubes contain no shared line numbers in axis '' @ m_name axis_a))
        else
          let mn = max (m_min axis_a) (m_min axis_b);
              mx = min (m_max axis_a) (m_max axis_b);
              divisor = trunc (axis_stepsize axis_a)
          in if divisor = 0 then
               Inl (undefined_behaviour ''float to int conversion of a non-finite value'')
             else
               let nsamples = f32 (1 + f32 (f32 (mx - mn) / f32 (of_int divisor)))
               in Inr (make_Axis mn mx (trunc nsamples) (m_name axis_a) (m_unit axis_a) dimension))"

definition show_dvec2 :: "dvec2 \<Rightarrow> string" where
  "show_dvec2 p = ''('' @ to_string_with_precision (fst p) 2 @ '', '' @ to_string_with_precision (snd p) 2 @ '')''"

text \<open>The comparisons of the survey metadata of the two layouts.\<close>

definition check_same_survey :: "vds_layout \<Rightarrow> vds_layout \<Rightarrow> unit result" where
  "check_same_survey layout_a layout_b =
     rbind (SurveyCoordinateSystemCRSWkt layout_a) (\<lambda>crs_a.
     rbind (SurveyCoordinateSystemCRSWkt layout_b) (\<lambda>crs_b.
     rbind (guard (crs_a = crs_b)
       (bad_request (''Coordinate reference system (CRS) mismatch: '' @ crs_a @ '' versus '' @ crs_b))) (\<lambda>_.
     rbind (SurveyCoordinateSystemOrigin layout_a) (\<lambda>origin_a.
     rbind (SurveyCoordinateSystemOrigin layout_b) (\<lambda>origin_b.
     rbind (guard (origin_a = origin_b)
       (bad_request (''Mismatch in origin position: '' @ show_dvec2 origin_a @ '' versus '' @ show_dvec2 origin_b))) (\<lambda>_.
     rbind (SurveyCoordinateSystemInlineSpacing layout_a) (\<lambda>il_a.
     rbind (SurveyCoordinateSystemInlineSpacing layout_b) (\<lambda>il_b.
     rbind (guard (il_a = il_b)
       (bad_request (''Mismatch in inline spacing: '' @ show_dvec2 il_a @ '' versus '' @ show_dvec2 il_b))) (\<lambda>_.
     rbind (SurveyCoordinateSystemCrosslineSpacing layout_a) (\<lambda>xl_a.
     rbind (SurveyCoordinateSystemCrosslineSpacing layout_b) (\<lambda>xl_b.
     guard (xl_a = xl_b)
       (bad_request (''Mismatch in xline spacing: '' @ show_dvec2 xl_a @ '' versus '' @ show_dvec2 xl_b)))))))))))))"

text \<open>The body of the loop over the dimensions in \<^verbatim>\<open>DoubleMetadataHandle::create\<close>.\<close>

definition double_axis_step ::
  "openvds \<Rightarrow> SingleMetadataHandle \<Rightarrow> SingleMetadataHandle \<Rightarrow> nat \<Rightarrow> (AxisType \<rightharpoonup> Axis) \<Rightarrow> (AxisType \<rightharpoonup> Axis) result" where
  "double_axis_step v metadata_a metadata_b dimension axes_map =
     (let name_a = GetDimensionName (sm_layout metadata_a) dimension;
          name_b = GetDimensionName (sm_layout metadata_b) dimension in
     rbind (guard (name_a = name_b)
       (bad_request (''Expected layouts to contain the same axes in the same order. Got mismatch for dimension '' @
          to_string (int dimension) @ '': '' @ name_a @ '' versus '' @ name_b))) (\<lambda>_.
     rbind (axis_name_to_axis_type (known_names v) name_a) (\<lambda>axis_type.
     rbind (validate_direction_uniqueness axes_map axis_type) (\<lambda>_.
     rbind (map_at (sm_axes_map metadata_a) axis_type) (\<lambda>axis_a.
     rbind (map_at (sm_axes_map metadata_b) axis_type) (\<lambda>axis_b.
     rbind (make_double_cube_axis axis_a axis_b dimension) (\<lambda>a.
     rbind (validate_minimal_nsamples a) (\<lambda>_.
     rbind (validate_positive_stepsize a) (\<lambda>_.
     Inr (axes_map(axis_type \<mapsto> a)))))))))))"

definition double_create ::
  "openvds \<Rightarrow> SingleMetadataHandle \<Rightarrow> SingleMetadataHandle \<Rightarrow> binary_operator \<Rightarrow> DoubleMetadataHandle result" where
  "double_create v metadata_a metadata_b binary_symbol =
     (let layout_a = sm_layout metadata_a; layout_b = sm_layout metadata_b in
     rbind (guard (GetDimensionality layout_a = GetDimensionality layout_b)
       (bad_request ''Different number of dimensions'')) (\<lambda>_.
     rbind (validate_dimensionality (GetDimensionality layout_a)) (\<lambda>_.
     rbind (check_same_survey layout_a layout_b) (\<lambda>_.
     rbind (rfold (double_axis_step v metadata_a metadata_b) [0..<3] Map.empty) (\<lambda>axes_map.
     rbind (make_DoubleCoordinateTransformer (sm_coordinate_transformer metadata_a)
              (sm_coordinate_transformer metadata_b)) (\<lambda>t.
     Inr \<lparr>dm_axes_map = axes_map, dm_metadata_a = metadata_a, dm_metadata_b = metadata_b,
          dm_binary_symbol = binary_symbol, dm_coordinate_transformer = t\<rparr>))))))"

definition operator_string :: "DoubleMetadataHandle \<Rightarrow> string" where
  "operator_string m = (case dm_binary_symbol m of
       NO_OPERATOR \<Rightarrow> '' ? ''
     | ADDITION \<Rightarrow> '' + ''
     | SUBTRACTION \<Rightarrow> '' - ''
     | MULTIPLICATION \<Rightarrow> '' * ''
     | DIVISION \<Rightarrow> '' / ''
     | INVALID_OPERATOR \<Rightarrow> '' XX ''
     | other_binary_operator _ \<Rightarrow> '' XX '')"

definition double_crs :: "DoubleMetadataHandle \<Rightarrow> string result" where
  "double_crs m = single_crs (dm_metadata_a m)"

definition double_input_filename :: "DoubleMetadataHandle \<Rightarrow> string result" where
  "double_input_filename m =
     rbind (single_input_filename (dm_metadata_a m)) (\<lambda>a.
     rbind (single_input_filename (dm_metadata_b m)) (\<lambda>b. Inr (a @ operator_string m @ b)))"

definition double_import_time_stamp :: "DoubleMetadataHandle \<Rightarrow> string result" where
  "double_import_time_stamp m =
     rbind (single_import_time_stamp (dm_metadata_a m)) (\<lambda>a.
     rbind (single_import_time_stamp (dm_metadata_b m)) (\<lambda>b. Inr (a @ operator_string m @ b)))"

section \<open>The virtual functions of MetadataHandle\<close>

fun crs :: "MetadataHandle \<Rightarrow> string result" where
  "crs (SingleMetadata m) = single_crs m"
| "crs (DoubleMetadata m) = double_crs m"

fun input_filename :: "MetadataHandle \<Rightarrow> string result" where
  "input_filename (SingleMetadata m) = single_input_filename m"
| "input_filename (DoubleMetadata m) = double_input_filename m"

fun import_time_stamp :: "MetadataHandle \<Rightarrow> string result" where
  "import_time_stamp (SingleMetadata m) = single_import_time_stamp m"
| "import_time_stamp (DoubleMetadata m) = double_import_time_stamp m"

fun metadata_transformer :: "MetadataHandle \<Rightarrow> CoordinateTransformer" where
  "metadata_transformer (SingleMetadata m) = SingleTransformer (sm_coordinate_transformer m)"
| "metadata_transformer (DoubleMetadata m) = DoubleTransformer (dm_coordinate_transformer m)"

definition bounding_box :: "MetadataHandle \<Rightarrow> BoundingBox" where
  "bounding_box m = \<lparr>m_nilines = m_nsamples (iline m), m_nxlines = m_nsamples (xline m),
     m_transformer = metadata_transformer m\<rparr>"

section \<open>The invariant\<close>

text \<open>
  All three axes are present, each is well formed, and they describe the three dimensions
  of the volume, one each.
\<close>

definition wf_axes :: "(AxisType \<rightharpoonup> Axis) \<Rightarrow> bool" where
  "wf_axes m \<longleftrightarrow> (case (m AxisType_ILINE, m AxisType_XLINE, m AxisType_SAMPLE) of
     (Some il, Some xl, Some s) \<Rightarrow> wf_axis il \<and> wf_axis xl \<and> wf_axis s \<and>
        distinct [m_dimension il, m_dimension xl, m_dimension s] \<and>
        m_dimension il < 3 \<and> m_dimension xl < 3 \<and> m_dimension s < 3
   | _ \<Rightarrow> False)"

definition wf_metadata :: "MetadataHandle \<Rightarrow> bool" where
  "wf_metadata m \<longleftrightarrow> wf_axes (m_axes_map m)"

section \<open>A concrete handle\<close>

text \<open>What \<^verbatim>\<open>create\<close> returns for the example layout, and for its intersection with itself.\<close>

definition example_axes :: "AxisType \<rightharpoonup> Axis" where
  "example_axes = [AxisType_SAMPLE \<mapsto> make_Axis 4 16 4 ''Sample'' ''ms'' 0,
     AxisType_XLINE \<mapsto> make_Axis 10 11 2 ''Crossline'' ''unitless'' 1,
     AxisType_ILINE \<mapsto> make_Axis 1 5 3 ''Inline'' ''unitless'' 2]"

definition example_single :: SingleMetadataHandle where
  "example_single = \<lparr>sm_axes_map = example_axes, sm_layout = example_layout,
     sm_coordinate_transformer = \<lparr>coordinate_transformer = example_ijk (Vec3 1 10 4) (Vec3 2 1 4)\<rparr>\<rparr>"

definition example_double :: "binary_operator \<Rightarrow> DoubleMetadataHandle" where
  "example_double b = \<lparr>dm_axes_map = example_axes, dm_metadata_a = example_single, dm_metadata_b = example_single,
     dm_binary_symbol = b, dm_coordinate_transformer =
       \<lparr>m_transformer_a = sm_coordinate_transformer example_single,
        m_intersection_zero_as_cube_a_index = Vec3 0 0 0, m_intersection_zero_as_cube_b_index = Vec3 0 0 0\<rparr>\<rparr>"

section \<open>Lemmas\<close>

lemma wf_axes_cases:
  assumes "wf_axes m"
  obtains il xl s where "m = [AxisType_ILINE \<mapsto> il, AxisType_XLINE \<mapsto> xl, AxisType_SAMPLE \<mapsto> s]"
    and "wf_axis il" "wf_axis xl" "wf_axis s"
    and "distinct [m_dimension il, m_dimension xl, m_dimension s]"
    and "m_dimension il < 3" "m_dimension xl < 3" "m_dimension s < 3"
proof -
  from assms obtain il xl s where
    m: "m AxisType_ILINE = Some il" "m AxisType_XLINE = Some xl" "m AxisType_SAMPLE = Some s"
    and "wf_axis il" "wf_axis xl" "wf_axis s"
    and "distinct [m_dimension il, m_dimension xl, m_dimension s]"
    and "m_dimension il < 3" "m_dimension xl < 3" "m_dimension s < 3"
    by (auto simp: wf_axes_def split: option.splits)
  moreover have "m t = [AxisType_ILINE \<mapsto> il, AxisType_XLINE \<mapsto> xl, AxisType_SAMPLE \<mapsto> s] t" for t
    using m by (cases t) simp_all
  ultimately show ?thesis using that by blast
qed

lemma wf_metadata_axes:
  assumes "wf_metadata m"
  shows "wf_axis (iline m)" "wf_axis (xline m)" "wf_axis (sample m)"
    and "distinct [m_dimension (iline m), m_dimension (xline m), m_dimension (sample m)]"
    and "m_dimension (iline m) < 3" "m_dimension (xline m) < 3" "m_dimension (sample m) < 3"
  using assms by (auto simp: wf_metadata_def iline_def xline_def sample_def elim: wf_axes_cases)

text \<open>Looking an axis up never fails for a known direction.\<close>

lemma get_axis_wf:
  assumes "wf_metadata m" and "direction_axis_type d = Inr t"
  obtains a where "get_axis m d = Inr a" and "m_axes_map m t = Some a" and "wf_axis a"
    and "m_dimension a < 3"
    and "a = (case t of AxisType_ILINE \<Rightarrow> iline m | AxisType_XLINE \<Rightarrow> xline m | AxisType_SAMPLE \<Rightarrow> sample m)"
  using assms
  by (cases t) (auto simp: wf_metadata_def get_axis_def map_at_def iline_def xline_def sample_def elim: wf_axes_cases)

text \<open>
  The loops of the two \<^verbatim>\<open>create\<close> functions have one contract: a step for dimension \<open>d\<close>
  adds one new, well-formed axis with that dimension. Three successful steps then give
  every axis type.
\<close>

locale axis_loop =
  fixes step :: "nat \<Rightarrow> (AxisType \<rightharpoonup> Axis) \<Rightarrow> (AxisType \<rightharpoonup> Axis) result"
  assumes adds_axis: "step d m = Inr m' \<Longrightarrow>
    \<exists>t a. m t = None \<and> m' = m(t \<mapsto> a) \<and> wf_axis a \<and> m_dimension a = d"
begin

lemma three_steps:
  assumes "rfold step [0..<3] Map.empty = Inr m"
  shows "wf_axes m"
proof -
  have upt: "[0..<3] = [0, 1, 2::nat]" by (simp add: upt_rec)
  obtain m1 m2 where s: "step 0 Map.empty = Inr m1" "step 1 m1 = Inr m2" "step 2 m2 = Inr m"
    using assms unfolding upt by auto
  obtain t0 a0 where 0: "m1 = [t0 \<mapsto> a0]" "wf_axis a0" "m_dimension a0 = 0"
    using adds_axis[OF s(1)] by blast
  obtain t1 a1 where 1: "t1 \<noteq> t0" "m2 = [t0 \<mapsto> a0, t1 \<mapsto> a1]" "wf_axis a1" "m_dimension a1 = 1"
    using adds_axis[OF s(2)] 0 by (auto split: if_splits)
  obtain t2 a2 where 2: "t2 \<noteq> t0" "t2 \<noteq> t1" "m = [t0 \<mapsto> a0, t1 \<mapsto> a1, t2 \<mapsto> a2]"
    "wf_axis a2" "m_dimension a2 = 2"
    using adds_axis[OF s(3)] 1 by (auto split: if_splits)
  show ?thesis
    using 0 1 2 by (cases t0; cases t1; cases t2) (simp_all add: wf_axes_def)
qed

end

lemma validated_axis:
  assumes "validate_minimal_nsamples a = Inr u" and "validate_positive_stepsize a = Inr w"
  shows "wf_axis a"
  using assms by (simp add: validate_minimal_nsamples_def validate_positive_stepsize_def wf_axis_def)

lemma make_double_cube_axis_dimension:
  "make_double_cube_axis a b d = Inr c \<Longrightarrow> m_dimension c = d"
  by (auto simp: make_double_cube_axis_def Let_def split: if_splits)

lemma added_axisI:
  assumes "m t = None" and "wf_axis a" and "m_dimension a = d"
  shows "\<exists>t'. m t' = None \<and> (\<exists>a'. m(t \<mapsto> a) = m(t' \<mapsto> a') \<and> wf_axis a' \<and> m_dimension a' = d)"
  using assms by blast

interpretation single_axes: axis_loop "single_axis_step v layout" for v layout
  by unfold_locales
    (auto simp: single_axis_step_def Let_def validate_direction_uniqueness_def make_single_cube_axis_def
      intro!: added_axisI validated_axis)

interpretation double_axes: axis_loop "double_axis_step v ma mb" for v ma mb
  by unfold_locales
    (auto simp: double_axis_step_def Let_def validate_direction_uniqueness_def
      intro!: added_axisI validated_axis make_double_cube_axis_dimension)

lemma single_create_wf:
  assumes "single_create v layout = Inr m"
  shows "wf_axes (sm_axes_map m)"
proof -
  have "GetDimensionality layout = 3"
    using assms by (auto simp: single_create_def validate_dimensionality_def)
  moreover have "rfold (single_axis_step v layout) [0..<nat (GetDimensionality layout)] Map.empty = Inr (sm_axes_map m)"
    using assms by (auto simp: single_create_def)
  ultimately show ?thesis using single_axes.three_steps by simp
qed

lemma double_create_wf:
  assumes "double_create v ma mb op = Inr m"
  shows "wf_axes (dm_axes_map m)"
  by (rule double_axes.three_steps[of v ma mb]) (use assms in \<open>auto simp: double_create_def Let_def\<close>)

lemma single_axis_step_eq:
  "single_axis_step v layout d m = Inr m' \<longleftrightarrow>
     (\<exists>t. axis_name_to_axis_type (known_names v) (GetDimensionName layout d) = Inr t \<and> m t = None \<and>
        wf_axis (make_single_cube_axis layout d) \<and> m' = m(t \<mapsto> make_single_cube_axis layout d))"
  by (auto simp: single_axis_step_def Let_def validate_direction_uniqueness_def
      validate_minimal_nsamples_def validate_positive_stepsize_def wf_axis_def result_simps)

lemma wf_single_cube_axis:
  "wf_axis (make_single_cube_axis layout d) \<longleftrightarrow>
     2 \<le> ad_num_samples (GetAxisDescriptor layout d) \<and>
     ad_coordinate_min (GetAxisDescriptor layout d) < ad_coordinate_max (GetAxisDescriptor layout d)"
  by (simp add: wf_axis_iff make_single_cube_axis_def Let_def)

lemma single_loop_eq:
  "rfold (single_axis_step v layout) [0..<3] Map.empty = Inr m \<longleftrightarrow>
     (\<exists>t0 t1 t2. list_all2 (\<lambda>d t. axis_name_to_axis_type (known_names v) (GetDimensionName layout d) = Inr t)
          [0, 1, 2] [t0, t1, t2] \<and> distinct [t0, t1, t2] \<and>
        list_all (\<lambda>d. wf_axis (make_single_cube_axis layout d)) [0, 1, 2] \<and>
        m = [t0 \<mapsto> make_single_cube_axis layout 0, t1 \<mapsto> make_single_cube_axis layout 1,
             t2 \<mapsto> make_single_cube_axis layout 2])"
proof -
  have upt: "[0..<3] = [0, 1, 2::nat]" by (simp add: upt_rec)
  show ?thesis
    unfolding upt by (auto simp: result_simps single_axis_step_eq split: if_splits)
qed

text \<open>A quotient of whole numbers within the exact range rounds to a whole number only when
  it is one.\<close>

lemma f32_quotient_whole:
  assumes "0 < s" and "\<bar>d\<bar> < 2 ^ 24"
  shows "f32 (of_int d / of_int s) = of_int \<lfloor>f32 (of_int d / of_int s)\<rfloor> \<longleftrightarrow> s dvd d"
proof
  assume "s dvd d"
  then obtain k where d: "d = s * k" by blast
  have "\<bar>k\<bar> \<le> \<bar>d\<bar>" using assms(1) by (simp add: d abs_mult mult_le_cancel_right1)
  then have "f32 (of_int k) = of_int k" using assms(2) by (intro single.of_int) simp
  then show "f32 (of_int d / of_int s) = of_int \<lfloor>f32 (of_int d / of_int s)\<rfloor>"
    using assms(1) by (simp add: d)
next
  define q where "q = real_of_int d / of_int s"
  assume "f32 (of_int d / of_int s) = of_int \<lfloor>f32 (of_int d / of_int s)\<rfloor>"
  then obtain k where k: "f32 q = of_int k" unfolding q_def by blast
  have "\<bar>of_int k - q\<bar> \<le> \<bar>q\<bar> / 2 ^ 24" using single.error[of q] k by simp
  then have "\<bar>of_int k - q\<bar> * of_int s \<le> \<bar>q\<bar> / 2 ^ 24 * of_int s"
    using assms(1) by (intro mult_right_mono) simp_all
  moreover have "\<bar>of_int k - q\<bar> * of_int s = of_int \<bar>k * s - d\<bar>"
  proof -
    have "(of_int k - q) * of_int s = of_int (k * s - d)" using assms(1) by (simp add: q_def left_diff_distrib)
    then have "\<bar>(of_int k - q) * of_int s\<bar> = of_int \<bar>k * s - d\<bar>" by simp
    then show ?thesis using assms(1) by (simp add: abs_mult)
  qed
  moreover have "\<bar>q\<bar> / 2 ^ 24 * of_int s = of_int \<bar>d\<bar> / 2 ^ 24" using assms(1) by (simp add: q_def abs_divide)
  moreover have "real_of_int \<bar>d\<bar> / 2 ^ 24 < 1" using assms(2) by simp
  ultimately have "\<bar>k * s - d\<bar> < 1" by linarith
  then show "s dvd d" by auto
qed

text \<open>The sample count of the intersection, in the arithmetic of the code.\<close>

lemma common_lines_count:
  assumes a: "whole_axis lo_a s axis_a" and b: "whole_axis lo_b s axis_b" and dvd: "s dvd lo_b - lo_a"
  defines "mn \<equiv> max lo_a lo_b"
    and "mx \<equiv> min (lo_a + s * (m_nsamples axis_a - 1)) (lo_b + s * (m_nsamples axis_b - 1))"
  shows "f32 (1 + f32 (f32 (of_int mx - of_int mn) / f32 (of_int (trunc (of_int s))))) = of_int (1 + (mx - mn) div s)"
proof -
  have s: "0 < s" using a by (simp add: whole_axis_def)
  have diff: "\<bar>min u v - max x y\<bar> \<le> 2 ^ 23"
    if "\<bar>u\<bar> \<le> 2 ^ 22" "\<bar>v\<bar> \<le> 2 ^ 22" "\<bar>x\<bar> \<le> 2 ^ 22" "\<bar>y\<bar> \<le> 2 ^ 22" for u v x y :: int
    using that by (auto simp: min_def max_def)
  have rng: "\<bar>mx - mn\<bar> \<le> 2 ^ 23"
    unfolding mx_def mn_def using a b unfolding whole_axis_def by (intro diff) blast+
  have "s dvd mx - mn"
  proof -
    obtain k where "lo_b = lo_a + s * k" using dvd by (metis add_diff_cancel_left' add_diff_eq dvdE)
    then have "s dvd mx - lo_a" "s dvd mn - lo_a" by (auto simp: mx_def mn_def min_def max_def)
    then have "s dvd (mx - lo_a) - (mn - lo_a)" by (rule dvd_diff)
    then show ?thesis by simp
  qed
  then obtain q where q: "mx - mn = s * q" by blast
  have "\<bar>q\<bar> \<le> \<bar>mx - mn\<bar>" using s by (simp add: q abs_mult mult_le_cancel_right1)
  then have qb: "\<bar>q\<bar> \<le> 2 ^ 23" using rng by simp
  have "s \<le> 2 ^ 23"
  proof -
    have "s * 1 \<le> s * (m_nsamples axis_a - 1)" using a by (intro mult_left_mono) (auto simp: whole_axis_def)
    moreover have "s * (m_nsamples axis_a - 1) = (lo_a + s * (m_nsamples axis_a - 1)) - lo_a" by simp
    moreover have "\<bar>lo_a\<bar> \<le> 2 ^ 22" "\<bar>lo_a + s * (m_nsamples axis_a - 1)\<bar> \<le> 2 ^ 22"
      using a unfolding whole_axis_def by blast+
    moreover have "(2::int) ^ 23 = 2 * 2 ^ 22" by simp
    ultimately show ?thesis by linarith
  qed
  then have "f32 (of_int s) = of_int s" using s by (intro f32_small_int) simp
  moreover have "f32 (of_int mx - of_int mn) = of_int (s * q)"
    unfolding of_int_diff[symmetric] q[symmetric] using rng by (intro f32_small_int) simp
  moreover have "f32 (of_int q) = of_int q" using qb by (intro f32_small_int) simp
  moreover have "f32 (1 + of_int q) = of_int (1 + q)" using f32_small_int[of "1 + q"] qb by simp
  ultimately show ?thesis using s q by simp
qed

text \<open>The example handles are what \<^verbatim>\<open>create\<close> returns.\<close>

lemma example_axis_steps:
  "axis_stepsize (make_Axis 4 16 4 ''Sample'' ''ms'' 0) = 4"
  "axis_stepsize (make_Axis 10 11 2 ''Crossline'' ''unitless'' 1) = 1"
  "axis_stepsize (make_Axis 1 5 3 ''Inline'' ''unitless'' 2) = 2"
  by code_simp+

lemma example_intersections:
  "make_double_cube_axis (make_Axis 4 16 4 ''Sample'' ''ms'' 0) (make_Axis 4 16 4 ''Sample'' ''ms'' 0) 0
     = Inr (make_Axis 4 16 4 ''Sample'' ''ms'' 0)"
  "make_double_cube_axis (make_Axis 10 11 2 ''Crossline'' ''unitless'' 1) (make_Axis 10 11 2 ''Crossline'' ''unitless'' 1) 1
     = Inr (make_Axis 10 11 2 ''Crossline'' ''unitless'' 1)"
  "make_double_cube_axis (make_Axis 1 5 3 ''Inline'' ''unitless'' 2) (make_Axis 1 5 3 ''Inline'' ''unitless'' 2) 2
     = Inr (make_Axis 1 5 3 ''Inline'' ''unitless'' 2)"
  by code_simp+

lemma example_single_create: "single_create example_vds example_layout = Inr example_single"
proof -
  have upt: "[0..<3] = [0, 1, 2::nat]" by (simp add: upt_rec)
  have axes: "make_single_cube_axis example_layout 0 = make_Axis 4 16 4 ''Sample'' ''ms'' 0"
    "make_single_cube_axis example_layout 1 = make_Axis 10 11 2 ''Crossline'' ''unitless'' 1"
    "make_single_cube_axis example_layout 2 = make_Axis 1 5 3 ''Inline'' ''unitless'' 2"
    by (simp_all add: make_single_cube_axis_def example_layout_def Let_def)
  have "GetDimensionality example_layout = 3" by (simp add: example_layout_def)
  moreover have "GetDimensionName example_layout 0 = ''Sample''" "GetDimensionName example_layout 1 = ''Crossline''"
    "GetDimensionName example_layout 2 = ''Inline''" by (simp_all add: example_layout_def)
  ultimately show ?thesis
    using example_axis_steps
    by (simp add: single_create_def upt single_axis_step_eq axes[unfolded One_nat_def] axes axis_name_to_axis_type_def
        example_single_def example_axes_def
        wf_axis_def validate_dimensionality_def result_simps example_vds_def example_names_def)
qed

lemma example_double_create:
  "double_create example_vds example_single example_single b = Inr (example_double b)"
proof -
  have upt: "[0..<3] = [0, 1, 2::nat]" by (simp add: upt_rec)
  have layout: "sm_layout example_single = example_layout" "sm_axes_map example_single = example_axes"
    by (simp_all add: example_single_def)
  have names: "GetDimensionality example_layout = 3"
    "GetDimensionName example_layout 0 = ''Sample''" "GetDimensionName example_layout 1 = ''Crossline''"
    "GetDimensionName example_layout 2 = ''Inline''" by (simp_all add: example_layout_def)
  have survey: "check_same_survey example_layout example_layout = Inr ()"
    by (simp add: check_same_survey_def example_layout_def result_simps)
  have t: "make_DoubleCoordinateTransformer (sm_coordinate_transformer example_single)
      (sm_coordinate_transformer example_single) = Inr (dm_coordinate_transformer (example_double b))"
    by (simp add: make_DoubleCoordinateTransformer_def single_transformer_defs example_ijk_def affine_def
        example_single_def example_double_def Let_def)
  show ?thesis
    using example_axis_steps example_intersections
    by (simp add: double_create_def layout names names[unfolded One_nat_def] survey t upt double_axis_step_def axis_name_to_axis_type_def
        validate_dimensionality_def result_simps example_vds_def example_names_def example_axes_def map_at_def
        validate_direction_uniqueness_def validate_minimal_nsamples_def validate_positive_stepsize_def Let_def)
      (simp add: example_double_def example_axes_def)
qed

section \<open>Properties\<close>

text \<open>\<^verbatim>\<open>SingleMetadataHandle::create\<close> accepts a layout exactly when it has three
  dimensions whose names denote three different axis types, every axis has at least two
  samples, and every axis runs from a smaller to a larger coordinate; then the handle has
  for each axis type the axis of the dimension with that name.\<close>

theorem single_create_iff:
  "single_create v layout = Inr m \<longleftrightarrow>
     GetDimensionality layout = 3 \<and>
     sm_layout m = layout \<and>
     sm_coordinate_transformer m = \<lparr>coordinate_transformer = make_ijk_transformer v layout\<rparr> \<and>
     list_all (\<lambda>d. 2 \<le> ad_num_samples (GetAxisDescriptor layout d) \<and>
        ad_coordinate_min (GetAxisDescriptor layout d) < ad_coordinate_max (GetAxisDescriptor layout d)) [0, 1, 2] \<and>
     (\<exists>t0 t1 t2. distinct [t0, t1, t2] \<and>
        list_all2 (\<lambda>d t. axis_name_to_axis_type (known_names v) (GetDimensionName layout d) = Inr t)
          [0, 1, 2] [t0, t1, t2] \<and>
        sm_axes_map m = [t0 \<mapsto> make_single_cube_axis layout 0, t1 \<mapsto> make_single_cube_axis layout 1,
             t2 \<mapsto> make_single_cube_axis layout 2])"
proof (cases "GetDimensionality layout = 3")
  case True
  have "single_create v layout = Inr m \<longleftrightarrow>
      rfold (single_axis_step v layout) [0..<3] Map.empty = Inr (sm_axes_map m) \<and> sm_layout m = layout \<and>
      sm_coordinate_transformer m = \<lparr>coordinate_transformer = make_ijk_transformer v layout\<rparr>"
    using True by (cases m) (auto simp: single_create_def validate_dimensionality_def result_simps)
  then show ?thesis using True unfolding single_loop_eq by (auto simp: wf_single_cube_axis)
next
  case False
  then show ?thesis by (auto simp: single_create_def validate_dimensionality_def)
qed

text \<open>C23: Every metadata handle that is created, for one VDS or for two, satisfies the
  invariant: all three axes, at least two samples each, positive steps, and the three
  dimensions distributed over the axes.\<close>

theorem created_metadata_wf:
  "(\<forall>m. single_create v layout = Inr m \<longrightarrow> wf_metadata (SingleMetadata m)) \<and>
   (\<forall>m. double_create v ma mb operation = Inr m \<longrightarrow> wf_metadata (DoubleMetadata m))"
  by (simp add: wf_metadata_def single_create_wf double_create_wf)

theorem created_metadata_wf_witness:
  "single_create example_vds example_layout = Inr example_single \<and>
   wf_metadata (SingleMetadata example_single) \<and>
   double_create example_vds example_single example_single SUBTRACTION = Inr (example_double SUBTRACTION) \<and>
   wf_metadata (DoubleMetadata (example_double SUBTRACTION))"
  using created_metadata_wf[of example_vds example_layout example_single example_single SUBTRACTION]
    example_single_create example_double_create by simp

text \<open>C22: The intersection of two axes of whole numbers with equal name, unit and step. The
  axes are accepted exactly when one starts a whole number of steps from the other; the
  result runs over the lines the two have in common, and its sample count is the number of
  those lines (not positive when there are none).\<close>

theorem double_axis_whole_numbers:
  assumes a: "whole_axis lo_a s axis_a" and b: "whole_axis lo_b s axis_b"
    and same: "m_name axis_a = m_name axis_b" "m_unit axis_a = m_unit axis_b"
  defines "mn \<equiv> max lo_a lo_b"
    and "mx \<equiv> min (lo_a + s * (m_nsamples axis_a - 1)) (lo_b + s * (m_nsamples axis_b - 1))"
  shows "make_double_cube_axis axis_a axis_b d =
    (if s dvd lo_b - lo_a
     then Inr (make_Axis (of_int mn) (of_int mx) (1 + (mx - mn) div s) (m_name axis_a) (m_unit axis_a) d)
     else Inl (bad_request (''Cubes contain no shared line numbers in axis '' @ m_name axis_a)))"
proof -
  have s: "0 < s" using a by (simp add: whole_axis_def)
  have steps: "axis_stepsize axis_a = of_int s" "axis_stepsize axis_b = of_int s"
    using a b by (simp_all add: whole_axis_stepsize)
  have lo: "m_min axis_a = of_int lo_a" "m_min axis_b = of_int lo_b" "\<bar>lo_a\<bar> \<le> 2 ^ 22" "\<bar>lo_b\<bar> \<le> 2 ^ 22"
    using a b by (simp_all add: whole_axis_def)
  have off: "f32 (m_min axis_b - m_min axis_a) = of_int (lo_b - lo_a)"
    unfolding lo of_int_diff[symmetric] using lo(3,4) by (intro single.of_int) simp
  have lattice: "(of_int \<lfloor>f32 (f32 (m_min axis_b - m_min axis_a) / axis_stepsize axis_a)\<rfloor> =
      f32 (f32 (m_min axis_b - m_min axis_a) / axis_stepsize axis_a)) \<longleftrightarrow> s dvd lo_b - lo_a"
  proof -
    have "\<bar>lo_b - lo_a\<bar> < 2 ^ 24" using lo(3,4) by simp
    then show ?thesis unfolding off steps using f32_quotient_whole[OF s] by metis
  qed
  have mn: "max (m_min axis_a) (m_min axis_b) = of_int mn" using lo by (simp add: mn_def)
  have mx: "min (m_max axis_a) (m_max axis_b) = of_int mx"
    using a b unfolding whole_axis_def mx_def by (simp only: of_int_min)
  have count: "f32 (1 + f32 (f32 (of_int mx - of_int mn) / f32 (of_int (trunc (of_int s))))) =
      of_int (1 + (mx - mn) div s)" if "s dvd lo_b - lo_a"
    using that unfolding mn_def mx_def by (rule common_lines_count[OF a b])
  have "trunc (f32 (1 + f32 (f32 (of_int mx - of_int mn) / f32 (of_int s)))) = 1 + (mx - mn) div s"
    if "s dvd lo_b - lo_a" using count[OF that] by (simp only: trunc_of_int)
  moreover have "s \<noteq> 0" using s by simp
  ultimately show ?thesis
    by (simp only: make_double_cube_axis_def same steps mn mx Let_def if_False if_True simp_thms lattice[unfolded steps]
        trunc_of_int cong: if_cong) simp
qed

theorem double_axis_whole_numbers_witness:
  "make_double_cube_axis (make_Axis 1 9 5 ''Inline'' ''u'' 2) (make_Axis 5 15 6 ''Inline'' ''u'' 2) 2
     = Inr (make_Axis 5 9 3 ''Inline'' ''u'' 2) \<and>
   make_double_cube_axis (make_Axis 1 9 5 ''Inline'' ''u'' 2) (make_Axis 4 14 6 ''Inline'' ''u'' 2) 2
     = Inl (bad_request ''Cubes contain no shared line numbers in axis Inline'')"
  using double_axis_whole_numbers[of 1 2 "make_Axis 1 9 5 ''Inline'' ''u'' 2" 5 "make_Axis 5 15 6 ''Inline'' ''u'' 2" 2]
    double_axis_whole_numbers[of 1 2 "make_Axis 1 9 5 ''Inline'' ''u'' 2" 4 "make_Axis 4 14 6 ''Inline'' ''u'' 2" 2]
  by (simp add: whole_axis_def)


end
