(* ===== verification/Segments.thy ===== *)
theory Segments
  imports Axes
begin

text \<open>
  Vertical segments of traces (\<^verbatim>\<open>subvolume.hpp\<close> and the rounding functions of
  \<^verbatim>\<open>subvolume.cpp\<close>): the blueprints that turn depths into sample numbers, the raw segment, a
  view into the fetched data, and the resampled segment, which owns its data. The classes
  derived from \<^verbatim>\<open>SegmentBlueprint\<close> and \<^verbatim>\<open>Segment\<close> are record extensions.
\<close>

section \<open>Rounding with tolerance\<close>

definition tolerance :: real where
  "tolerance = f32 (1 / 1000)"

text \<open>The nearest \<^verbatim>\<open>float\<close> to one thousandth.\<close>

lemma tolerance_code [code]: "tolerance = 8589935 / 8589934592"
proof -
  have "f32 (1 / 1000) = 8589935 / 8589934592" by code_simp
  then show ?thesis by (simp add: tolerance_def)
qed

definition floor_with_tolerance :: "real \<Rightarrow> real" where
  "floor_with_tolerance x = (let c = of_int \<lceil>x\<rceil> in if \<bar>f32 (c - x)\<bar> < tolerance then c else of_int \<lfloor>x\<rfloor>)"

definition ceil_with_tolerance :: "real \<Rightarrow> real" where
  "ceil_with_tolerance x = (let f = of_int \<lfloor>x\<rfloor> in if \<bar>f32 (x - f)\<bar> < tolerance then f else of_int \<lceil>x\<rceil>)"

section \<open>Blueprints\<close>

record SegmentBlueprint =
  m_stepsize :: real

definition make_SegmentBlueprint :: "real \<Rightarrow> SegmentBlueprint result" where
  "make_SegmentBlueprint stepsize =
     (if stepsize \<le> 0 then Inl (std_exception ''Stepsize must be positive'') else Inr \<lparr>m_stepsize = stepsize\<rparr>)"

definition blueprint_sample_position_at :: "'a SegmentBlueprint_scheme \<Rightarrow> int \<Rightarrow> real \<Rightarrow> real" where
  "blueprint_sample_position_at b index zero_index_sample_position =
     f32 (zero_index_sample_position + f32 (m_stepsize b * f32 (of_int index)))"

definition to_round_down_sample_number :: "'a SegmentBlueprint_scheme \<Rightarrow> real \<Rightarrow> real \<Rightarrow> int" where
  "to_round_down_sample_number b zero_sample_offset position =
     trunc (floor_with_tolerance (f32 (f32 (position - zero_sample_offset) / m_stepsize b)))"

definition to_round_up_sample_number :: "'a SegmentBlueprint_scheme \<Rightarrow> real \<Rightarrow> real \<Rightarrow> int" where
  "to_round_up_sample_number b zero_sample_offset position =
     trunc (ceil_with_tolerance (f32 (f32 (position - zero_sample_offset) / m_stepsize b)))"

definition blueprint_size :: "'a SegmentBlueprint_scheme \<Rightarrow> real \<Rightarrow> real \<Rightarrow> real \<Rightarrow> nat" where
  "blueprint_size b zero_sample_offset top_boundary bottom_boundary =
     to_size_t (to_round_down_sample_number b zero_sample_offset bottom_boundary -
                to_round_up_sample_number b zero_sample_offset top_boundary + 1)"

subsection \<open>Raw data\<close>

text \<open>The margins are \<^verbatim>\<open>std::uint8_t\<close> values.\<close>

record RawSegmentBlueprint = SegmentBlueprint +
  m_zero_sample_offset :: real

definition make_RawSegmentBlueprint :: "real \<Rightarrow> real \<Rightarrow> RawSegmentBlueprint result" where
  "make_RawSegmentBlueprint stepsize sample_position =
     rbind (make_SegmentBlueprint stepsize) (\<lambda>b.
     Inr \<lparr>m_stepsize = m_stepsize b, m_zero_sample_offset = sample_position\<rparr>)"

definition raw_size :: "RawSegmentBlueprint \<Rightarrow> real \<Rightarrow> real \<Rightarrow> int \<Rightarrow> int \<Rightarrow> nat" where
  "raw_size b top_boundary bottom_boundary top_margin bottom_margin =
     wrap64 (blueprint_size b (m_zero_sample_offset b) top_boundary bottom_boundary + nat top_margin + nat bottom_margin)"

definition raw_top_sample_position :: "RawSegmentBlueprint \<Rightarrow> real \<Rightarrow> int \<Rightarrow> real" where
  "raw_top_sample_position b top_boundary top_margin =
     (let top_sample_number = to_round_up_sample_number b (m_zero_sample_offset b) top_boundary;
          top_margin_sample_number = top_sample_number - top_margin
      in blueprint_sample_position_at b top_margin_sample_number (m_zero_sample_offset b))"

definition raw_bottom_sample_position :: "RawSegmentBlueprint \<Rightarrow> real \<Rightarrow> int \<Rightarrow> real" where
  "raw_bottom_sample_position b bottom_boundary bottom_margin =
     (let bottom_sample_number = to_round_down_sample_number b (m_zero_sample_offset b) bottom_boundary;
          bottom_margin_sample_number = bottom_sample_number + bottom_margin
      in blueprint_sample_position_at b bottom_margin_sample_number (m_zero_sample_offset b))"

definition preferred_margin :: "RawSegmentBlueprint \<Rightarrow> int" where
  "preferred_margin b = 2"

subsection \<open>Resampled data\<close>

type_synonym ResampledSegmentBlueprint = SegmentBlueprint

definition make_ResampledSegmentBlueprint :: "real \<Rightarrow> ResampledSegmentBlueprint result" where
  "make_ResampledSegmentBlueprint stepsize = make_SegmentBlueprint stepsize"

definition resampled_size :: "ResampledSegmentBlueprint \<Rightarrow> real \<Rightarrow> real \<Rightarrow> real \<Rightarrow> nat" where
  "resampled_size b reference top_boundary bottom_boundary =
     (let zero_sample_offset = reference in blueprint_size b zero_sample_offset top_boundary bottom_boundary)"

definition resampled_top_sample_position :: "ResampledSegmentBlueprint \<Rightarrow> real \<Rightarrow> real \<Rightarrow> real" where
  "resampled_top_sample_position b reference top_boundary =
     (let zero_sample_offset = reference;
          top_sample_number = to_round_up_sample_number b zero_sample_offset top_boundary
      in blueprint_sample_position_at b top_sample_number zero_sample_offset)"

definition resampled_bottom_sample_position :: "ResampledSegmentBlueprint \<Rightarrow> real \<Rightarrow> real \<Rightarrow> real" where
  "resampled_bottom_sample_position b reference bottom_boundary =
     (let zero_sample_offset = reference;
          bottom_sample_number = to_round_down_sample_number b zero_sample_offset bottom_boundary
      in blueprint_sample_position_at b bottom_sample_number zero_sample_offset)"

definition nsamples_above :: "ResampledSegmentBlueprint \<Rightarrow> real \<Rightarrow> real \<Rightarrow> nat" where
  "nsamples_above b reference top_boundary = to_size_t (- to_round_up_sample_number b reference top_boundary)"

section \<open>Segments\<close>

record Segment =
  m_reference :: real
  m_top_boundary :: real
  m_bottom_boundary :: real

definition segment_reinitialize :: "real \<Rightarrow> real \<Rightarrow> real \<Rightarrow> 'a Segment_scheme \<Rightarrow> 'a Segment_scheme" where
  "segment_reinitialize reference top_boundary bottom_boundary s =
     s\<lparr>m_reference := reference, m_top_boundary := top_boundary, m_bottom_boundary := bottom_boundary\<rparr>"

text \<open>
  The positions of a segment of the given size: the template method \<^verbatim>\<open>sample_positions\<close> and
  \<^verbatim>\<open>sample_position_at\<close> of the base class, with the virtual functions as arguments.
\<close>

definition segment_sample_positions :: "'a SegmentBlueprint_scheme \<Rightarrow> nat \<Rightarrow> real \<Rightarrow> real list" where
  "segment_sample_positions b n top_sample_position =
     map (\<lambda>index. blueprint_sample_position_at b (int index) top_sample_position) [0..<n]"

definition segment_sample_position_at :: "'a SegmentBlueprint_scheme \<Rightarrow> real \<Rightarrow> nat \<Rightarrow> real" where
  "segment_sample_position_at b top_sample_position index =
     blueprint_sample_position_at b (int index) top_sample_position"

text \<open>
  A raw segment is a view: the two iterators are the part of the data between them. An
  element that no read has written yet is \<open>None\<close>.
\<close>

record RawSegment = Segment +
  rs_blueprint :: RawSegmentBlueprint
  rs_view :: "fp option list"
  m_top_margin :: int

definition make_RawSegment ::
  "real \<Rightarrow> real \<Rightarrow> real \<Rightarrow> int \<Rightarrow> fp option list \<Rightarrow> RawSegmentBlueprint \<Rightarrow> RawSegment" where
  "make_RawSegment reference top_boundary bottom_boundary top_margin view blueprint =
     \<lparr>m_reference = reference, m_top_boundary = top_boundary, m_bottom_boundary = bottom_boundary,
      rs_blueprint = blueprint, rs_view = view, m_top_margin = top_margin\<rparr>"

definition raw_segment_reinitialize ::
  "real \<Rightarrow> real \<Rightarrow> real \<Rightarrow> int \<Rightarrow> fp option list \<Rightarrow> RawSegment \<Rightarrow> RawSegment" where
  "raw_segment_reinitialize reference top_boundary bottom_boundary top_margin view s =
     (segment_reinitialize reference top_boundary bottom_boundary s)\<lparr>m_top_margin := top_margin, rs_view := view\<rparr>"

definition raw_segment_size :: "RawSegment \<Rightarrow> nat" where
  "raw_segment_size s = length (rs_view s)"

definition raw_segment_top_sample_position :: "RawSegment \<Rightarrow> real" where
  "raw_segment_top_sample_position s = raw_top_sample_position (rs_blueprint s) (m_top_boundary s) (m_top_margin s)"

definition raw_segment_sample_positions :: "RawSegment \<Rightarrow> real list" where
  "raw_segment_sample_positions s =
     segment_sample_positions (rs_blueprint s) (raw_segment_size s) (raw_segment_top_sample_position s)"

text \<open>The data of a resampled segment are doubles; a new or longer vector is filled with zeros.\<close>

record ResampledSegment = Segment +
  ds_blueprint :: ResampledSegmentBlueprint
  ds_data :: "fp list"

definition resampled_segment_size :: "ResampledSegment \<Rightarrow> nat" where
  "resampled_segment_size s = resampled_size (ds_blueprint s) (m_reference s) (m_top_boundary s) (m_bottom_boundary s)"

definition vector_resize :: "nat \<Rightarrow> fp list \<Rightarrow> fp list" where
  "vector_resize n xs = take n xs @ replicate (n - length xs) (Fin 0)"

definition make_ResampledSegment :: "real \<Rightarrow> real \<Rightarrow> real \<Rightarrow> ResampledSegmentBlueprint \<Rightarrow> ResampledSegment" where
  "make_ResampledSegment reference top_boundary bottom_boundary blueprint =
     (let s = \<lparr>m_reference = reference, m_top_boundary = top_boundary, m_bottom_boundary = bottom_boundary,
               ds_blueprint = blueprint, ds_data = []\<rparr>
      in s\<lparr>ds_data := replicate (resampled_segment_size s) (Fin 0)\<rparr>)"

definition resampled_segment_reinitialize :: "real \<Rightarrow> real \<Rightarrow> real \<Rightarrow> ResampledSegment \<Rightarrow> ResampledSegment" where
  "resampled_segment_reinitialize reference top_boundary bottom_boundary s =
     (let s' = segment_reinitialize reference top_boundary bottom_boundary s
      in s'\<lparr>ds_data := vector_resize (resampled_segment_size s') (ds_data s')\<rparr>)"

definition resampled_segment_top_sample_position :: "ResampledSegment \<Rightarrow> real" where
  "resampled_segment_top_sample_position s =
     resampled_top_sample_position (ds_blueprint s) (m_reference s) (m_top_boundary s)"

definition resampled_segment_sample_positions :: "ResampledSegment \<Rightarrow> real list" where
  "resampled_segment_sample_positions s =
     segment_sample_positions (ds_blueprint s) (resampled_segment_size s) (resampled_segment_top_sample_position s)"

definition resampled_segment_sample_position_at :: "ResampledSegment \<Rightarrow> nat \<Rightarrow> real" where
  "resampled_segment_sample_position_at s index =
     segment_sample_position_at (ds_blueprint s) (resampled_segment_top_sample_position s) index"

definition reference_index :: "ResampledSegment \<Rightarrow> nat" where
  "reference_index s = nsamples_above (ds_blueprint s) (m_reference s) (m_top_boundary s)"

section \<open>Lemmas\<close>

text \<open>The sample numbers that convert to \<^verbatim>\<open>int\<close> without leaving its range.\<close>

definition int_sample :: "'a SegmentBlueprint_scheme \<Rightarrow> real \<Rightarrow> real \<Rightarrow> bool" where
  "int_sample b zero_sample_offset position \<longleftrightarrow> \<bar>f32 (f32 (position - zero_sample_offset) / m_stepsize b)\<bar> \<le> 2 ^ 30"

lemma below_tolerance:
  assumes "\<bar>f32 d\<bar> < tolerance"
  shows "\<bar>d\<bar> < tolerance"
proof (rule ccontr)
  assume "\<not> \<bar>d\<bar> < tolerance"
  then have "f32 tolerance \<le> f32 \<bar>d\<bar>" by (intro single.mono) simp
  then show False using assms by (simp add: single.abs tolerance_def)
qed

lemma floor_with_tolerance_cases:
  obtains k where "floor_with_tolerance x = of_int k" "\<lfloor>x\<rfloor> \<le> k" "k \<le> \<lceil>x\<rceil>" "of_int k < x + tolerance"
proof (cases "\<bar>f32 (of_int \<lceil>x\<rceil> - x)\<bar> < tolerance")
  case True
  have "of_int \<lceil>x\<rceil> < x + tolerance" using below_tolerance[OF True] by linarith
  with True show ?thesis using that[of "\<lceil>x\<rceil>"] by (simp add: floor_with_tolerance_def Let_def floor_le_ceiling)
next
  case False
  have "0 < tolerance" by (simp add: tolerance_def)
  then have "of_int \<lfloor>x\<rfloor> < x + tolerance" using of_int_floor_le[of x] by linarith
  with False show ?thesis using that[of "\<lfloor>x\<rfloor>"] by (simp add: floor_with_tolerance_def Let_def floor_le_ceiling)
qed

lemma ceil_with_tolerance_minus: "ceil_with_tolerance x = - floor_with_tolerance (- x)"
  by (simp add: ceil_with_tolerance_def floor_with_tolerance_def ceiling_def Let_def)

lemma ceil_with_tolerance_cases:
  obtains k where "ceil_with_tolerance x = of_int k" "\<lfloor>x\<rfloor> \<le> k" "k \<le> \<lceil>x\<rceil>" "x - tolerance < of_int k"
proof -
  obtain k where "floor_with_tolerance (- x) = of_int k" "\<lfloor>- x\<rfloor> \<le> k" "k \<le> \<lceil>- x\<rceil>" "of_int k < - x + tolerance"
    by (rule floor_with_tolerance_cases)
  then show ?thesis using that[of "- k"] by (simp add: ceil_with_tolerance_minus ceiling_def)
qed

lemma with_tolerance_of_int [simp]:
  "floor_with_tolerance (of_int k) = of_int k" "ceil_with_tolerance (of_int k) = of_int k"
  by (simp_all add: floor_with_tolerance_def ceil_with_tolerance_def Let_def)

text \<open>A boundary above another has the smaller sample number, up to the empty segment.\<close>

lemma round_numbers_ordered:
  assumes "0 < m_stepsize b" and "t \<le> u"
  shows "to_round_up_sample_number b z t \<le> to_round_down_sample_number b z u + 1"
proof -
  define x where "x = f32 (f32 (t - z) / m_stepsize b)"
  define y where "y = f32 (f32 (u - z) / m_stepsize b)"
  have xy: "x \<le> y"
    unfolding x_def y_def using assms by (intro single.mono divide_right_mono) (simp_all add: single.mono)
  obtain k where k: "ceil_with_tolerance x = of_int k" "k \<le> \<lceil>x\<rceil>" by (rule ceil_with_tolerance_cases)
  obtain l where l: "floor_with_tolerance y = of_int l" "\<lfloor>y\<rfloor> \<le> l" by (rule floor_with_tolerance_cases)
  have "\<lceil>x\<rceil> \<le> \<lfloor>x\<rfloor> + 1" by linarith
  then have "k \<le> l + 1" using floor_mono[OF xy] k l by linarith
  then show ?thesis using k l by (simp add: to_round_up_sample_number_def to_round_down_sample_number_def flip: x_def y_def)
qed

text \<open>The reference is a sample of the resampled segment.\<close>

lemma reference_sample_numbers:
  assumes "0 < m_stepsize b" and "t \<le> r" and "r \<le> u"
  shows "to_round_up_sample_number b r t \<le> 0" and "0 \<le> to_round_down_sample_number b r u"
proof -
  define x where "x = f32 (f32 (t - r) / m_stepsize b)"
  define y where "y = f32 (f32 (u - r) / m_stepsize b)"
  have xy: "x \<le> 0" "0 \<le> y" unfolding x_def y_def using assms by (simp_all add: divide_le_0_iff)
  obtain k where k: "ceil_with_tolerance x = of_int k" "k \<le> \<lceil>x\<rceil>" by (rule ceil_with_tolerance_cases)
  obtain l where l: "floor_with_tolerance y = of_int l" "\<lfloor>y\<rfloor> \<le> l" by (rule floor_with_tolerance_cases)
  have "k \<le> 0" using k(2) xy(1) by (meson ceiling_le_zero order_trans)
  then show "to_round_up_sample_number b r t \<le> 0"
    using k(1) by (simp add: to_round_up_sample_number_def flip: x_def)
  have "0 \<le> l" using l(2) xy(2) by (meson zero_le_floor order_trans)
  then show "0 \<le> to_round_down_sample_number b r u"
    using l(1) by (simp add: to_round_down_sample_number_def flip: y_def)
qed

lemma int_sample_bounds:
  assumes "int_sample b z p"
  shows "\<bar>to_round_up_sample_number b z p\<bar> \<le> 2 ^ 30" and "\<bar>to_round_down_sample_number b z p\<bar> \<le> 2 ^ 30"
proof -
  define x where "x = f32 (f32 (p - z) / m_stepsize b)"
  have "- of_int (2 ^ 30) \<le> x" "x \<le> of_int (2 ^ 30)" using assms by (simp_all add: int_sample_def abs_le_iff flip: x_def)
  then have fc: "- (2 ^ 30) \<le> \<lfloor>x\<rfloor>" "\<lceil>x\<rceil> \<le> 2 ^ 30"
    by (simp_all add: le_floor_iff ceiling_le_iff)
  obtain k where "ceil_with_tolerance x = of_int k" "\<lfloor>x\<rfloor> \<le> k" "k \<le> \<lceil>x\<rceil>" by (rule ceil_with_tolerance_cases)
  then show "\<bar>to_round_up_sample_number b z p\<bar> \<le> 2 ^ 30"
    using fc by (simp only: to_round_up_sample_number_def x_def[symmetric] trunc_of_int)
  obtain l where "floor_with_tolerance x = of_int l" "\<lfloor>x\<rfloor> \<le> l" "l \<le> \<lceil>x\<rceil>" by (rule floor_with_tolerance_cases)
  then show "\<bar>to_round_down_sample_number b z p\<bar> \<le> 2 ^ 30"
    using fc by (simp only: to_round_down_sample_number_def x_def[symmetric] trunc_of_int)
qed

lemma blueprint_size_eq:
  assumes "0 < m_stepsize b" and "t \<le> u" and "int_sample b z t" and "int_sample b z u"
  shows "int (blueprint_size b z t u) = to_round_down_sample_number b z u - to_round_up_sample_number b z t + 1"
proof -
  define n where "n = to_round_down_sample_number b z u - to_round_up_sample_number b z t + 1"
  have "0 \<le> n" using round_numbers_ordered[OF assms(1,2), of z] unfolding n_def by simp
  moreover have "n \<le> 2 ^ 30 + 2 ^ 30 + 1"
    using int_sample_bounds[OF assms(3)] int_sample_bounds[OF assms(4)] unfolding n_def by linarith
  ultimately show ?thesis unfolding blueprint_size_def n_def[symmetric] by (simp add: to_size_t_nonneg)
qed

lemma length_segment_sample_positions [simp]: "length (segment_sample_positions b n t) = n"
  by (simp add: segment_sample_positions_def)

lemma length_vector_resize [simp]: "length (vector_resize n xs) = n"
  by (simp add: vector_resize_def)

lemma resampled_segment_fields:
  "m_reference (resampled_segment_reinitialize r t u s) = r"
  "m_top_boundary (resampled_segment_reinitialize r t u s) = t"
  "m_bottom_boundary (resampled_segment_reinitialize r t u s) = u"
  "ds_blueprint (resampled_segment_reinitialize r t u s) = ds_blueprint s"
  by (simp_all add: resampled_segment_reinitialize_def segment_reinitialize_def Let_def)

text \<open>The data of a resampled segment always has the size of the segment.\<close>

definition wf_resampled :: "ResampledSegment \<Rightarrow> bool" where
  "wf_resampled s \<longleftrightarrow> length (ds_data s) = resampled_segment_size s"

lemma wf_resampled_make: "wf_resampled (make_ResampledSegment r t u b)"
  by (simp add: wf_resampled_def make_ResampledSegment_def resampled_segment_size_def Let_def)

lemma wf_resampled_reinitialize: "wf_resampled (resampled_segment_reinitialize r t u s)"
  by (simp add: wf_resampled_def resampled_segment_reinitialize_def resampled_segment_size_def Let_def)

lemma round_number_window:
  "f32 (f32 (p - z) / m_stepsize b) - tolerance < of_int (to_round_up_sample_number b z p)"
  "of_int (to_round_up_sample_number b z p) < f32 (f32 (p - z) / m_stepsize b) + 1"
  "f32 (f32 (p - z) / m_stepsize b) - 1 < of_int (to_round_down_sample_number b z p)"
  "of_int (to_round_down_sample_number b z p) < f32 (f32 (p - z) / m_stepsize b) + tolerance"
proof -
  define x where "x = f32 (f32 (p - z) / m_stepsize b)"
  obtain k where k: "ceil_with_tolerance x = of_int k" "k \<le> \<lceil>x\<rceil>" "x - tolerance < of_int k" by (rule ceil_with_tolerance_cases)
  obtain l where l: "floor_with_tolerance x = of_int l" "\<lfloor>x\<rfloor> \<le> l" "of_int l < x + tolerance" by (rule floor_with_tolerance_cases)
  have kl: "of_int k < x + 1" "x - 1 < of_int l" using k(2) l(2) by linarith+
  have u: "to_round_up_sample_number b z p = k" "to_round_down_sample_number b z p = l"
    using k(1) l(1) by (simp_all add: to_round_up_sample_number_def to_round_down_sample_number_def flip: x_def)
  show "f32 (f32 (p - z) / m_stepsize b) - tolerance < of_int (to_round_up_sample_number b z p)"
    "of_int (to_round_up_sample_number b z p) < f32 (f32 (p - z) / m_stepsize b) + 1"
    "f32 (f32 (p - z) / m_stepsize b) - 1 < of_int (to_round_down_sample_number b z p)"
    "of_int (to_round_down_sample_number b z p) < f32 (f32 (p - z) / m_stepsize b) + tolerance"
    unfolding u x_def[symmetric] using k(3) l(3) kl by simp_all
qed

section \<open>Properties\<close>

text \<open>C35: A resampled segment around its reference. When the reference lies between the
  boundaries, the segment is not empty, its data has the size of the segment and the
  reference is one of its samples. Counted in steps from the reference, the first sample is
  at most the tolerance above the top boundary and less than one step below it, the last
  one at most the tolerance below the bottom boundary and less than one step above it.\<close>

theorem resampled_segment_reference:
  assumes "0 < m_stepsize b" and "t \<le> r" and "r \<le> u" and "int_sample b r t" and "int_sample b r u"
    and "s = make_ResampledSegment r t u b"
  shows "reference_index s < resampled_segment_size s \<and> length (ds_data s) = resampled_segment_size s \<and>
    (let above = real (reference_index s); below = real (resampled_segment_size s) - 1 - above;
         x = f32 (f32 (t - r) / m_stepsize b); y = f32 (f32 (u - r) / m_stepsize b)
     in x - tolerance < - above \<and> - above < x + 1 \<and> y - 1 < below \<and> below < y + tolerance)"
proof -
  note n = reference_sample_numbers[OF assms(1-3)]
  have fields: "m_reference s = r" "m_top_boundary s = t" "m_bottom_boundary s = u" "ds_blueprint s = b"
    by (simp_all add: assms(6) make_ResampledSegment_def Let_def)
  have size: "int (resampled_segment_size s) = to_round_down_sample_number b r u - to_round_up_sample_number b r t + 1"
    using blueprint_size_eq[OF assms(1) order_trans[OF assms(2,3)] assms(4,5)]
    by (simp add: resampled_segment_size_def resampled_size_def fields)
  have above: "int (reference_index s) = - to_round_up_sample_number b r t"
    using n(1) int_sample_bounds(1)[OF assms(4)]
    by (simp add: reference_index_def nsamples_above_def fields to_size_t_nonneg)
  have a: "real (reference_index s) = of_int (- to_round_up_sample_number b r t)"
    using above by (metis of_int_of_nat_eq)
  have z: "real (resampled_segment_size s) - 1 - real (reference_index s) = of_int (to_round_down_sample_number b r u)"
    using arg_cong[OF size, of real_of_int] a by simp
  have "reference_index s < resampled_segment_size s" using size above n by linarith
  moreover have "length (ds_data s) = resampled_segment_size s"
    using wf_resampled_make[of r t u b] by (simp add: wf_resampled_def assms(6))
  ultimately show ?thesis
    unfolding Let_def z using round_number_window[where p = t and z = r and b = b]
      round_number_window[where p = u and z = r and b = b] by (simp add: a)
qed

theorem resampled_segment_reference_witness:
  "let s = make_ResampledSegment 16 7 26 \<lparr>m_stepsize = 4\<rparr>
   in reference_index s < resampled_segment_size s \<and> reference_index s = 2 \<and> resampled_segment_size s = 5"
proof -
  have "reference_index (make_ResampledSegment 16 7 26 \<lparr>m_stepsize = 4\<rparr>) = 2"
    "resampled_segment_size (make_ResampledSegment 16 7 26 \<lparr>m_stepsize = 4\<rparr>) = 5"
    "int_sample \<lparr>m_stepsize = 4\<rparr> 16 7" "int_sample \<lparr>m_stepsize = 4\<rparr> 16 26" by code_simp+
  then show ?thesis
    using resampled_segment_reference[of "\<lparr>m_stepsize = 4\<rparr>" 7 16 26 "make_ResampledSegment 16 7 26 \<lparr>m_stepsize = 4\<rparr>"]
    by (simp add: Let_def)
qed

end
