(* ===== verification/Surfaces.thy ===== *)
theory Surfaces
  imports Floating
begin

text \<open>
  Regular surfaces (\<^verbatim>\<open>regularsurface.hpp\<close>, \<^verbatim>\<open>regularsurface.cpp\<close>): the affine transformation
  between grid positions and world coordinates, grids, and the data points over a grid.
  All arithmetic is \<^verbatim>\<open>double\<close>. \<^verbatim>\<open>std::cos\<close> and \<^verbatim>\<open>std::sin\<close> return the nearest \<^verbatim>\<open>double\<close>. The
  main result is that the two transformations of a grid invert each other up to rounding,
  for every rotation.
\<close>

section \<open>Transformations\<close>

record Point =
  pt_x :: real
  pt_y :: real

text \<open>The two rows of the matrix.\<close>

record AffineTransformation =
  at00 :: real
  at01 :: real
  at02 :: real
  at10 :: real
  at11 :: real
  at12 :: real

definition affine_times :: "AffineTransformation \<Rightarrow> Point \<Rightarrow> Point" where
  "affine_times t p =
     \<lparr>pt_x = f64 (f64 (f64 (at00 t * pt_x p) + f64 (at01 t * pt_y p)) + at02 t),
      pt_y = f64 (f64 (f64 (at10 t * pt_x p) + f64 (at11 t * pt_y p)) + at12 t)\<rparr>"

definition affine_eq :: "AffineTransformation \<Rightarrow> AffineTransformation \<Rightarrow> bool" where
  "affine_eq l r \<longleftrightarrow> at00 l = at00 r \<and> at01 l = at01 r \<and> at02 l = at02 r \<and>
     at10 l = at10 r \<and> at11 l = at11 r \<and> at12 l = at12 r"

text \<open>The constant \<^verbatim>\<open>M_PI\<close>, and the library functions.\<close>

definition M_PI :: real where
  "M_PI = 884279719003555 / 2 ^ 48"

definition std_cos :: "real \<Rightarrow> real" where
  "std_cos x = f64 (cos x)"

definition std_sin :: "real \<Rightarrow> real" where
  "std_sin x = f64 (sin x)"

definition to_rad :: "real \<Rightarrow> real" where
  "to_rad rot = f64 (rot * f64 (M_PI / 180))"

definition from_rotation :: "real \<Rightarrow> real \<Rightarrow> real \<Rightarrow> real \<Rightarrow> real \<Rightarrow> AffineTransformation" where
  "from_rotation xori yori xinc yinc rot =
     (let rad = to_rad rot in
      \<lparr>at00 = f64 (xinc * std_cos rad), at01 = f64 (- yinc * std_sin rad), at02 = xori,
       at10 = f64 (xinc * std_sin rad), at11 = f64 (yinc * std_cos rad), at12 = yori\<rparr>)"

text \<open>An increment of zero gives a matrix with infinities or NaN: \<open>None\<close>.\<close>

definition inverse_from_rotation :: "real \<Rightarrow> real \<Rightarrow> real \<Rightarrow> real \<Rightarrow> real \<Rightarrow> AffineTransformation option" where
  "inverse_from_rotation xori yori xinc yinc rot =
     (let rad = to_rad rot in
      if xinc = 0 \<or> yinc = 0 then None else Some
      \<lparr>at00 = f64 (std_cos rad / xinc), at01 = f64 (std_sin rad / xinc),
       at02 = f64 (- f64 (f64 (std_sin rad * yori) + f64 (std_cos rad * xori)) / xinc),
       at10 = f64 (- std_sin rad / yinc), at11 = f64 (std_cos rad / yinc),
       at12 = f64 (f64 (f64 (std_sin rad * xori) - f64 (std_cos rad * yori)) / yinc)\<rparr>)"

section \<open>Grids\<close>

record Grid =
  m_transformation :: AffineTransformation
  m_inverse_transformation :: "AffineTransformation option"

definition make_Grid :: "real \<Rightarrow> real \<Rightarrow> real \<Rightarrow> real \<Rightarrow> real \<Rightarrow> Grid" where
  "make_Grid xori yori xinc yinc rot =
     \<lparr>m_transformation = from_rotation xori yori xinc yinc rot,
      m_inverse_transformation = inverse_from_rotation xori yori xinc yinc rot\<rparr>"

definition grid_eq :: "Grid \<Rightarrow> Grid \<Rightarrow> bool" where
  "grid_eq g h \<longleftrightarrow> affine_eq (m_transformation g) (m_transformation h)"

record BoundedGrid =
  bg_grid :: Grid
  m_nrows :: nat
  m_ncols :: nat

definition bounded_grid_eq :: "BoundedGrid \<Rightarrow> BoundedGrid \<Rightarrow> bool" where
  "bounded_grid_eq g h \<longleftrightarrow> grid_eq (bg_grid g) (bg_grid h) \<and> m_nrows g = m_nrows h \<and> m_ncols g = m_ncols h"

definition grid_size :: "BoundedGrid \<Rightarrow> nat" where
  "grid_size g = wrap64 (m_ncols g * m_nrows g)"

definition grid_row :: "BoundedGrid \<Rightarrow> nat \<Rightarrow> nat result" where
  "grid_row g i = (if i \<ge> grid_size g then Inl (std_exception ''Index out of range'') else Inr (i div m_ncols g))"

definition grid_col :: "BoundedGrid \<Rightarrow> nat \<Rightarrow> nat result" where
  "grid_col g i = (if i \<ge> grid_size g then Inl (std_exception ''Index out of range'') else Inr (i mod m_ncols g))"

definition to_cdp_pos :: "BoundedGrid \<Rightarrow> nat \<Rightarrow> nat \<Rightarrow> Point result" where
  "to_cdp_pos g row col =
     (if row \<ge> m_nrows g then Inl (std_exception ''Row out of range'')
      else if col \<ge> m_ncols g then Inl (std_exception ''Col out of range'')
      else let point = \<lparr>pt_x = f64 (real row), pt_y = f64 (real col)\<rparr>
           in Inr (affine_times (m_transformation (bg_grid g)) point))"

definition to_cdp :: "BoundedGrid \<Rightarrow> nat \<Rightarrow> Point result" where
  "to_cdp g i =
     (if m_ncols g = 0 then Inl (undefined_behaviour ''division by zero'')
      else let row = i div m_ncols g; col = i mod m_ncols g in to_cdp_pos g row col)"

definition from_cdp :: "BoundedGrid \<Rightarrow> Point \<Rightarrow> Point option" where
  "from_cdp g p = map_option (\<lambda>t. affine_times t p) (m_inverse_transformation (bg_grid g))"

definition as_pair :: "nat \<Rightarrow> nat \<Rightarrow> nat \<times> nat" where
  "as_pair row col = (row, col)"

section \<open>Surfaces\<close>

text \<open>
  The data of a surface is a flat C array. A \<^verbatim>\<open>float&\<close> result is the index of the element
  (an lvalue that is then read or assigned), a \<^verbatim>\<open>const float&\<close> result is its value. The code
  trusts that the array has as many elements as the grid.
\<close>

record RegularSurface =
  m_data :: "real list"
  m_fillvalue :: real
  m_grid :: BoundedGrid

definition make_RegularSurface :: "real list \<Rightarrow> nat \<Rightarrow> nat \<Rightarrow> Grid \<Rightarrow> real \<Rightarrow> RegularSurface" where
  "make_RegularSurface data nrows ncols grid fillvalue =
     \<lparr>m_data = data, m_fillvalue = fillvalue, m_grid = \<lparr>bg_grid = grid, m_nrows = nrows, m_ncols = ncols\<rparr>\<rparr>"

definition surface_size :: "RegularSurface \<Rightarrow> nat" where
  "surface_size s = grid_size (m_grid s)"

definition element :: "RegularSurface \<Rightarrow> nat \<Rightarrow> real result" where
  "element s i = (if i < length (m_data s) then Inr (m_data s ! i)
     else Inl (undefined_behaviour ''read outside the surface data''))"

definition surface_ref :: "RegularSurface \<Rightarrow> nat \<Rightarrow> nat result" where
  "surface_ref s i =
     (if i \<ge> grid_size (m_grid s) then Inl (std_exception ''operator[]: index out of range'') else Inr i)"

definition surface_get :: "RegularSurface \<Rightarrow> nat \<Rightarrow> real result" where
  "surface_get s i =
     (if i \<ge> grid_size (m_grid s) then Inl (std_exception ''const operator[]: index out of range'') else element s i)"

definition surface_ref_pair :: "RegularSurface \<Rightarrow> nat \<times> nat \<Rightarrow> nat result" where
  "surface_ref_pair s p =
     (if fst p \<ge> m_nrows (m_grid s) then Inl (std_exception ''operator[]: index out of range'')
      else if snd p \<ge> m_ncols (m_grid s) then Inl (std_exception ''operator[]: index out of range'')
      else Inr (wrap64 (fst p * m_ncols (m_grid s) + snd p)))"

definition surface_get_pair :: "RegularSurface \<Rightarrow> nat \<times> nat \<Rightarrow> real result" where
  "surface_get_pair s p =
     (if fst p \<ge> m_nrows (m_grid s) then Inl (std_exception ''const operator[]: index out of range'')
      else if snd p \<ge> m_ncols (m_grid s) then Inl (std_exception ''const operator[]: index out of range'')
      else element s (wrap64 (fst p * m_ncols (m_grid s) + snd p)))"

text \<open>The assignment \<^verbatim>\<open>surface[i] = value\<close>.\<close>

definition surface_set :: "RegularSurface \<Rightarrow> nat \<Rightarrow> real \<Rightarrow> RegularSurface result" where
  "surface_set s i v = rbind (surface_ref s i) (\<lambda>k.
     if k < length (m_data s) then Inr (s\<lparr>m_data := (m_data s)[k := v]\<rparr>)
     else Inl (undefined_behaviour ''write outside the surface data''))"

definition wf_surface :: "RegularSurface \<Rightarrow> bool" where
  "wf_surface s \<longleftrightarrow> m_ncols (m_grid s) * m_nrows (m_grid s) < 2 ^ 64 \<and>
     length (m_data s) = m_ncols (m_grid s) * m_nrows (m_grid s)"

text \<open>\<^verbatim>\<open>std::lround\<close>: the nearest integer, halfway cases away from zero.\<close>

definition lround :: "real \<Rightarrow> int" where
  "lround x = (if x < 0 then \<lceil>x - 1 / 2\<rceil> else \<lfloor>x + 1 / 2\<rfloor>)"

section \<open>Lemmas\<close>

lemma lround_close: "\<bar>x - of_int n\<bar> < 1 / 2 \<Longrightarrow> lround x = n"
proof -
  assume "\<bar>x - of_int n\<bar> < 1 / 2"
  then have "of_int n - 1 / 2 < x" "x < of_int n + 1 / 2" by linarith+
  then show ?thesis unfolding lround_def by (auto simp: floor_eq_iff ceiling_eq_iff)
qed

lemma wf_surface_size: "wf_surface s \<Longrightarrow> surface_size s = length (m_data s)"
  by (simp add: wf_surface_def surface_size_def grid_size_def)

lemma surface_get_eq: "wf_surface s \<Longrightarrow> i < surface_size s \<Longrightarrow> surface_get s i = Inr (m_data s ! i)"
  by (simp add: surface_get_def element_def wf_surface_def surface_size_def grid_size_def)

lemma surface_set_eq:
  "wf_surface s \<Longrightarrow> i < surface_size s \<Longrightarrow> surface_set s i v = Inr (s\<lparr>m_data := (m_data s)[i := v]\<rparr>)"
  by (simp add: surface_set_def surface_ref_def wf_surface_def surface_size_def grid_size_def)

lemma surface_set_wf: "wf_surface s \<Longrightarrow> surface_set s i v = Inr s' \<Longrightarrow> wf_surface s' \<and> m_grid s' = m_grid s \<and> m_fillvalue s' = m_fillvalue s"
  by (auto simp: surface_set_def wf_surface_def split: if_splits)

text \<open>Flat indices and positions.\<close>

lemma flat_index_bound: "r < nr \<Longrightarrow> c < nc \<Longrightarrow> r * nc + c < nc * (nr :: nat)"
proof -
  assume "r < nr" "c < nc"
  then have "r * nc + c < (r + 1) * nc" by simp
  also have "\<dots> \<le> nr * nc" using \<open>r < nr\<close> by (intro mult_right_mono) simp_all
  finally show ?thesis by (simp add: mult.commute)
qed

lemma flat_index_split:
  assumes "i < nc * (nr :: nat)"
  shows "i div nc < nr" and "i mod nc < nc" and "i div nc * nc + i mod nc = i"
  using assms by (cases "nc = 0"; simp add: div_less_iff_less_mult mult.commute)+

section \<open>Error bounds\<close>

text \<open>
  Error analysis in units of \<open>u = 2 ^ - 53\<close>: when the argument of a rounding is within \<open>e\<close>
  of \<open>x\<close>, the result is within \<open>2 * e + u * \<bar>x\<bar>\<close>. All bounds below are multiples of
  \<open>u * Q\<close>, where \<open>Q\<close> bounds every intermediate value.
\<close>

definition u64 :: real where
  "u64 = 1 / 2 ^ 53"

lemma u64_bounds: "0 < u64" "u64 \<le> 1 / 1000000"
  by (simp_all add: u64_def)

lemma f64_close:
  assumes "\<bar>y - x\<bar> \<le> e" and "\<bar>x\<bar> \<le> m"
  shows "\<bar>f64 y - x\<bar> \<le> 2 * e + u64 * m"
proof -
  have e: "0 \<le> e" using assms(1) by linarith
  have "\<bar>f64 y - y\<bar> \<le> u64 * \<bar>y\<bar>" using double.error[of y] by (simp add: u64_def)
  also have "\<dots> \<le> u64 * (m + e)" using assms u64_bounds by (intro mult_left_mono) linarith+
  also have "\<dots> \<le> u64 * m + e"
    using mult_right_mono[OF _ e, of u64 1] u64_bounds by (simp add: distrib_left)
  finally show ?thesis using assms(1) by linarith
qed

lemma f64_close0: "\<bar>x\<bar> \<le> m \<Longrightarrow> \<bar>f64 x - x\<bar> \<le> u64 * m"
  using f64_close[of x x 0 m] by simp

lemma f64_unit: "\<bar>x\<bar> \<le> 1 \<Longrightarrow> \<bar>f64 x\<bar> \<le> 1"
  using double.upper[of "\<bar>x\<bar>" 1] by (simp add: double.abs)

text \<open>A row of the forward matrix applied to a position.\<close>

lemma forward_row_close:
  assumes A: "\<bar>A\<bar> \<le> 1" and B: "\<bar>B\<bar> \<le> 1" and r: "0 \<le> r" and c: "0 \<le> c"
    and Q: "\<bar>p\<bar> * r + \<bar>q\<bar> * c + \<bar>t\<bar> \<le> Q"
  shows "\<bar>f64 (f64 (f64 (f64 (p * A) * r) + f64 (f64 (q * B) * c)) + t) - (p * A * r + q * B * c + t)\<bar> \<le> 27 * (u64 * Q)"
    and "\<bar>p * A * r + q * B * c + t\<bar> \<le> Q"
proof -
  have entry: "\<bar>f64 (f64 (d * D) * n) - d * D * n\<bar> \<le> 3 * (u64 * Q)" and entry_abs: "\<bar>d * D * n\<bar> \<le> \<bar>d\<bar> * n"
    if "\<bar>D\<bar> \<le> 1" "0 \<le> n" "\<bar>d\<bar> * n \<le> Q" for d D n :: real
  proof -
    have dD: "\<bar>d * D\<bar> \<le> \<bar>d\<bar>" using that(1) by (simp add: abs_mult mult_left_le)
    then show 1: "\<bar>d * D * n\<bar> \<le> \<bar>d\<bar> * n" using that(2) by (simp add: abs_mult mult_right_mono)
    have "\<bar>f64 (d * D) * n - d * D * n\<bar> = \<bar>f64 (d * D) - d * D\<bar> * n" using that(2) by (simp add: abs_mult flip: left_diff_distrib)
    also have "\<dots> \<le> u64 * \<bar>d\<bar> * n" using f64_close0[OF dD] that(2) by (rule mult_right_mono)
    also have "\<dots> \<le> u64 * Q" using that(3) u64_bounds by (simp add: mult.assoc mult_left_mono)
    finally show "\<bar>f64 (f64 (d * D) * n) - d * D * n\<bar> \<le> 3 * (u64 * Q)"
      using f64_close[of "f64 (d * D) * n" "d * D * n" "u64 * Q" Q] 1 that(3) by linarith
  qed
  have pos: "0 \<le> \<bar>p\<bar> * r" "0 \<le> \<bar>q\<bar> * c" using r c by simp_all
  have Qp: "\<bar>p\<bar> * r \<le> Q" and Qq: "\<bar>q\<bar> * c \<le> Q" using Q pos by linarith+
  note p = entry[OF A r Qp] entry_abs[OF A r Qp]
  note q = entry[OF B c Qq] entry_abs[OF B c Qq]
  show all: "\<bar>p * A * r + q * B * c + t\<bar> \<le> Q" using p(2) q(2) Q by linarith
  have "\<bar>p * A * r + q * B * c\<bar> \<le> Q" using p(2) q(2) Q by linarith
  then have "\<bar>f64 (f64 (f64 (p * A) * r) + f64 (f64 (q * B) * c)) - (p * A * r + q * B * c)\<bar> \<le> 13 * (u64 * Q)"
    using f64_close[of "f64 (f64 (p * A) * r) + f64 (f64 (q * B) * c)" "p * A * r + q * B * c" "6 * (u64 * Q)" Q] p(1) q(1)
    by linarith
  then show "\<bar>f64 (f64 (f64 (f64 (p * A) * r) + f64 (f64 (q * B) * c)) + t) - (p * A * r + q * B * c + t)\<bar> \<le> 27 * (u64 * Q)"
    using f64_close[of "f64 (f64 (f64 (p * A) * r) + f64 (f64 (q * B) * c)) + t" "p * A * r + q * B * c + t" "13 * (u64 * Q)" Q] all
    by linarith
qed

text \<open>A row of the inverse matrix applied to a point that is known up to \<open>27 * u * Q\<close>.\<close>

lemma inverse_row_close:
  assumes A: "\<bar>A\<bar> \<le> 1" and B: "\<bar>B\<bar> \<le> 1" and d: "d \<noteq> 0"
    and X: "\<bar>X - X0\<bar> \<le> 27 * (u64 * Q)" "\<bar>X0\<bar> \<le> Q" and Y: "\<bar>Y - Y0\<bar> \<le> 27 * (u64 * Q)" "\<bar>Y0\<bar> \<le> Q"
    and G: "\<bar>G\<bar> + \<bar>H\<bar> \<le> Q"
    and n: "(A * X0 + B * Y0 + G + H) / d = n" "\<bar>n\<bar> \<le> 2 * (Q / \<bar>d\<bar>)"
  shows "\<bar>f64 (f64 (f64 (f64 (A / d) * X) + f64 (f64 (B / d) * Y)) + f64 (f64 (f64 G + f64 H) / d)) - n\<bar>
    \<le> 500 * (u64 * (Q / \<bar>d\<bar>))"
proof -
  define q where "q = Q / \<bar>d\<bar>"
  have Q0: "0 \<le> Q" using X(2) by linarith
  have over_d: "\<bar>x / d\<bar> \<le> k * (u64 * q)" if "\<bar>x\<bar> \<le> k * (u64 * Q)" for x k
    using divide_right_mono[OF that, of "\<bar>d\<bar>"] by (simp add: q_def)
  have over_d': "\<bar>x / d\<bar> \<le> q" if "\<bar>x\<bar> \<le> Q" for x
    using divide_right_mono[OF that, of "\<bar>d\<bar>"] by (simp add: q_def)
  have entry: "\<bar>f64 (f64 (D / d) * Z) - D / d * Z0\<bar> \<le> 59 * (u64 * q)" and entry_abs: "\<bar>D / d * Z0\<bar> \<le> q"
    if D: "\<bar>D\<bar> \<le> 1" and Z: "\<bar>Z - Z0\<bar> \<le> 27 * (u64 * Q)" "\<bar>Z0\<bar> \<le> Q" for D Z Z0
  proof -
    have "\<bar>D * Z0\<bar> \<le> Q" using mult_mono[OF D Z(2)] by (simp add: abs_mult)
    then show 1: "\<bar>D / d * Z0\<bar> \<le> q" using over_d'[of "D * Z0"] by simp
    have Dd: "\<bar>D / d\<bar> \<le> 1 / \<bar>d\<bar>" using D by (simp add: divide_right_mono)
    have "u64 * Q \<le> Q / 1000000" using mult_right_mono[OF u64_bounds(2) Q0] by simp
    then have Z2: "\<bar>Z\<bar> \<le> 2 * Q" using Z Q0 by linarith
    have "\<bar>(f64 (D / d) - D / d) * Z\<bar> \<le> (u64 * (1 / \<bar>d\<bar>)) * (2 * Q)"
      unfolding abs_mult using f64_close0[OF Dd] Z2 u64_bounds by (intro mult_mono) simp_all
    then have "\<bar>(f64 (D / d) - D / d) * Z\<bar> \<le> 2 * (u64 * q)" by (simp add: q_def mult.left_commute)
    moreover have "\<bar>D / d * (Z - Z0)\<bar> \<le> 27 * (u64 * q)"
      using over_d[of "D * (Z - Z0)" 27] mult_mono[OF D Z(1)] by (simp add: abs_mult)
    moreover have "f64 (D / d) * Z - D / d * Z0 = (f64 (D / d) - D / d) * Z + D / d * (Z - Z0)"
      by (simp add: left_diff_distrib right_diff_distrib diff_divide_distrib)
    ultimately have "\<bar>f64 (D / d) * Z - D / d * Z0\<bar> \<le> 29 * (u64 * q)" by linarith
    then show "\<bar>f64 (f64 (D / d) * Z) - D / d * Z0\<bar> \<le> 59 * (u64 * q)"
      using f64_close[of "f64 (D / d) * Z" "D / d * Z0" "29 * (u64 * q)" q] 1 by linarith
  qed
  note a = entry[OF A X] entry_abs[OF A X] and b = entry[OF B Y] entry_abs[OF B Y]
  have "\<bar>A / d * X0 + B / d * Y0\<bar> \<le> 2 * q" using a(2) b(2) by linarith
  then have sum: "\<bar>f64 (f64 (f64 (A / d) * X) + f64 (f64 (B / d) * Y)) - (A / d * X0 + B / d * Y0)\<bar> \<le> 238 * (u64 * q)"
    using f64_close[of "f64 (f64 (A / d) * X) + f64 (f64 (B / d) * Y)" "A / d * X0 + B / d * Y0" "118 * (u64 * q)" "2 * q"] a(1) b(1)
    by linarith
  have "\<bar>f64 G - G\<bar> \<le> u64 * Q" "\<bar>f64 H - H\<bar> \<le> u64 * Q"
    using G by (intro f64_close0; linarith)+
  then have gh: "\<bar>f64 (f64 G + f64 H) - (G + H)\<bar> \<le> 5 * (u64 * Q)"
    using f64_close[of "f64 G + f64 H" "G + H" "2 * (u64 * Q)" Q] G by linarith
  have "\<bar>G + H\<bar> \<le> Q" using G by linarith
  then have "\<bar>f64 (f64 (f64 G + f64 H) / d) - (G + H) / d\<bar> \<le> 2 * (5 * (u64 * q)) + u64 * q"
    using over_d[OF gh] over_d'[of "G + H"] by (intro f64_close) (simp_all only: diff_divide_distrib)
  moreover have "A / d * X0 + B / d * Y0 + (G + H) / d = n" using n(1) by (simp add: add_divide_distrib)
  ultimately have "\<bar>f64 (f64 (f64 (A / d) * X) + f64 (f64 (B / d) * Y)) + f64 (f64 (f64 G + f64 H) / d) - n\<bar> \<le> 249 * (u64 * q)"
    using sum by linarith
  then have "\<bar>f64 (f64 (f64 (f64 (A / d) * X) + f64 (f64 (B / d) * Y)) + f64 (f64 (f64 G + f64 H) / d)) - n\<bar>
      \<le> 2 * (249 * (u64 * q)) + u64 * (2 * q)"
    using n(2) unfolding q_def by (rule f64_close)
  then show ?thesis unfolding q_def[symmetric] by linarith
qed

lemma rotation_entries:
  "\<bar>std_cos x\<bar> \<le> 1" "\<bar>std_sin x\<bar> \<le> 1" "\<bar>std_cos x * std_cos x + std_sin x * std_sin x - 1\<bar> \<le> 4 * u64"
proof -
  show c: "\<bar>std_cos x\<bar> \<le> 1" and s: "\<bar>std_sin x\<bar> \<le> 1"
    unfolding std_cos_def std_sin_def by (rule f64_unit, simp)+
  have square: "\<bar>f64 y * f64 y - y * y\<bar> \<le> 2 * u64" if "\<bar>y\<bar> \<le> 1" for y
  proof -
    have "\<bar>f64 y * f64 y - y * y\<bar> = \<bar>f64 y - y\<bar> * \<bar>f64 y + y\<bar>"
      by (simp add: algebra_simps flip: abs_mult)
    also have "\<dots> \<le> (u64 * 1) * 2"
      using f64_close0[OF that] f64_unit[OF that] that u64_bounds by (intro mult_mono) linarith+
    finally show ?thesis by simp
  qed
  have "cos x * cos x + sin x * sin x = 1" using sin_cos_squared_add[of x] by (simp add: power2_eq_square)
  then show "\<bar>std_cos x * std_cos x + std_sin x * std_sin x - 1\<bar> \<le> 4 * u64"
    using square[OF abs_cos_le_one, of x] square[OF abs_sin_le_one, of x] unfolding std_cos_def std_sin_def by linarith
qed

text \<open>
  The round trip on one position: \<open>C\<close> and \<open>S\<close> are the rounded cosine and sine, and \<open>d\<close> one
  of the two increments.
\<close>

lemma near_whole:
  assumes "\<bar>R - n * k\<bar> \<le> 500 * (u64 * (Q / \<bar>d\<bar>))" and "\<bar>k - 1\<bar> \<le> 4 * u64" and "\<bar>d\<bar> * n \<le> Q"
    and "Q \<le> 2 ^ 43 * \<bar>d\<bar>" and "d \<noteq> 0" and "0 \<le> n"
  shows "\<bar>R - n\<bar> < 1 / 2"
proof -
  have n: "n \<le> Q / \<bar>d\<bar>" using assms(3,5) by (simp add: field_simps)
  have q: "Q / \<bar>d\<bar> \<le> 2 ^ 43" using assms(4,5) by (simp add: field_simps)
  have "\<bar>n * k - n\<bar> = n * \<bar>k - 1\<bar>"
    using assms(6) abs_mult[of n "k - 1"] by (simp add: right_diff_distrib)
  also have "\<dots> \<le> Q / \<bar>d\<bar> * (4 * u64)"
    using n assms(2,6) order_trans[OF assms(6) n] abs_ge_zero by (intro mult_mono) blast+
  finally have "\<bar>n * k - n\<bar> \<le> 4 * (u64 * (Q / \<bar>d\<bar>))" by (simp add: mult.commute mult.left_commute)
  then have "\<bar>R - n\<bar> \<le> 504 * (u64 * (Q / \<bar>d\<bar>))" using assms(1) by linarith
  also have "\<dots> \<le> 504 * (u64 * 2 ^ 43)" using q u64_bounds by (intro mult_left_mono) simp_all
  also have "\<dots> < 1 / 2" by (simp add: u64_def)
  finally show ?thesis .
qed

lemma grid_round_trip:
  assumes inc: "xinc \<noteq> 0" "yinc \<noteq> 0" and r: "row < 2 ^ 53" and c: "col < 2 ^ 53"
    and Q: "\<bar>xinc\<bar> * real row + \<bar>yinc\<bar> * real col + \<bar>xori\<bar> + \<bar>yori\<bar> \<le> 2 ^ 43 * min \<bar>xinc\<bar> \<bar>yinc\<bar>"
    and t: "inverse_from_rotation xori yori xinc yinc rot = Some t"
    and p: "p = affine_times t (affine_times (from_rotation xori yori xinc yinc rot)
                \<lparr>pt_x = f64 (real row), pt_y = f64 (real col)\<rparr>)"
  shows "\<bar>pt_x p - real row\<bar> < 1 / 2" and "\<bar>pt_y p - real col\<bar> < 1 / 2"
proof -
  define C where "C = std_cos (to_rad rot)"
  define S where "S = std_sin (to_rad rot)"
  define Q where "Q = \<bar>xinc\<bar> * real row + \<bar>yinc\<bar> * real col + \<bar>xori\<bar> + \<bar>yori\<bar>"
  have CS: "\<bar>C\<bar> \<le> 1" "\<bar>S\<bar> \<le> 1" "\<bar>C * C + S * S - 1\<bar> \<le> 4 * u64" "\<bar>- S\<bar> \<le> 1"
    using rotation_entries[of "to_rad rot"] by (simp_all add: C_def S_def)
  have exact: "f64 (real row) = real row" "f64 (real col) = real col"
    using r c by (intro double.of_nat; simp)+
  have pos: "0 \<le> \<bar>xinc\<bar> * real row" "0 \<le> \<bar>yinc\<bar> * real col" by simp_all
  have bounds: "\<bar>xinc\<bar> * real row + \<bar>- yinc\<bar> * real col + \<bar>xori\<bar> \<le> Q"
    "\<bar>xinc\<bar> * real row + \<bar>yinc\<bar> * real col + \<bar>yori\<bar> \<le> Q" "\<bar>xinc\<bar> * real row \<le> Q" "\<bar>yinc\<bar> * real col \<le> Q"
    "Q \<le> 2 ^ 43 * \<bar>xinc\<bar>" "Q \<le> 2 ^ 43 * \<bar>yinc\<bar>"
    using Q pos by (simp_all add: Q_def min_def split: if_splits)
  note X = forward_row_close[OF CS(1,2) of_nat_0_le_iff of_nat_0_le_iff bounds(1)]
  note Y = forward_row_close[OF CS(2,1) of_nat_0_le_iff of_nat_0_le_iff bounds(2)]
  have GH: "\<bar>- (S * yori)\<bar> + \<bar>- (C * xori)\<bar> \<le> Q" "\<bar>S * xori\<bar> + \<bar>- (C * yori)\<bar> \<le> Q"
  proof -
    have unit: "\<bar>D * x\<bar> \<le> \<bar>x\<bar>" if "\<bar>D\<bar> \<le> 1" for D x :: real
      using that by (simp add: abs_mult mult_left_le_one_le)
    show "\<bar>- (S * yori)\<bar> + \<bar>- (C * xori)\<bar> \<le> Q" "\<bar>S * xori\<bar> + \<bar>- (C * yori)\<bar> \<le> Q"
      using unit[OF CS(1), of xori] unit[OF CS(1), of yori] unit[OF CS(2), of xori] unit[OF CS(2), of yori] pos
      unfolding Q_def abs_minus_cancel by linarith+
  qed
  have k: "0 \<le> C * C + S * S" "C * C + S * S \<le> 2" using CS(3) u64_bounds by (simp, linarith)
  have scaled: "\<bar>real n * (C * C + S * S)\<bar> \<le> 2 * (Q / \<bar>d\<bar>)" if "\<bar>d\<bar> * real n \<le> Q" "d \<noteq> 0" for n d
  proof -
    have "real n \<le> Q / \<bar>d\<bar>" using that by (simp add: field_simps)
    moreover from this have "0 \<le> Q / \<bar>d\<bar>" by (rule order_trans[OF of_nat_0_le_iff])
    ultimately have "real n * (C * C + S * S) \<le> Q / \<bar>d\<bar> * 2" using k by (intro mult_mono) simp_all
    then show ?thesis using k by (simp add: abs_mult mult.commute)
  qed
  have flip: "f64 (f64 (- (S * yori)) + f64 (- (C * xori))) = - f64 (f64 (S * yori) + f64 (C * xori))"
    using double.odd[of "f64 (S * yori) + f64 (C * xori)"] by simp
  define w where "w = affine_times (from_rotation xori yori xinc yinc rot) \<lparr>pt_x = f64 (real row), pt_y = f64 (real col)\<rparr>"
  have w: "pt_x w = f64 (f64 (f64 (f64 (xinc * C) * real row) + f64 (f64 (- yinc * S) * real col)) + xori)"
    "pt_y w = f64 (f64 (f64 (f64 (xinc * S) * real row) + f64 (f64 (yinc * C) * real col)) + yori)"
    by (simp_all add: w_def affine_times_def from_rotation_def Let_def exact flip: C_def S_def)
  have px: "pt_x p = f64 (f64 (f64 (f64 (C / xinc) * pt_x w) + f64 (f64 (S / xinc) * pt_y w)) +
      f64 (f64 (f64 (- (S * yori)) + f64 (- (C * xori))) / xinc))"
    and py: "pt_y p = f64 (f64 (f64 (f64 (- S / yinc) * pt_x w) + f64 (f64 (C / yinc) * pt_y w)) +
      f64 (f64 (f64 (S * xori) + f64 (- (C * yori))) / yinc))"
    using t unfolding p w_def[symmetric] flip
    by (auto simp: inverse_from_rotation_def affine_times_def Let_def simp flip: C_def S_def split: if_splits)
  have "\<bar>pt_x p - real row * (C * C + S * S)\<bar> \<le> 500 * (u64 * (Q / \<bar>xinc\<bar>))"
    unfolding px w using scaled[OF bounds(3) inc(1)] inc(1)
    by (intro inverse_row_close[OF CS(1,2) inc(1) X Y GH(1)]) (simp_all add: field_simps)
  then show "\<bar>pt_x p - real row\<bar> < 1 / 2" by (rule near_whole[OF _ CS(3) bounds(3,5) inc(1)]) simp
  have "\<bar>pt_y p - real col * (C * C + S * S)\<bar> \<le> 500 * (u64 * (Q / \<bar>yinc\<bar>))"
    unfolding py w using scaled[OF bounds(4) inc(2)] inc(2)
    by (intro inverse_row_close[OF CS(4,1) inc(2) X Y GH(2)]) (simp_all add: field_simps)
  then show "\<bar>pt_y p - real col\<bar> < 1 / 2" by (rule near_whole[OF _ CS(3) bounds(4,6) inc(2)]) simp
qed

lemma bounded_grid_round_trip:
  assumes g: "bg_grid g = make_Grid xori yori xinc yinc rot" and inc: "xinc \<noteq> 0" "yinc \<noteq> 0"
    and Q: "\<bar>xinc\<bar> * real (m_nrows g) + \<bar>yinc\<bar> * real (m_ncols g) + \<bar>xori\<bar> + \<bar>yori\<bar> \<le> 2 ^ 43 * min \<bar>xinc\<bar> \<bar>yinc\<bar>"
    and rc: "row < m_nrows g" "col < m_ncols g"
  shows "\<exists>p q. to_cdp_pos g row col = Inr p \<and> from_cdp g p = Some q \<and>
    lround (pt_x q) = int row \<and> lround (pt_y q) = int col"
proof -
  obtain t where t: "inverse_from_rotation xori yori xinc yinc rot = Some t"
    using inc by (simp add: inverse_from_rotation_def Let_def)
  have small: "n < 2 ^ 53" if "\<bar>d\<bar> * real k \<le> 2 ^ 43 * \<bar>d\<bar>" "n < k" "d \<noteq> 0" for d n k
  proof -
    have "real k \<le> 2 ^ 43" using that by (simp add: mult.commute)
    moreover have "(2::real) ^ 43 \<le> 2 ^ 53" by simp
    ultimately have "real n < 2 ^ 53" using that(2) by linarith
    then show ?thesis by (metis of_nat_less_iff of_nat_numeral of_nat_power)
  qed
  have pos: "0 \<le> \<bar>xinc\<bar> * real (m_nrows g)" "0 \<le> \<bar>yinc\<bar> * real (m_ncols g)" by simp_all
  have "2 ^ 43 * min \<bar>xinc\<bar> \<bar>yinc\<bar> \<le> 2 ^ 43 * \<bar>xinc\<bar>" "2 ^ 43 * min \<bar>xinc\<bar> \<bar>yinc\<bar> \<le> 2 ^ 43 * \<bar>yinc\<bar>" by simp_all
  then have "\<bar>xinc\<bar> * real (m_nrows g) \<le> 2 ^ 43 * \<bar>xinc\<bar>" "\<bar>yinc\<bar> * real (m_ncols g) \<le> 2 ^ 43 * \<bar>yinc\<bar>"
    using Q pos by linarith+
  then have lt: "row < 2 ^ 53" "col < 2 ^ 53" using small rc inc by blast+
  have "\<bar>xinc\<bar> * real row \<le> \<bar>xinc\<bar> * real (m_nrows g)" "\<bar>yinc\<bar> * real col \<le> \<bar>yinc\<bar> * real (m_ncols g)"
    using rc by (simp_all add: mult_left_mono)
  then have "\<bar>xinc\<bar> * real row + \<bar>yinc\<bar> * real col + \<bar>xori\<bar> + \<bar>yori\<bar> \<le> 2 ^ 43 * min \<bar>xinc\<bar> \<bar>yinc\<bar>"
    using Q by linarith
  note trip = grid_round_trip[OF inc lt this t refl]
  show ?thesis
    using rc trip[THEN lround_close[of _ "int _", simplified of_int_of_nat_eq]] t
    by (simp add: to_cdp_pos_def from_cdp_def g make_Grid_def Let_def)
qed

section \<open>Properties\<close>

text \<open>C24: The two transformations of a grid invert each other. For every rotation, the world
  coordinates of a grid point transform back to a position that rounds to exactly its row
  and column, in the \<^verbatim>\<open>double\<close> arithmetic of the code, as long as no coordinate exceeds
  \<open>2 ^ 43\<close> increments.\<close>

theorem cdp_round_trip:
  assumes "bg_grid g = make_Grid xori yori xinc yinc rot" and "xinc \<noteq> 0" and "yinc \<noteq> 0"
    and "\<bar>xinc\<bar> * real (m_nrows g) + \<bar>yinc\<bar> * real (m_ncols g) + \<bar>xori\<bar> + \<bar>yori\<bar> \<le> 2 ^ 43 * min \<bar>xinc\<bar> \<bar>yinc\<bar>"
    and "i < m_ncols g * m_nrows g"
  shows "\<exists>p q. to_cdp g i = Inr p \<and> from_cdp g p = Some q \<and>
    lround (pt_x q) = int (i div m_ncols g) \<and> lround (pt_y q) = int (i mod m_ncols g)"
  using bounded_grid_round_trip[OF assms(1-4) flat_index_split(1,2)[OF assms(5)]] assms(5)
  by (cases "m_ncols g = 0") (simp_all add: to_cdp_def Let_def)

theorem cdp_round_trip_witness:
  "\<exists>p q. to_cdp \<lparr>bg_grid = make_Grid 2 0 7 3 33, m_nrows = 3, m_ncols = 4\<rparr> 6 = Inr p \<and>
     from_cdp \<lparr>bg_grid = make_Grid 2 0 7 3 33, m_nrows = 3, m_ncols = 4\<rparr> p = Some q \<and>
     lround (pt_x q) = 1 \<and> lround (pt_y q) = 2"
  using cdp_round_trip[of "\<lparr>bg_grid = make_Grid 2 0 7 3 33, m_nrows = 3, m_ncols = 4\<rparr>" 2 0 7 3 33 6] by simp

text \<open>Access to the data of a surface. The flat index and the row and column it stands for
  reach the same element, for reading and for writing; a write changes that element only;
  every index at or beyond the size is refused.\<close>

theorem surface_access:
  assumes "wf_surface s"
  shows "if i < m_ncols (m_grid s) * m_nrows (m_grid s) then
      \<exists>r c s'. grid_row (m_grid s) i = Inr r \<and> grid_col (m_grid s) i = Inr c \<and>
        surface_get s i = Inr (m_data s ! i) \<and> surface_get_pair s (as_pair r c) = Inr (m_data s ! i) \<and>
        surface_ref s i = surface_ref_pair s (as_pair r c) \<and>
        surface_set s i v = Inr s' \<and> wf_surface s' \<and> surface_get s' i = Inr v \<and>
        list_all (\<lambda>j. j = i \<or> surface_get s' j = surface_get s j) [0..<surface_size s]
    else surface_get s i = Inl (std_exception ''const operator[]: index out of range'') \<and>
      surface_set s i v = Inl (std_exception ''operator[]: index out of range'') \<and>
      grid_row (m_grid s) i = Inl (std_exception ''Index out of range'')"
proof (cases "i < m_ncols (m_grid s) * m_nrows (m_grid s)")
  case True
  have size: "grid_size (m_grid s) = m_ncols (m_grid s) * m_nrows (m_grid s)" "surface_size s = length (m_data s)"
    "length (m_data s) = m_ncols (m_grid s) * m_nrows (m_grid s)" "m_ncols (m_grid s) * m_nrows (m_grid s) < 2 ^ 64"
    using assms wf_surface_size[OF assms] by (simp_all add: wf_surface_def grid_size_def)
  note ix = flat_index_split[OF True]
  have i: "i < surface_size s" "i < 2 ^ 64" using True size by simp_all
  define s' where "s' = s\<lparr>m_data := (m_data s)[i := v]\<rparr>"
  have s': "surface_set s i v = Inr s'" using surface_set_eq[OF assms i(1)] by (simp add: s'_def)
  have wf': "wf_surface s'" "surface_size s' = surface_size s"
    using assms by (simp_all add: s'_def wf_surface_def surface_size_def)
  have same: "list_all (\<lambda>j. j = i \<or> surface_get s' j = surface_get s j) [0..<surface_size s]"
    using surface_get_eq[OF assms] surface_get_eq[OF wf'(1)] wf'(2)
    by (auto simp: list_all_iff s'_def) (metis nth_list_update_neq)
  have "wrap64 (i div m_ncols (m_grid s) * m_ncols (m_grid s) + i mod m_ncols (m_grid s)) = i"
    unfolding ix(3) using i(2) by simp
  then have "surface_get_pair s (as_pair (i div m_ncols (m_grid s)) (i mod m_ncols (m_grid s))) = Inr (m_data s ! i)"
    "surface_ref_pair s (as_pair (i div m_ncols (m_grid s)) (i mod m_ncols (m_grid s))) = Inr i"
    using ix True size by (simp_all add: surface_get_pair_def surface_ref_pair_def as_pair_def element_def)
  then show ?thesis
    using True s' wf' same surface_get_eq[OF assms i(1)] surface_get_eq[OF wf'(1), of i] i size
    by (simp add: grid_row_def grid_col_def surface_ref_def s'_def)
next
  case False
  then show ?thesis
    using assms by (simp add: surface_get_def surface_set_def surface_ref_def grid_row_def grid_size_def wf_surface_def)
qed

theorem surface_access_witness:
  "surface_get (make_RegularSurface [1, 2, 3, 4, 5, 6] 2 3 (make_Grid 0 0 1 1 0) (- 999)) 4 = Inr 5 \<and>
   surface_get (make_RegularSurface [1, 2, 3, 4, 5, 6] 2 3 (make_Grid 0 0 1 1 0) (- 999)) 6 =
     Inl (std_exception ''const operator[]: index out of range'')"
proof -
  have "wf_surface (make_RegularSurface [1, 2, 3, 4, 5, 6] 2 3 (make_Grid 0 0 1 1 0) (- 999))"
    by (simp add: wf_surface_def make_RegularSurface_def)
  note t = surface_access[OF this]
  show ?thesis using t[of 4 0] t[of 6 0] by (auto simp: make_RegularSurface_def)
qed

end
