(* ===== verification/Subvolume.thy ===== *)
theory Subvolume
  imports Metadata Segments Surfaces
begin

text \<open>
  The part of the volume between two surfaces (\<^verbatim>\<open>SurfaceBoundedSubVolume\<close>, \<^verbatim>\<open>make_subvolume\<close>
  and \<^verbatim>\<open>resample\<close> of \<^verbatim>\<open>subvolume.hpp\<close> and \<^verbatim>\<open>subvolume.cpp\<close>). The layout of the data is fixed
  when the subvolume is made: one segment per point of the grid, the offset of each and the
  margins that differ from the preferred one. The storage is only reserved; its elements are
  \<open>None\<close> until a read writes them.

  The offsets are natural numbers. A segment has less than \<open>2 ^ 32\<close> samples and the loop
  counts the points of the grid in an \<^verbatim>\<open>int\<close>, so the sums stay below \<open>2 ^ 64\<close>.
\<close>

section \<open>State\<close>

record SurfaceBoundedSubVolume =
  sv_data :: "fp option list"
  m_segment_offsets :: "nat list"
  m_segment_top_margins :: "nat \<rightharpoonup> int"
  m_ref :: RegularSurface
  m_top :: RegularSurface
  m_bottom :: RegularSurface
  m_segment_blueprint :: RawSegmentBlueprint

definition horizontal_grid :: "SurfaceBoundedSubVolume \<Rightarrow> BoundedGrid" where
  "horizontal_grid sv = m_grid (m_ref sv)"

definition top_margin :: "SurfaceBoundedSubVolume \<Rightarrow> nat \<Rightarrow> int" where
  "top_margin sv index = (case m_segment_top_margins sv index of
       Some margin \<Rightarrow> margin
     | None \<Rightarrow> preferred_margin (m_segment_blueprint sv))"

text \<open>\<^verbatim>\<open>m_segment_offsets[index]\<close>, unchecked in the code.\<close>

definition offset_at :: "SurfaceBoundedSubVolume \<Rightarrow> nat \<Rightarrow> nat result" where
  "offset_at sv index = (if index < length (m_segment_offsets sv) then Inr (m_segment_offsets sv ! index)
     else Inl (undefined_behaviour ''read outside the segment offsets''))"

text \<open>The elements between the iterators at two offsets.\<close>

definition view :: "SurfaceBoundedSubVolume \<Rightarrow> nat \<Rightarrow> nat \<Rightarrow> fp option list" where
  "view sv from_offset to_offset = take (to_offset - from_offset) (drop from_offset (sv_data sv))"

text \<open>An exception that leaves a \<^verbatim>\<open>noexcept\<close> function ends the process.\<close>

definition noexcept :: "'a result \<Rightarrow> 'a result" where
  "noexcept r = (case r of Inl e \<Rightarrow> Inl (undefined_behaviour ''std::terminate'') | Inr x \<Rightarrow> Inr x)"

definition vertical_segment :: "SurfaceBoundedSubVolume \<Rightarrow> nat \<Rightarrow> RawSegment result" where
  "vertical_segment sv index = noexcept (
     rbind (surface_get (m_ref sv) index) (\<lambda>reference.
     rbind (surface_get (m_top sv) index) (\<lambda>top_boundary.
     rbind (surface_get (m_bottom sv) index) (\<lambda>bottom_boundary.
     rbind (offset_at sv index) (\<lambda>data_begin.
     rbind (offset_at sv (index + 1)) (\<lambda>data_end.
     Inr (make_RawSegment reference top_boundary bottom_boundary (top_margin sv index)
       (view sv data_begin data_end) (m_segment_blueprint sv))))))))"

definition sv_nsamples :: "SurfaceBoundedSubVolume \<Rightarrow> nat \<Rightarrow> nat \<Rightarrow> nat result" where
  "sv_nsamples sv from_segment to_segment =
     rbind (offset_at sv to_segment) (\<lambda>t.
     rbind (offset_at sv from_segment) (\<lambda>f. Inr (to_size_t (int t - int f))))"

definition is_empty :: "SurfaceBoundedSubVolume \<Rightarrow> nat \<Rightarrow> bool result" where
  "is_empty sv index =
     rbind (offset_at sv index) (\<lambda>a. rbind (offset_at sv (index + 1)) (\<lambda>b. Inr (a = b)))"

definition sv_fillvalue :: "SurfaceBoundedSubVolume \<Rightarrow> real" where
  "sv_fillvalue sv = m_fillvalue (m_ref sv)"

section \<open>make_subvolume\<close>

text \<open>
  \<^verbatim>\<open>calculate_margin\<close>: the largest margin, from the preferred one down, whose sample lies
  within the axis; zero when there is none.
\<close>

fun calculate_margin :: "(int \<Rightarrow> bool) \<Rightarrow> nat \<Rightarrow> int" where
  "calculate_margin inrange 0 = 0"
| "calculate_margin inrange (Suc margin) =
     (if inrange (int (Suc margin)) then int (Suc margin) else calculate_margin inrange margin)"

text \<open>
  The margins of one segment: \<^verbatim>\<open>std::int8_t\<close> values that convert to \<^verbatim>\<open>std::uint8_t\<close> where the
  blueprint takes them. The result is the top margin, whether it differs from the preferred
  one, and the bottom margin.
\<close>

definition segment_margins :: "RawSegmentBlueprint \<Rightarrow> Axis \<Rightarrow> real \<Rightarrow> real \<Rightarrow> (int \<times> bool \<times> int) result" where
  "segment_margins b sample_axis top_depth bottom_depth =
     (let top_m = calculate_margin (\<lambda>m. axis_inrange sample_axis (raw_top_sample_position b top_depth (to_u8 m)))
            (nat (preferred_margin b));
          is_top_margin_atypical = (top_m \<noteq> preferred_margin b);
          bottom_m = calculate_margin (\<lambda>m. axis_inrange sample_axis (raw_bottom_sample_position b bottom_depth (to_u8 m)))
            (nat (preferred_margin b));
          is_bottom_margin_atypical = (bottom_m \<noteq> preferred_margin b);
          min_samples = 4;
          seg_size = raw_size b top_depth bottom_depth (to_u8 top_m) (to_u8 bottom_m)
      in if seg_size < min_samples then
           if is_top_margin_atypical \<and> is_bottom_margin_atypical then
             Inl (std_exception (''Segment size is too small. Top margin: '' @ to_string top_m @
               '', bottom margin: '' @ to_string bottom_m))
           else
             let diff = int min_samples - int seg_size in
             if is_top_margin_atypical then Inr (top_m, True, to_i8 (bottom_m + diff))
             else Inr (to_i8 (top_m + diff), True, bottom_m)
         else Inr (top_m, is_top_margin_atypical, bottom_m))"

text \<open>
  The body of the loop, for one point of the grid: nothing for a segment without data, else
  the top margin, whether it is recorded, and the size of the segment.
\<close>

definition cell :: "MetadataHandle \<Rightarrow> RawSegmentBlueprint \<Rightarrow> RegularSurface \<Rightarrow> RegularSurface \<Rightarrow> RegularSurface \<Rightarrow> nat \<Rightarrow>
    (int \<times> bool \<times> nat) option result" where
  "cell m b reference top_s bottom_s i =
     rbind (surface_get reference i) (\<lambda>reference_depth.
     rbind (surface_get top_s i) (\<lambda>top_depth.
     rbind (surface_get bottom_s i) (\<lambda>bottom_depth.
     if reference_depth = m_fillvalue reference \<or> top_depth = m_fillvalue top_s \<or> bottom_depth = m_fillvalue bottom_s
     then Inr None
     else if reference_depth < top_depth \<or> reference_depth > bottom_depth
     then Inl (std_exception ''Planes are not ordered as top <= reference <= bottom'')
     else
       rbind (to_cdp (m_grid reference) i) (\<lambda>cdp.
       let ij = WorldToAnnotation (metadata_transformer m) (Vec3 (pt_x cdp) (pt_y cdp) 0) in
       if \<not> axis_inrange_with_margin (iline m) (f32 (vnth ij 0)) \<or>
          \<not> axis_inrange_with_margin (xline m) (f32 (vnth ij 1))
       then Inr None
       else if \<not> axis_inrange (sample m) top_depth \<or> \<not> axis_inrange (sample m) bottom_depth
       then
         rbind (grid_row (m_grid reference) i) (\<lambda>row.
         rbind (grid_col (m_grid reference) i) (\<lambda>col.
         Inl (std_exception (''Vertical window is out of vertical bounds at row: '' @ to_string (int row) @
           '' col:'' @ to_string (int col) @
           ''. Request: ['' @ to_string_with_precision top_depth 2 @
           '', '' @ to_string_with_precision bottom_depth 2 @
           '']. Seismic bounds: ['' @ to_string_with_precision (m_min (sample m)) 2 @
           '', '' @ to_string_with_precision (m_max (sample m)) 2 @ '']''))))
       else
         rbind (segment_margins b (sample m) top_depth bottom_depth) (\<lambda>(top_m, recorded, bottom_m).
         Inr (Some (top_m, recorded, raw_size b top_depth bottom_depth (to_u8 top_m) (to_u8 bottom_m))))))))"

text \<open>The loop writes the offset after segment \<open>i\<close>, and the margin when it is not the preferred one.\<close>

definition subvolume_step :: "MetadataHandle \<Rightarrow> RawSegmentBlueprint \<Rightarrow> RegularSurface \<Rightarrow> RegularSurface \<Rightarrow> RegularSurface \<Rightarrow>
    nat \<Rightarrow> nat list \<times> (nat \<rightharpoonup> int) \<Rightarrow> (nat list \<times> (nat \<rightharpoonup> int)) result" where
  "subvolume_step m b reference top_s bottom_s i st =
     (let (offsets, margins) = st in
      rbind (cell m b reference top_s bottom_s i) (\<lambda>r. case r of
         None \<Rightarrow> Inr (offsets[i + 1 := offsets ! i], margins)
       | Some (top_m, recorded, seg_size) \<Rightarrow>
           Inr (offsets[i + 1 := offsets ! i + seg_size],
                if recorded \<and> margins i = None then margins(i \<mapsto> to_u8 top_m) else margins)))"

definition make_subvolume ::
  "MetadataHandle \<Rightarrow> RegularSurface \<Rightarrow> RegularSurface \<Rightarrow> RegularSurface \<Rightarrow> SurfaceBoundedSubVolume result" where
  "make_subvolume m reference top_s bottom_s =
     rbind (guard (bounded_grid_eq (m_grid reference) (m_grid top_s) \<and> bounded_grid_eq (m_grid reference) (m_grid bottom_s))
       (std_exception ''Expected surfaces to have the same plane and size'')) (\<lambda>_.
     rbind (make_RawSegmentBlueprint (axis_stepsize (sample m)) (m_min (sample m))) (\<lambda>b.
     let n = grid_size (m_grid reference) in
     rbind (rfold (subvolume_step m b reference top_s bottom_s) [0..<n] (replicate (n + 1) 0, Map.empty))
       (\<lambda>(offsets, margins).
     Inr \<lparr>sv_data = replicate (offsets ! n) None, m_segment_offsets = offsets, m_segment_top_margins = margins,
          m_ref = reference, m_top = top_s, m_bottom = bottom_s, m_segment_blueprint = b\<rparr>)))"

section \<open>Segments of the subvolume\<close>

definition reinitialize_raw :: "SurfaceBoundedSubVolume \<Rightarrow> nat \<Rightarrow> RawSegment \<Rightarrow> RawSegment result" where
  "reinitialize_raw sv index segment =
     rbind (surface_get (m_ref sv) index) (\<lambda>reference.
     rbind (surface_get (m_top sv) index) (\<lambda>top_boundary.
     rbind (surface_get (m_bottom sv) index) (\<lambda>bottom_boundary.
     rbind (offset_at sv index) (\<lambda>data_begin.
     rbind (offset_at sv (index + 1)) (\<lambda>data_end.
     Inr (raw_segment_reinitialize reference top_boundary bottom_boundary (top_margin sv index)
       (view sv data_begin data_end) segment))))))"

definition reinitialize_resampled :: "SurfaceBoundedSubVolume \<Rightarrow> nat \<Rightarrow> ResampledSegment \<Rightarrow> ResampledSegment result" where
  "reinitialize_resampled sv index segment =
     rbind (surface_get (m_ref sv) index) (\<lambda>reference.
     rbind (surface_get (m_top sv) index) (\<lambda>top_boundary.
     rbind (surface_get (m_bottom sv) index) (\<lambda>bottom_boundary.
     Inr (resampled_segment_reinitialize reference top_boundary bottom_boundary segment))))"

text \<open>A \<^verbatim>\<open>float\<close> of the storage, converted to \<^verbatim>\<open>double\<close> without change.\<close>

definition read_sample :: "fp option \<Rightarrow> fp result" where
  "read_sample x = (case x of None \<Rightarrow> Inl (undefined_behaviour ''read of data that was not fetched'') | Some y \<Rightarrow> Inr y)"

definition resample :: "openvds \<Rightarrow> RawSegment \<Rightarrow> ResampledSegment \<Rightarrow> ResampledSegment result" where
  "resample v src_segment dst_segment =
     (let src_points = raw_segment_sample_positions src_segment;
          dst_points = resampled_segment_sample_positions dst_segment in
      rbind (rmap read_sample (rs_view src_segment)) (\<lambda>src_data.
      rbind (makima v src_points src_data) (\<lambda>spline.
      rbind (rmap spline dst_points) (\<lambda>values.
      if length values \<le> length (ds_data dst_segment)
      then Inr (dst_segment\<lparr>ds_data := values @ drop (length values) (ds_data dst_segment)\<rparr>)
      else Inl (undefined_behaviour ''write outside the segment data'')))))"

section \<open>Lemmas\<close>

text \<open>The loop computes the prefix sums of the cell sizes.\<close>

definition cell_size :: "(int \<times> bool \<times> nat) option \<Rightarrow> nat" where
  "cell_size r = (case r of None \<Rightarrow> 0 | Some (_, _, n) \<Rightarrow> n)"

definition cell_margin :: "(int \<times> bool \<times> nat) option \<Rightarrow> int option" where
  "cell_margin r = (case r of Some (top_m, True, _) \<Rightarrow> Some (to_u8 top_m) | _ \<Rightarrow> None)"

text \<open>The cells of the grid, when all of them are accepted, and the layout they give.\<close>

definition layout_of :: "(nat \<Rightarrow> (int \<times> bool \<times> nat) option) \<Rightarrow> nat \<Rightarrow> nat" where
  "layout_of c i = (\<Sum>j<i. cell_size (c j))"

lemma layout_of_mono: "i \<le> j \<Longrightarrow> layout_of c i \<le> layout_of c j"
  unfolding layout_of_def by (rule sum_mono2) auto

lemma layout_of_Suc: "layout_of c (Suc i) = layout_of c i + cell_size (c i)"
  by (simp add: layout_of_def)

lemma layout_of_0 [simp]: "layout_of c 0 = 0"
  by (simp add: layout_of_def)

definition laid_out :: "(nat \<Rightarrow> (int \<times> bool \<times> nat) option) \<Rightarrow> nat \<Rightarrow> nat \<Rightarrow> nat list \<times> (nat \<rightharpoonup> int) \<Rightarrow> bool" where
  "laid_out c n i st \<longleftrightarrow> length (fst st) = n + 1 \<and> (\<forall>j \<le> i. fst st ! j = layout_of c j) \<and>
     (\<forall>j. snd st j = (if j < i then cell_margin (c j) else None))"

lemma subvolume_step_laid_out:
  assumes "i < n" and "laid_out c n i st" and "cell m b reference top_s bottom_s i = Inr (c i)"
  shows "\<exists>st'. subvolume_step m b reference top_s bottom_s i st = Inr st' \<and> laid_out c n (Suc i) st'"
proof -
  obtain offsets margins where st: "st = (offsets, margins)" by (cases st)
  have l: "length offsets = n + 1" and o: "\<And>j. j \<le> i \<Longrightarrow> offsets ! j = layout_of c j"
    and mg: "\<And>j. margins j = (if j < i then cell_margin (c j) else None)"
    using assms(2) by (simp_all add: laid_out_def st)
  define margins' where "margins' = (case cell_margin (c i) of None \<Rightarrow> margins | Some tm \<Rightarrow> margins(i \<mapsto> tm))"
  have step: "subvolume_step m b reference top_s bottom_s i st =
      Inr (offsets[i + 1 := offsets ! i + cell_size (c i)], margins')"
    using assms(3) mg[of i]
    by (auto simp: subvolume_step_def st margins'_def cell_size_def cell_margin_def split: option.splits bool.splits)
  have "offsets[i + 1 := offsets ! i + cell_size (c i)] ! j = layout_of c j" if "j \<le> Suc i" for j
    using that l o assms(1) by (cases "j = Suc i") (simp_all add: layout_of_Suc)
  moreover have "margins' j = (if j < Suc i then cell_margin (c j) else None)" for j
    using mg[of j] by (auto simp: margins'_def less_Suc_eq split: option.splits)
  ultimately show ?thesis using l by (auto simp: step laid_out_def)
qed

lemma subvolume_loop:
  assumes "\<And>i. i < n \<Longrightarrow> cell m b reference top_s bottom_s i = Inr (c i)"
  shows "\<exists>st. rfold (subvolume_step m b reference top_s bottom_s) [0..<n] (replicate (n + 1) 0, Map.empty) = Inr st \<and>
    laid_out c n n st"
proof -
  have "\<exists>st. rfold (subvolume_step m b reference top_s bottom_s) [0..<k] (replicate (n + 1) 0, Map.empty) = Inr st \<and>
      laid_out c n k st" if "k \<le> n" for k
    using that
  proof (induction k)
    case (Suc k)
    then obtain st where st: "rfold (subvolume_step m b reference top_s bottom_s) [0..<k] (replicate (n + 1) 0, Map.empty) = Inr st"
      "laid_out c n k st" by auto
    then show ?case using subvolume_step_laid_out[OF _ st(2) assms[of k]] Suc.prems by (simp add: rfold_snoc)
  qed (auto simp: laid_out_def)
  then show ?thesis by blast
qed

text \<open>A subvolume is made exactly when every point of the grid is accepted.\<close>

lemma subvolume_step_fails:
  "subvolume_step m b reference top_s bottom_s i st = Inl e \<longleftrightarrow> cell m b reference top_s bottom_s i = Inl e"
  by (cases st) (auto simp: subvolume_step_def rbind_eq_Inl split: option.splits)

lemma subvolume_loop_fails:
  assumes "rfold (subvolume_step m b reference top_s bottom_s) [0..<n] st = Inl e"
  shows "\<exists>i < n. cell m b reference top_s bottom_s i = Inl e"
  using rfold_upt_failure[OF assms] by (metis subvolume_step_fails)

lemma subvolume_loop_cells:
  assumes "rfold (subvolume_step m b reference top_s bottom_s) [0..<n] st = Inr st'" and "i < n"
  shows "\<exists>r. cell m b reference top_s bottom_s i = Inr r"
proof (rule ccontr)
  assume "\<not> ?thesis"
  then obtain e where e: "cell m b reference top_s bottom_s i = Inl e" by (cases "cell m b reference top_s bottom_s i") auto
  have "[0..<n] = [0..<i] @ i # [Suc i..<n]" using assms(2) upt_add_eq_append[of 0 i "n - i"] by (simp add: upt_rec)
  then obtain st1 st2 where "subvolume_step m b reference top_s bottom_s i st1 = Inr st2"
    using assms(1) by (auto simp only: rfold_append rbind_eq_Inr rfold.simps)
  then show False using e subvolume_step_fails[of m b reference top_s bottom_s i st1 e] by auto
qed

subsection \<open>Margins\<close>

lemma calculate_margin_bounds: "0 \<le> calculate_margin f n \<and> calculate_margin f n \<le> int n"
  by (induction n) auto

text \<open>When the accepted margins are those up to a limit, the result is that limit.\<close>

lemma calculate_margin_limit:
  assumes "\<And>m. 0 < m \<Longrightarrow> m \<le> int n \<Longrightarrow> f m \<longleftrightarrow> m \<le> limit" and "0 \<le> limit"
  shows "calculate_margin f n = min (int n) limit"
  using assms(1)
proof (induction n)
  case (Suc n)
  then show ?case using Suc.prems[of "int (Suc n)"] assms(2) by auto
qed (use assms(2) in simp)

lemma raw_size_eq:
  assumes "0 < m_stepsize b" and "t \<le> u" and "int_sample b (m_zero_sample_offset b) t"
    and "int_sample b (m_zero_sample_offset b) u" and "0 \<le> tm" "tm < 256" "0 \<le> bm" "bm < 256"
  shows "int (raw_size b t u tm bm) = to_round_down_sample_number b (m_zero_sample_offset b) u -
    to_round_up_sample_number b (m_zero_sample_offset b) t + 1 + tm + bm"
    and "raw_size b t u tm bm < 2 ^ 32"
proof -
  define n where "n = blueprint_size b (m_zero_sample_offset b) t u"
  have n: "int n = to_round_down_sample_number b (m_zero_sample_offset b) u - to_round_up_sample_number b (m_zero_sample_offset b) t + 1"
    unfolding n_def by (rule blueprint_size_eq[OF assms(1-4)])
  have "int n \<le> 2 ^ 30 + 2 ^ 30 + 1"
    unfolding n using int_sample_bounds[OF assms(3)] int_sample_bounds[OF assms(4)] by linarith
  then have "n + nat tm + nat bm < 2 ^ 32" using assms(5-8) by simp
  moreover from this have "raw_size b t u tm bm = n + nat tm + nat bm" by (simp add: raw_size_def flip: n_def)
  ultimately show "int (raw_size b t u tm bm) = to_round_down_sample_number b (m_zero_sample_offset b) u -
    to_round_up_sample_number b (m_zero_sample_offset b) t + 1 + tm + bm" and "raw_size b t u tm bm < 2 ^ 32"
    using assms(5,7) n by simp_all
qed

text \<open>Every accepted pair of margins gives a segment that the interpolation accepts.\<close>

lemma segment_margins_size:
  assumes "0 < m_stepsize b" and "t \<le> u" and "int_sample b (m_zero_sample_offset b) t"
    and "int_sample b (m_zero_sample_offset b) u" and "segment_margins b a t u = Inr (tm, recorded, bm)"
  shows "0 \<le> tm" "tm \<le> 6" "0 \<le> bm" "bm \<le> 6" "4 \<le> raw_size b t u tm bm" "\<not> recorded \<Longrightarrow> tm = preferred_margin b"
proof -
  define tm0 where "tm0 = calculate_margin (\<lambda>m. axis_inrange a (raw_top_sample_position b t (to_u8 m))) 2"
  define bm0 where "bm0 = calculate_margin (\<lambda>m. axis_inrange a (raw_bottom_sample_position b u (to_u8 m))) 2"
  have m0: "0 \<le> tm0" "tm0 \<le> 2" "0 \<le> bm0" "bm0 \<le> 2"
    using calculate_margin_bounds[of _ 2] by (simp_all add: tm0_def bm0_def)
  note size = raw_size_eq[OF assms(1-4)]
  have s0: "int (raw_size b t u tm0 bm0) = to_round_down_sample_number b (m_zero_sample_offset b) u -
    to_round_up_sample_number b (m_zero_sample_offset b) t + 1 + tm0 + bm0" using size(1)[of tm0 bm0] m0 by simp
  consider (enough) "4 \<le> raw_size b t u tm0 bm0" "tm = tm0" "bm = bm0" "recorded \<longleftrightarrow> tm0 \<noteq> 2"
    | (bottom) "raw_size b t u tm0 bm0 < 4" "tm = tm0" "bm = bm0 + (4 - int (raw_size b t u tm0 bm0))" "recorded"
    | (top) "raw_size b t u tm0 bm0 < 4" "bm = bm0" "tm = tm0 + (4 - int (raw_size b t u tm0 bm0))" "recorded"
    using assms(5) m0
    by (auto simp: segment_margins_def preferred_margin_def Let_def tm0_def[symmetric] bm0_def[symmetric]
        split: if_splits)
  then have "0 \<le> tm \<and> tm \<le> 6 \<and> 0 \<le> bm \<and> bm \<le> 6 \<and> 4 \<le> raw_size b t u tm bm \<and> (\<not> recorded \<longrightarrow> tm = preferred_margin b)"
  proof cases
    case enough
    then show ?thesis using m0 by (simp add: preferred_margin_def)
  next
    case bottom
    then show ?thesis using m0 s0 size(1)[of tm bm] by simp
  next
    case top
    then show ?thesis using m0 s0 size(1)[of tm bm] by simp
  qed
  then show "0 \<le> tm" "tm \<le> 6" "0 \<le> bm" "bm \<le> 6" "4 \<le> raw_size b t u tm bm" "\<not> recorded \<Longrightarrow> tm = preferred_margin b"
    by blast+
qed

subsection \<open>Cells\<close>

text \<open>The blueprint of the raw data of an axis.\<close>

definition axis_blueprint :: "Axis \<Rightarrow> RawSegmentBlueprint" where
  "axis_blueprint a = \<lparr>m_stepsize = axis_stepsize a, m_zero_sample_offset = m_min a\<rparr>"

lemma make_axis_blueprint:
  "wf_axis a \<Longrightarrow> make_RawSegmentBlueprint (axis_stepsize a) (m_min a) = Inr (axis_blueprint a)"
  by (simp add: make_RawSegmentBlueprint_def make_SegmentBlueprint_def axis_blueprint_def wf_axis_def)

lemma axis_blueprint_simps [simp]:
  "m_stepsize (axis_blueprint a) = axis_stepsize a" "m_zero_sample_offset (axis_blueprint a) = m_min a"
  by (simp_all add: axis_blueprint_def)

lemma axis_int_sample:
  assumes "wf_axis a" and "m_nsamples a \<le> 2 ^ 22" and "axis_inrange a p"
  shows "int_sample (axis_blueprint a) (m_min a) p"
proof -
  have "real_of_int (m_nsamples a) \<le> 2 ^ 22" using assms(2) by simp
  then show ?thesis
    using voxelline_bounds[OF assms(1,2), of p] assms(3) by (simp add: int_sample_def axis_inrange_def)
qed

lemma cell_SomeE:
  assumes "cell m b reference top_s bottom_s i = Inr (Some (tm, recorded, n))"
  obtains r t u bm where "surface_get reference i = Inr r" "surface_get top_s i = Inr t" "surface_get bottom_s i = Inr u"
    "r \<noteq> m_fillvalue reference" "t \<noteq> m_fillvalue top_s" "u \<noteq> m_fillvalue bottom_s"
    "t \<le> r" "r \<le> u" "axis_inrange (sample m) t" "axis_inrange (sample m) u"
    "segment_margins b (sample m) t u = Inr (tm, recorded, bm)" "n = raw_size b t u (to_u8 tm) (to_u8 bm)"
  using assms by (auto simp: cell_def Let_def not_less split: if_splits)

text \<open>
  What a segment with data looks like: its surfaces are ordered and within the axis, it has
  at least four samples, and counted from its top margin it reaches beyond the bottom
  boundary.
\<close>

definition segment_ok :: "Axis \<Rightarrow> SurfaceBoundedSubVolume \<Rightarrow> nat \<Rightarrow> bool" where
  "segment_ok a sv i \<longleftrightarrow>
     (let r = m_data (m_ref sv) ! i; t = m_data (m_top sv) ! i; u = m_data (m_bottom sv) ! i;
          n = m_segment_offsets sv ! (i + 1) - m_segment_offsets sv ! i; b = m_segment_blueprint sv
      in n = 0 \<or>
         t \<le> r \<and> r \<le> u \<and> axis_inrange a t \<and> axis_inrange a u \<and> 4 \<le> n \<and> n < 2 ^ 32 \<and>
         0 \<le> top_margin sv i \<and> top_margin sv i \<le> 6 \<and>
         to_round_down_sample_number b (m_zero_sample_offset b) u
           \<le> to_round_up_sample_number b (m_zero_sample_offset b) t - top_margin sv i + int n - 1)"

definition wf_subvolume :: "Axis \<Rightarrow> SurfaceBoundedSubVolume \<Rightarrow> bool" where
  "wf_subvolume a sv \<longleftrightarrow> wf_surface (m_ref sv) \<and> wf_surface (m_top sv) \<and> wf_surface (m_bottom sv) \<and>
     bounded_grid_eq (m_grid (m_ref sv)) (m_grid (m_top sv)) \<and> bounded_grid_eq (m_grid (m_ref sv)) (m_grid (m_bottom sv)) \<and>
     m_segment_blueprint sv = axis_blueprint a \<and>
     length (m_segment_offsets sv) = surface_size (m_ref sv) + 1 \<and>
     m_segment_offsets sv ! 0 = 0 \<and> sorted (m_segment_offsets sv) \<and>
     m_segment_offsets sv ! surface_size (m_ref sv) < 2 ^ 64 \<and>
     length (sv_data sv) = m_segment_offsets sv ! surface_size (m_ref sv) \<and>
     list_all (segment_ok a sv) [0..<surface_size (m_ref sv)]"

text \<open>The layout that the cells \<open>c\<close> give is well formed.\<close>

lemma bounded_grid_eq_size: "bounded_grid_eq g h \<Longrightarrow> grid_size g = grid_size h"
  by (simp add: bounded_grid_eq_def grid_size_def)

lemma cell_segment_ok:
  assumes a: "wf_axis (sample m)" "m_nsamples (sample m) \<le> 2 ^ 22"
    and surfaces: "wf_surface reference" "wf_surface top_s" "wf_surface bottom_s"
      "bounded_grid_eq (m_grid reference) (m_grid top_s)" "bounded_grid_eq (m_grid reference) (m_grid bottom_s)"
    and i: "i < surface_size reference"
    and c: "cell m (axis_blueprint (sample m)) reference top_s bottom_s i = Inr r"
    and sv: "m_ref sv = reference" "m_top sv = top_s" "m_bottom sv = bottom_s"
      "m_segment_blueprint sv = axis_blueprint (sample m)" "m_segment_top_margins sv i = cell_margin r"
      "m_segment_offsets sv ! (i + 1) = m_segment_offsets sv ! i + cell_size r"
  shows "segment_ok (sample m) sv i" and "cell_size r < 2 ^ 32"
proof -
  have "segment_ok (sample m) sv i \<and> cell_size r < 2 ^ 32"
  proof (cases r)
    case None
    then show ?thesis using sv by (simp add: segment_ok_def cell_size_def Let_def)
  next
    case (Some x)
    then obtain tm recorded n where r: "r = Some (tm, recorded, n)" by (cases x) auto
    let ?b = "axis_blueprint (sample m)"
    obtain rd t u bm where get: "surface_get reference i = Inr rd" "surface_get top_s i = Inr t" "surface_get bottom_s i = Inr u"
      and ord: "t \<le> rd" "rd \<le> u" and rng: "axis_inrange (sample m) t" "axis_inrange (sample m) u"
      and mg: "segment_margins ?b (sample m) t u = Inr (tm, recorded, bm)"
      and n: "n = raw_size ?b t u (to_u8 tm) (to_u8 bm)"
      using c unfolding r by (rule cell_SomeE)
    have sizes: "surface_size top_s = surface_size reference" "surface_size bottom_s = surface_size reference"
      using surfaces(4,5)[THEN bounded_grid_eq_size] by (simp_all add: surface_size_def)
    have data: "m_data reference ! i = rd" "m_data top_s ! i = t" "m_data bottom_s ! i = u"
      using get surfaces(1-3) i sizes surface_get_eq by auto
    have s0: "0 < m_stepsize ?b" using a by (simp add: wf_axis_def)
    have tu: "t \<le> u" using ord by simp
    note isamp = axis_int_sample[OF a rng(1)] axis_int_sample[OF a rng(2)]
    note sm = segment_margins_size[OF s0 tu _ _ mg, simplified, OF isamp]
    have n': "n = raw_size ?b t u tm bm" using n sm by simp
    have size: "int n = to_round_down_sample_number ?b (m_min (sample m)) u - to_round_up_sample_number ?b (m_min (sample m)) t + 1 + tm + bm"
      and n32: "n < 2 ^ 32"
      unfolding n' using raw_size_eq[OF s0 tu, of tm bm, simplified, OF isamp] sm by simp_all
    have margin: "top_margin sv i = tm"
      using sv(5) sm by (cases recorded) (simp_all add: r top_margin_def cell_margin_def sv(4) preferred_margin_def)
    have "m_segment_offsets sv ! (i + 1) - m_segment_offsets sv ! i = n" using sv(6) by (simp add: r cell_size_def)
    then have "segment_ok (sample m) sv i"
      using ord rng sm n' n32 size unfolding segment_ok_def Let_def margin sv(1-4) data by simp
    then show ?thesis using n32 by (simp add: r cell_size_def)
  qed
  then show "segment_ok (sample m) sv i" and "cell_size r < 2 ^ 32" by blast+
qed

lemma make_subvolumeE:
  assumes "make_subvolume m reference top_s bottom_s = Inr sv" and "wf_axis (sample m)"
  obtains c where "bounded_grid_eq (m_grid reference) (m_grid top_s)" "bounded_grid_eq (m_grid reference) (m_grid bottom_s)"
    "\<And>i. i < surface_size reference \<Longrightarrow> cell m (axis_blueprint (sample m)) reference top_s bottom_s i = Inr (c i)"
    "laid_out c (surface_size reference) (surface_size reference) (m_segment_offsets sv, m_segment_top_margins sv)"
    "sv_data sv = replicate (layout_of c (surface_size reference)) None"
    "m_ref sv = reference" "m_top sv = top_s" "m_bottom sv = bottom_s" "m_segment_blueprint sv = axis_blueprint (sample m)"
proof -
  let ?b = "axis_blueprint (sample m)" and ?n = "surface_size reference"
  let ?loop = "rfold (subvolume_step m ?b reference top_s bottom_s) [0..<?n] (replicate (?n + 1) 0, Map.empty)"
  obtain st where grids: "bounded_grid_eq (m_grid reference) (m_grid top_s)" "bounded_grid_eq (m_grid reference) (m_grid bottom_s)"
    and st: "?loop = Inr st"
    and sv: "sv = \<lparr>sv_data = replicate (fst st ! ?n) None, m_segment_offsets = fst st, m_segment_top_margins = snd st,
          m_ref = reference, m_top = top_s, m_bottom = bottom_s, m_segment_blueprint = ?b\<rparr>"
    using assms(1) make_axis_blueprint[OF assms(2)]
    by (auto simp: make_subvolume_def Let_def surface_size_def split: prod.splits)
  define c where "c i = projr (cell m ?b reference top_s bottom_s i)" for i
  have c: "cell m ?b reference top_s bottom_s i = Inr (c i)" if "i < ?n" for i
    using subvolume_loop_cells[OF st that] by (auto simp: c_def)
  then have "laid_out c ?n ?n st" using subvolume_loop[of ?n m ?b reference top_s bottom_s c] st by auto
  then show ?thesis
    using that[of c] grids c by (auto simp: sv laid_out_def)
qed

lemma make_subvolumeI:
  assumes "wf_axis (sample m)"
    and "bounded_grid_eq (m_grid reference) (m_grid top_s)" and "bounded_grid_eq (m_grid reference) (m_grid bottom_s)"
    and "\<And>i. i < surface_size reference \<Longrightarrow> cell m (axis_blueprint (sample m)) reference top_s bottom_s i = Inr (c i)"
  shows "\<exists>sv. make_subvolume m reference top_s bottom_s = Inr sv \<and>
    m_segment_offsets sv = map (layout_of c) [0..<surface_size reference + 1] \<and>
    (\<forall>i < surface_size reference. m_segment_top_margins sv i = cell_margin (c i))"
proof -
  let ?n = "surface_size reference"
  obtain st where st: "rfold (subvolume_step m (axis_blueprint (sample m)) reference top_s bottom_s) [0..<?n]
      (replicate (?n + 1) 0, Map.empty) = Inr st" and laid: "laid_out c ?n ?n st"
    using subvolume_loop[of ?n, OF assms(4)] by blast
  have "fst st = map (layout_of c) [0..<?n + 1]"
    using laid by (intro nth_equalityI) (simp_all add: laid_out_def del: upt_Suc)
  then show ?thesis
    using st laid assms(2,3) make_axis_blueprint[OF assms(1)]
    by (auto simp: make_subvolume_def Let_def surface_size_def laid_out_def split: prod.splits)
qed

lemma make_subvolume_wf:
  assumes "wf_metadata m" and n: "m_nsamples (sample m) \<le> 2 ^ 22"
    and surfaces: "wf_surface reference" "wf_surface top_s" "wf_surface bottom_s" and size: "surface_size reference < 2 ^ 31"
    and ok: "make_subvolume m reference top_s bottom_s = Inr sv"
  shows "wf_subvolume (sample m) sv" and "sv_data sv = replicate (length (sv_data sv)) None"
    and "m_ref sv = reference" "m_top sv = top_s" "m_bottom sv = bottom_s"
proof -
  have wf: "wf_axis (sample m)" using wf_metadata_axes(3)[OF assms(1)] .
  obtain c where grids: "bounded_grid_eq (m_grid reference) (m_grid top_s)" "bounded_grid_eq (m_grid reference) (m_grid bottom_s)"
    and c: "\<And>i. i < surface_size reference \<Longrightarrow> cell m (axis_blueprint (sample m)) reference top_s bottom_s i = Inr (c i)"
    and laid: "laid_out c (surface_size reference) (surface_size reference) (m_segment_offsets sv, m_segment_top_margins sv)"
    and data: "sv_data sv = replicate (layout_of c (surface_size reference)) None"
    and sv: "m_ref sv = reference" "m_top sv = top_s" "m_bottom sv = bottom_s" "m_segment_blueprint sv = axis_blueprint (sample m)"
    using make_subvolumeE[OF ok wf] by metis
  have off: "length (m_segment_offsets sv) = surface_size reference + 1"
    "\<And>i. i \<le> surface_size reference \<Longrightarrow> m_segment_offsets sv ! i = layout_of c i"
    "\<And>i. i < surface_size reference \<Longrightarrow> m_segment_top_margins sv i = cell_margin (c i)"
    using laid by (simp_all add: laid_out_def)
  have seg: "segment_ok (sample m) sv i \<and> cell_size (c i) < 2 ^ 32" if "i < surface_size reference" for i
    using cell_segment_ok[OF wf n surfaces grids that c[OF that] sv off(3)[OF that]] off(2)[of i] off(2)[of "i + 1"] that
    by (simp add: layout_of_Suc)
  have "layout_of c k \<le> k * 2 ^ 32" if "k \<le> surface_size reference" for k
    using that
  proof (induction k)
    case (Suc k)
    then show ?case using seg[of k] by (simp add: layout_of_Suc)
  qed simp
  then have "layout_of c (surface_size reference) \<le> surface_size reference * 2 ^ 32" by simp
  also have "\<dots> < 2 ^ 31 * 2 ^ 32" using size by simp
  finally have "layout_of c (surface_size reference) < 2 ^ 64" by simp
  moreover have "sorted (m_segment_offsets sv)"
    using off by (simp add: sorted_iff_nth_mono layout_of_mono)
  ultimately show "wf_subvolume (sample m) sv"
    unfolding wf_subvolume_def sv using surfaces grids off seg data by (simp add: list_all_iff)
  show "sv_data sv = replicate (length (sv_data sv)) None" using data by simp
  show "m_ref sv = reference" "m_top sv = top_s" "m_bottom sv = bottom_s" using sv by simp_all
qed

subsection \<open>Segments on an axis of whole numbers\<close>

lemma whole_axis_quotient:
  assumes "whole_axis lo s a" and "axis_inrange a p"
  shows "0 \<le> f32 (f32 (p - m_min a) / axis_stepsize a)" and "f32 (f32 (p - m_min a) / axis_stepsize a) \<le> of_int (m_nsamples a - 1)"
    and "m_nsamples a - 1 \<le> 2 ^ 24"
proof -
  define hi where "hi = m_nsamples a - 1"
  have s: "0 < s" and steps: "axis_stepsize a = of_int s" and n: "2 \<le> m_nsamples a"
    and b: "\<bar>lo\<bar> \<le> 2 ^ 22" "\<bar>lo + s * hi\<bar> \<le> 2 ^ 22"
    using assms(1) whole_axis_stepsize[OF assms(1)] by (simp_all add: whole_axis_def hi_def)
  have ends: "m_min a = of_int lo" "m_max a = of_int (lo + s * hi)" using assms(1) by (simp_all add: whole_axis_def hi_def)
  have sh: "\<bar>s * hi\<bar> \<le> 2 ^ 24" using b by (simp add: abs_le_iff)
  have "0 \<le> hi" "hi \<le> s * hi" using s n mult_right_mono[of 1 s hi] by (simp_all add: hi_def)
  then have hib: "\<bar>hi\<bar> \<le> 2 ^ 24" using sh by linarith
  then show "m_nsamples a - 1 \<le> 2 ^ 24" by (simp add: hi_def)
  have "p - m_min a \<le> of_int (s * hi)" using assms(2) ends by (simp add: axis_inrange_def)
  then have "f32 (p - m_min a) \<le> of_int (s * hi)" using single.of_int[OF sh] by (rule single.upper)
  then have "f32 (p - m_min a) / of_int s \<le> of_int hi" using s by (simp add: divide_le_eq mult.commute)
  then show "f32 (f32 (p - m_min a) / axis_stepsize a) \<le> of_int (m_nsamples a - 1)"
    unfolding hi_def[symmetric] steps using single.of_int[OF hib] by (rule single.upper)
  show "0 \<le> f32 (f32 (p - m_min a) / axis_stepsize a)" using assms(2) s by (simp add: steps axis_inrange_def)
qed

lemma whole_axis_sample_numbers:
  assumes "whole_axis lo s a" and "axis_inrange a p"
  shows "0 \<le> to_round_up_sample_number (axis_blueprint a) (m_min a) p"
    "to_round_up_sample_number (axis_blueprint a) (m_min a) p \<le> m_nsamples a - 1"
    "0 \<le> to_round_down_sample_number (axis_blueprint a) (m_min a) p"
    "to_round_down_sample_number (axis_blueprint a) (m_min a) p \<le> m_nsamples a - 1"
    "int_sample (axis_blueprint a) (m_min a) p"
proof -
  define x where "x = f32 (f32 (p - m_min a) / m_stepsize (axis_blueprint a))"
  have x: "0 \<le> x" "x \<le> of_int (m_nsamples a - 1)" "m_nsamples a - 1 \<le> 2 ^ 24"
    using whole_axis_quotient[OF assms] by (simp_all add: x_def)
  then have fc: "0 \<le> \<lfloor>x\<rfloor>" "\<lceil>x\<rceil> \<le> m_nsamples a - 1" by (simp, intro ceiling_le)
  obtain k where k: "ceil_with_tolerance x = of_int k" "\<lfloor>x\<rfloor> \<le> k" "k \<le> \<lceil>x\<rceil>" by (rule ceil_with_tolerance_cases)
  obtain l where l: "floor_with_tolerance x = of_int l" "\<lfloor>x\<rfloor> \<le> l" "l \<le> \<lceil>x\<rceil>" by (rule floor_with_tolerance_cases)
  have "0 \<le> k" "k \<le> m_nsamples a - 1" "0 \<le> l" "l \<le> m_nsamples a - 1" using fc k l by linarith+
  then show "0 \<le> to_round_up_sample_number (axis_blueprint a) (m_min a) p"
    "to_round_up_sample_number (axis_blueprint a) (m_min a) p \<le> m_nsamples a - 1"
    "0 \<le> to_round_down_sample_number (axis_blueprint a) (m_min a) p"
    "to_round_down_sample_number (axis_blueprint a) (m_min a) p \<le> m_nsamples a - 1"
    unfolding to_round_up_sample_number_def to_round_down_sample_number_def x_def[symmetric] k(1) l(1) trunc_of_int
    by blast+
  have "real_of_int (m_nsamples a - 1) \<le> 2 ^ 24" using x(3) by (metis of_int_le_iff of_int_numeral of_int_power)
  moreover have "(2::real) ^ 24 \<le> 2 ^ 30" by simp
  ultimately show "int_sample (axis_blueprint a) (m_min a) p"
    unfolding int_sample_def x_def[symmetric] using x(1,2) by linarith
qed

lemma whole_axis_position:
  assumes "whole_axis lo s a" and n: "4 \<le> m_nsamples a" and k: "- 2 \<le> k" "k \<le> m_nsamples a + 1"
  shows "blueprint_sample_position_at (axis_blueprint a) k (m_min a) = of_int (lo + s * k)"
    and "axis_inrange a (of_int (lo + s * k)) \<longleftrightarrow> 0 \<le> k \<and> k \<le> m_nsamples a - 1"
proof -
  define hi where "hi = m_nsamples a - 1"
  have s: "0 < s" and steps: "axis_stepsize a = of_int s"
    and b: "\<bar>lo\<bar> \<le> 2 ^ 22" "\<bar>lo + s * hi\<bar> \<le> 2 ^ 22"
    using assms(1) whole_axis_stepsize[OF assms(1)] by (simp_all add: whole_axis_def hi_def)
  have ends: "m_min a = of_int lo" "m_max a = of_int (lo + s * hi)" using assms(1) by (simp_all add: whole_axis_def hi_def)
  have sh: "s * hi \<le> 8388608" "3 * s \<le> s * hi" "- 4194304 \<le> lo" "lo + s * hi \<le> 4194304"
    using b n s by (simp_all add: hi_def abs_le_iff)
  have sk: "- (2 * s) \<le> s * k" "s * k \<le> s * hi + 2 * s"
    using mult_left_mono[of "- 2" k s] mult_left_mono[of k "hi + 2" s] k s by (simp_all add: hi_def algebra_simps)
  then have skb: "\<bar>s * k\<bar> \<le> 16777216" "\<bar>lo + s * k\<bar> \<le> 16777216"
    using sh s by linarith+
  have "\<bar>k\<bar> \<le> \<bar>s * k\<bar>" using s by (simp add: abs_mult mult_le_cancel_right1)
  then have kb: "\<bar>k\<bar> \<le> 16777216" using skb(1) by simp
  show "blueprint_sample_position_at (axis_blueprint a) k (m_min a) = of_int (lo + s * k)"
    using f32_small_int[OF kb] f32_small_int[OF skb(1)] f32_small_int[OF skb(2)]
    by (simp add: blueprint_sample_position_at_def steps ends)
  have "0 \<le> s * k \<longleftrightarrow> 0 \<le> k" "s * k \<le> s * hi \<longleftrightarrow> k \<le> hi" using s by (simp_all add: zero_le_mult_iff)
  then show "axis_inrange a (of_int (lo + s * k)) \<longleftrightarrow> 0 \<le> k \<and> k \<le> m_nsamples a - 1"
    unfolding axis_inrange_def ends of_int_le_iff hi_def[symmetric] by simp
qed

lemma whole_axis_position_inrange:
  assumes "whole_axis lo s a" and "4 \<le> m_nsamples a" and "- 2 \<le> k" "k \<le> m_nsamples a + 1"
  shows "axis_inrange a (blueprint_sample_position_at (axis_blueprint a) k (m_min a)) \<longleftrightarrow> 0 \<le> k \<and> k \<le> m_nsamples a - 1"
  unfolding whole_axis_position(1)[OF assms] by (rule whole_axis_position(2)[OF assms])

text \<open>On such an axis the margins are as large as the axis allows.\<close>

lemma whole_axis_margins:
  assumes a: "whole_axis lo s a" and n: "4 \<le> m_nsamples a" and rng: "axis_inrange a t" "axis_inrange a u"
  defines "up \<equiv> to_round_up_sample_number (axis_blueprint a) (m_min a) t"
    and "down \<equiv> to_round_down_sample_number (axis_blueprint a) (m_min a) u"
  shows "calculate_margin (\<lambda>m. axis_inrange a (raw_top_sample_position (axis_blueprint a) t (to_u8 m))) 2 = min 2 up"
    and "calculate_margin (\<lambda>m. axis_inrange a (raw_bottom_sample_position (axis_blueprint a) u (to_u8 m))) 2
      = min 2 (m_nsamples a - 1 - down)"
proof -
  have ud: "0 \<le> up" "up \<le> m_nsamples a - 1" "0 \<le> down" "down \<le> m_nsamples a - 1"
    using whole_axis_sample_numbers[OF a rng(1)] whole_axis_sample_numbers[OF a rng(2)] by (simp_all add: up_def down_def)
  have m: "calculate_margin f 2 = min 2 limit" if "\<And>m. 0 < m \<Longrightarrow> m \<le> 2 \<Longrightarrow> f m \<longleftrightarrow> m \<le> limit" "0 \<le> limit" for f limit
    using calculate_margin_limit[of 2 f limit] that by simp
  show "calculate_margin (\<lambda>m. axis_inrange a (raw_top_sample_position (axis_blueprint a) t (to_u8 m))) 2 = min 2 up"
    using ud by (intro m) (simp_all add: raw_top_sample_position_def whole_axis_position_inrange[OF a n] flip: up_def)
  show "calculate_margin (\<lambda>m. axis_inrange a (raw_bottom_sample_position (axis_blueprint a) u (to_u8 m))) 2
      = min 2 (m_nsamples a - 1 - down)"
    using ud by (intro m) (auto simp: raw_bottom_sample_position_def whole_axis_position_inrange[OF a n] simp flip: down_def)
qed

lemma whole_axis_segment:
  assumes a: "whole_axis lo s a" and n: "4 \<le> m_nsamples a" and rng: "axis_inrange a t" "axis_inrange a u" and tu: "t \<le> u"
  defines "up \<equiv> to_round_up_sample_number (axis_blueprint a) (m_min a) t"
    and "down \<equiv> to_round_down_sample_number (axis_blueprint a) (m_min a) u"
  shows "\<exists>tm recorded bm. segment_margins (axis_blueprint a) a t u = Inr (tm, recorded, bm) \<and>
    0 \<le> up - tm \<and> down + bm \<le> m_nsamples a - 1 \<and> 0 \<le> tm \<and> tm \<le> 6 \<and> 0 \<le> bm \<and> bm \<le> 6"
proof -
  let ?b = "axis_blueprint a"
  note small = whole_axis_sample_numbers(5)[OF a rng(1)] whole_axis_sample_numbers(5)[OF a rng(2)]
  have s0: "0 < m_stepsize ?b" using whole_axis_wf[OF a] by (simp add: wf_axis_def)
  have ud: "0 \<le> up" "up \<le> m_nsamples a - 1" "0 \<le> down" "down \<le> m_nsamples a - 1" "up \<le> down + 1"
    using whole_axis_sample_numbers[OF a rng(1)] whole_axis_sample_numbers[OF a rng(2)] round_numbers_ordered[OF s0 tu]
    by (simp_all add: up_def down_def)
  note mg = whole_axis_margins[OF a n rng, folded up_def down_def]
  define tm0 where "tm0 = min 2 up"
  define bm0 where "bm0 = min 2 (m_nsamples a - 1 - down)"
  have m0: "0 \<le> tm0" "tm0 \<le> 2" "0 \<le> bm0" "bm0 \<le> 2" using ud by (simp_all add: tm0_def bm0_def)
  have size: "int (raw_size ?b t u tm0 bm0) = down - up + 1 + tm0 + bm0"
    using raw_size_eq(1)[OF s0 tu, of tm0 bm0, simplified, OF small] m0 by (simp add: up_def down_def)
  define sz where "sz = raw_size ?b t u tm0 bm0"
  have margins: "segment_margins ?b a t u =
      (if sz < 4 then
         if tm0 \<noteq> 2 \<and> bm0 \<noteq> 2 then
           Inl (std_exception (''Segment size is too small. Top margin: '' @ to_string tm0 @ '', bottom margin: '' @ to_string bm0))
         else if tm0 \<noteq> 2 then Inr (tm0, True, bm0 + (4 - int sz)) else Inr (tm0 + (4 - int sz), True, bm0)
       else Inr (tm0, tm0 \<noteq> 2, bm0))"
    using m0 by (simp add: segment_margins_def preferred_margin_def mg Let_def sz_def tm0_def[symmetric] bm0_def[symmetric])
  show ?thesis
    unfolding margins using ud m0 n size[folded sz_def] by (auto simp: tm0_def bm0_def min_def split: if_splits)
qed

text \<open>The grid points that are accepted on such an axis, without reference to sample numbers.\<close>

definition horizontally_inside :: "MetadataHandle \<Rightarrow> RegularSurface \<Rightarrow> nat \<Rightarrow> bool" where
  "horizontally_inside m reference i = (case to_cdp (m_grid reference) i of
       Inl _ \<Rightarrow> False
     | Inr cdp \<Rightarrow> let ij = WorldToAnnotation (metadata_transformer m) (Vec3 (pt_x cdp) (pt_y cdp) 0) in
         axis_inrange_with_margin (iline m) (f32 (vnth ij 0)) \<and> axis_inrange_with_margin (xline m) (f32 (vnth ij 1)))"

definition admissible :: "MetadataHandle \<Rightarrow> RegularSurface \<Rightarrow> RegularSurface \<Rightarrow> RegularSurface \<Rightarrow> nat \<Rightarrow> bool" where
  "admissible m reference top_s bottom_s i \<longleftrightarrow>
     (let r = m_data reference ! i; t = m_data top_s ! i; u = m_data bottom_s ! i in
      r = m_fillvalue reference \<or> t = m_fillvalue top_s \<or> u = m_fillvalue bottom_s \<or>
      t \<le> r \<and> r \<le> u \<and> (horizontally_inside m reference i \<longrightarrow> axis_inrange (sample m) t \<and> axis_inrange (sample m) u))"

lemma to_cdp_total:
  assumes "wf_surface s" and "i < surface_size s"
  shows "\<exists>p. to_cdp (m_grid s) i = Inr p"
proof -
  have "i < m_ncols (m_grid s) * m_nrows (m_grid s)" using assms by (simp add: wf_surface_def surface_size_def grid_size_def)
  then show ?thesis
    using flat_index_split[of i "m_ncols (m_grid s)" "m_nrows (m_grid s)"]
    by (cases "m_ncols (m_grid s) = 0") (simp_all add: to_cdp_def to_cdp_pos_def Let_def not_le)
qed

lemma cell_whole_axis:
  assumes a: "whole_axis lo s (sample m)" and n: "4 \<le> m_nsamples (sample m)"
    and surfaces: "wf_surface reference" "wf_surface top_s" "wf_surface bottom_s"
      "bounded_grid_eq (m_grid reference) (m_grid top_s)" "bounded_grid_eq (m_grid reference) (m_grid bottom_s)"
    and i: "i < surface_size reference"
  shows "(\<exists>r. cell m (axis_blueprint (sample m)) reference top_s bottom_s i = Inr r) \<longleftrightarrow> admissible m reference top_s bottom_s i"
proof -
  let ?r = "m_data reference ! i" and ?t = "m_data top_s ! i" and ?u = "m_data bottom_s ! i"
  have sizes: "surface_size top_s = surface_size reference" "surface_size bottom_s = surface_size reference"
    using surfaces(4,5)[THEN bounded_grid_eq_size] by (simp_all add: surface_size_def)
  have get: "surface_get reference i = Inr ?r" "surface_get top_s i = Inr ?t" "surface_get bottom_s i = Inr ?u"
    using surfaces(1-3) i sizes surface_get_eq by simp_all
  obtain cdp where cdp: "to_cdp (m_grid reference) i = Inr cdp" using to_cdp_total[OF surfaces(1) i] by blast
  have rc: "\<exists>r. grid_row (m_grid reference) i = Inr r" "\<exists>c. grid_col (m_grid reference) i = Inr c"
    using i by (simp_all add: grid_row_def grid_col_def surface_size_def)
  have margins: "\<exists>tm recorded bm. segment_margins (axis_blueprint (sample m)) (sample m) ?t ?u = Inr (tm, recorded, bm)"
    if "?t \<le> ?u" "axis_inrange (sample m) ?t" "axis_inrange (sample m) ?u"
    using whole_axis_segment[OF a n that(2,3,1)] by blast
  show ?thesis
    using margins rc
    by (auto simp: cell_def get cdp admissible_def horizontally_inside_def Let_def not_less split: if_splits)
qed

lemma cell_whole_axis_fits:
  assumes a: "whole_axis lo s (sample m)" and n: "4 \<le> m_nsamples (sample m)"
    and c: "cell m (axis_blueprint (sample m)) reference top_s bottom_s i = Inr (Some (tm, recorded, k))"
    and t: "surface_get top_s i = Inr t"
  shows "0 \<le> to_round_up_sample_number (axis_blueprint (sample m)) (m_min (sample m)) t - tm"
    and "to_round_up_sample_number (axis_blueprint (sample m)) (m_min (sample m)) t - tm + int k \<le> m_nsamples (sample m)"
    and "(case cell_margin (Some (tm, recorded, k)) of None \<Rightarrow> preferred_margin b | Some x \<Rightarrow> x) = tm"
proof -
  let ?a = "sample m" and ?b = "axis_blueprint (sample m)"
  obtain r u bm where ord: "t \<le> r" "r \<le> u" and rng: "axis_inrange ?a t" "axis_inrange ?a u"
    and mg: "segment_margins ?b ?a t u = Inr (tm, recorded, bm)" and k: "k = raw_size ?b t u (to_u8 tm) (to_u8 bm)"
    using cell_SomeE[OF c] t by (metis Inr_inject)
  have tu: "t \<le> u" using ord by simp
  have s0: "0 < m_stepsize ?b" using whole_axis_wf[OF a] by (simp add: wf_axis_def)
  note small = whole_axis_sample_numbers(5)[OF a rng(1)] whole_axis_sample_numbers(5)[OF a rng(2)]
  have "\<not> recorded \<Longrightarrow> tm = 2"
    using segment_margins_size(6)[OF s0 tu _ _ mg, simplified, OF small] by (simp add: preferred_margin_def)
  have fit: "0 \<le> to_round_up_sample_number ?b (m_min ?a) t - tm"
    "to_round_down_sample_number ?b (m_min ?a) u + bm \<le> m_nsamples ?a - 1" "0 \<le> tm" "tm \<le> 6" "0 \<le> bm" "bm \<le> 6"
    using whole_axis_segment[OF a n rng tu] mg by auto
  then show "0 \<le> to_round_up_sample_number ?b (m_min ?a) t - tm" by blast
  show "(case cell_margin (Some (tm, recorded, k)) of None \<Rightarrow> preferred_margin b | Some x \<Rightarrow> x) = tm"
    using \<open>\<not> recorded \<Longrightarrow> tm = 2\<close> fit(3,4) by (cases recorded) (simp_all add: cell_margin_def preferred_margin_def)
  have "int k = to_round_down_sample_number ?b (m_min ?a) u - to_round_up_sample_number ?b (m_min ?a) t + 1 + tm + bm"
    using raw_size_eq(1)[OF s0 tu, of tm bm, simplified, OF small] fit by (simp add: k)
  then show "to_round_up_sample_number ?b (m_min ?a) t - tm + int k \<le> m_nsamples ?a" using fit(2) by linarith
qed

subsection \<open>A concrete request\<close>

text \<open>A grid over the example survey, and surfaces over four of its points; the second point
  has no value.\<close>

definition example_grid :: Grid where
  "example_grid = make_Grid 1 10 2 1 0"

lemma example_grid_eq [code]:
  "example_grid = \<lparr>
     m_transformation = \<lparr>at00 = 2, at01 = 0, at02 = 1, at10 = 0, at11 = 1, at12 = 10\<rparr>,
     m_inverse_transformation = Some \<lparr>at00 = 1 / 2, at01 = 0, at02 = - 1 / 2, at10 = 0, at11 = 1, at12 = - 10\<rparr>\<rparr>"
proof -
  have "f64 (1 / 2) = 1 / 2" using double.half[of 1] by simp
  then show ?thesis
    by (simp add: example_grid_def make_Grid_def from_rotation_def inverse_from_rotation_def to_rad_def std_cos_def std_sin_def)
qed

definition example_surface :: "real list \<Rightarrow> RegularSurface" where
  "example_surface data = make_RegularSurface data 2 2 example_grid (- 999)"

lemma example_surfaces_wf:
  "length data = 4 \<Longrightarrow> wf_surface (example_surface data)" "surface_size (example_surface data) = 4"
  "bounded_grid_eq (m_grid (example_surface data)) (m_grid (example_surface data'))"
  by (simp_all add: wf_surface_def surface_size_def grid_size_def example_surface_def make_RegularSurface_def
      bounded_grid_eq_def grid_eq_def affine_eq_def)

lemma example_sample_axis:
  "sample (SingleMetadata example_single) = make_Axis 4 16 4 ''Sample'' ''ms'' 0"
  "wf_metadata (SingleMetadata example_single)"
  by code_simp+

definition example_cells :: "nat \<Rightarrow> (int \<times> bool \<times> nat) option" where
  "example_cells i = (if i = 0 then Some (1, True, 4) else if i = 1 then None else if i = 2 then Some (1, True, 4)
     else Some (3, True, 4))"

lemma example_cells:
  assumes "i < 4"
  shows "cell (SingleMetadata example_single) (axis_blueprint (sample (SingleMetadata example_single)))
    (example_surface [8, - 999, 9, 16]) (example_surface [8, 5, 5, 16]) (example_surface [8, 10, 15, 16]) i = Inr (example_cells i)"
proof -
  have "cell (SingleMetadata example_single) (axis_blueprint (make_Axis 4 16 4 ''Sample'' ''ms'' 0))
    (example_surface [8, - 999, 9, 16]) (example_surface [8, 5, 5, 16]) (example_surface [8, 10, 15, 16]) 0 = Inr (Some (1, True, 4))"
    "cell (SingleMetadata example_single) (axis_blueprint (make_Axis 4 16 4 ''Sample'' ''ms'' 0))
    (example_surface [8, - 999, 9, 16]) (example_surface [8, 5, 5, 16]) (example_surface [8, 10, 15, 16]) 1 = Inr None"
    "cell (SingleMetadata example_single) (axis_blueprint (make_Axis 4 16 4 ''Sample'' ''ms'' 0))
    (example_surface [8, - 999, 9, 16]) (example_surface [8, 5, 5, 16]) (example_surface [8, 10, 15, 16]) 2 = Inr (Some (1, True, 4))"
    "cell (SingleMetadata example_single) (axis_blueprint (make_Axis 4 16 4 ''Sample'' ''ms'' 0))
    (example_surface [8, - 999, 9, 16]) (example_surface [8, 5, 5, 16]) (example_surface [8, 10, 15, 16]) 3 = Inr (Some (3, True, 4))"
    by code_simp+
  moreover have "i = 0 \<or> i = 1 \<or> i = 2 \<or> i = 3" using assms by auto
  ultimately show ?thesis by (auto simp: example_cells_def example_sample_axis)
qed

lemma example_subvolume:
  obtains sv where "make_subvolume (SingleMetadata example_single) (example_surface [8, - 999, 9, 16])
      (example_surface [8, 5, 5, 16]) (example_surface [8, 10, 15, 16]) = Inr sv"
    and "m_segment_offsets sv = [0, 4, 4, 8, 12]" and "map (top_margin sv) [0, 2, 3] = [1, 1, 3]"
proof -
  have wf: "wf_axis (sample (SingleMetadata example_single))" using wf_metadata_axes(3)[OF example_sample_axis(2)] .
  obtain sv where sv: "make_subvolume (SingleMetadata example_single) (example_surface [8, - 999, 9, 16])
      (example_surface [8, 5, 5, 16]) (example_surface [8, 10, 15, 16]) = Inr sv"
    and o: "m_segment_offsets sv = map (layout_of example_cells) [0..<4 + 1]"
    and mg: "\<forall>i < 4. m_segment_top_margins sv i = cell_margin (example_cells i)"
    using make_subvolumeI[OF wf example_surfaces_wf(3,3), of "[8, - 999, 9, 16]" "[8, 5, 5, 16]" "[8, 10, 15, 16]" example_cells]
      example_cells by (auto simp: example_surfaces_wf(2))
  have "[0..<4 + 1] = [0, 1, 2, 3, 4::nat]" by (simp add: upt_rec)
  then have offsets: "m_segment_offsets sv = [0, 4, 4, 8, 12]"
    by (simp add: o layout_of_def example_cells_def cell_size_def lessThan_nat_numeral lessThan_Suc)
  have "map (top_margin sv) [0, 2, 3] = [1, 1, 3]"
    using mg by (simp add: top_margin_def cell_margin_def example_cells_def)
  with sv offsets show ?thesis by (rule that)
qed

section \<open>Properties\<close>

text \<open>C3: A subvolume that is made is laid out consistently. The offsets start at zero, never
  decrease and end at the size of the storage, which does not overflow; every segment with
  data has its surfaces in order and within the axis, has at least the four samples the
  interpolation needs, and reaches from its top margin at least to the bottom boundary.\<close>

theorem make_subvolume_layout:
  assumes "wf_metadata m" and "m_nsamples (sample m) \<le> 2 ^ 22"
    and "wf_surface reference" and "wf_surface top_s" and "wf_surface bottom_s" and "surface_size reference < 2 ^ 31"
    and "make_subvolume m reference top_s bottom_s = Inr sv"
  shows "wf_subvolume (sample m) sv"
  by (rule make_subvolume_wf(1)[OF assms])

theorem make_subvolume_layout_witness:
  "\<exists>sv. make_subvolume (SingleMetadata example_single) (example_surface [8, - 999, 9, 16])
      (example_surface [8, 5, 5, 16]) (example_surface [8, 10, 15, 16]) = Inr sv \<and>
    m_segment_offsets sv = [0, 4, 4, 8, 12] \<and> wf_subvolume (make_Axis 4 16 4 ''Sample'' ''ms'' 0) sv"
proof -
  obtain sv where sv: "make_subvolume (SingleMetadata example_single) (example_surface [8, - 999, 9, 16])
      (example_surface [8, 5, 5, 16]) (example_surface [8, 10, 15, 16]) = Inr sv"
    and o: "m_segment_offsets sv = [0, 4, 4, 8, 12]"
    by (rule example_subvolume)
  have "wf_subvolume (sample (SingleMetadata example_single)) sv"
    by (rule make_subvolume_layout[OF example_sample_axis(2) _ _ _ _ _ sv])
      (simp_all add: example_surfaces_wf example_sample_axis(1))
  then show ?thesis using sv o by (auto simp: example_sample_axis(1))
qed

text \<open>C20: Which requests are accepted, for a sample axis of whole numbers with at least four
  samples: those where at every grid point one surface has no value, or the surfaces are in
  order and lie within the axis wherever the point lies within the survey.\<close>

theorem make_subvolume_accepts:
  assumes "wf_metadata m" and "whole_axis lo s (sample m)" and "4 \<le> m_nsamples (sample m)"
    and "wf_surface reference" and "wf_surface top_s" and "wf_surface bottom_s"
    and "bounded_grid_eq (m_grid reference) (m_grid top_s)" and "bounded_grid_eq (m_grid reference) (m_grid bottom_s)"
  shows "(\<exists>sv. make_subvolume m reference top_s bottom_s = Inr sv) \<longleftrightarrow>
    list_all (admissible m reference top_s bottom_s) [0..<surface_size reference]"
proof -
  let ?b = "axis_blueprint (sample m)" and ?n = "surface_size reference"
  have wf: "wf_axis (sample m)" using wf_metadata_axes(3)[OF assms(1)] .
  note cells = cell_whole_axis[OF assms(2-8)]
  have "(\<exists>sv. make_subvolume m reference top_s bottom_s = Inr sv) \<longleftrightarrow>
      (\<exists>st. rfold (subvolume_step m ?b reference top_s bottom_s) [0..<?n] (replicate (?n + 1) 0, Map.empty) = Inr st)"
    using assms(7,8) make_axis_blueprint[OF wf]
    by (auto simp: make_subvolume_def Let_def surface_size_def result_simps split: prod.splits)
  also have "\<dots> \<longleftrightarrow> (\<forall>i < ?n. \<exists>r. cell m ?b reference top_s bottom_s i = Inr r)"
    using subvolume_loop_cells subvolume_loop[of ?n m ?b reference top_s bottom_s] by metis
  finally show ?thesis using cells by (auto simp: list_all_iff)
qed

theorem make_subvolume_accepts_witness:
  "(\<exists>sv. make_subvolume (SingleMetadata example_single) (example_surface [8, - 999, 9, 16])
      (example_surface [8, 5, 5, 16]) (example_surface [8, 10, 15, 16]) = Inr sv) \<longleftrightarrow>
    list_all (admissible (SingleMetadata example_single) (example_surface [8, - 999, 9, 16])
      (example_surface [8, 5, 5, 16]) (example_surface [8, 10, 15, 16])) [0..<4]"
  using make_subvolume_accepts[of "SingleMetadata example_single" 4 4 "example_surface [8, - 999, 9, 16]"
      "example_surface [8, 5, 5, 16]" "example_surface [8, 10, 15, 16]"]
  by (simp add: example_sample_axis example_surfaces_wf whole_axis_def)

text \<open>C2: Only samples of the axis are requested. For a sample axis of whole numbers with at
  least four samples, the samples of every segment, margins included, are samples of the
  axis.\<close>

theorem segments_within_axis:
  assumes "wf_metadata m" and "whole_axis lo s (sample m)" and "4 \<le> m_nsamples (sample m)"
    and "wf_surface reference" and "wf_surface top_s" and "wf_surface bottom_s"
    and "make_subvolume m reference top_s bottom_s = Inr sv"
    and "i < surface_size reference" and "m_segment_offsets sv ! i < m_segment_offsets sv ! (i + 1)"
  shows "let b = m_segment_blueprint sv;
             first = to_round_up_sample_number b (m_zero_sample_offset b) (m_data top_s ! i) - top_margin sv i
         in 0 \<le> first \<and> first + int (m_segment_offsets sv ! (i + 1) - m_segment_offsets sv ! i) \<le> m_nsamples (sample m)"
proof -
  have wf: "wf_axis (sample m)" using wf_metadata_axes(3)[OF assms(1)] .
  obtain c where grids: "bounded_grid_eq (m_grid reference) (m_grid top_s)"
    and c: "cell m (axis_blueprint (sample m)) reference top_s bottom_s i = Inr (c i)"
    and laid: "laid_out c (surface_size reference) (surface_size reference) (m_segment_offsets sv, m_segment_top_margins sv)"
    and sv: "m_segment_blueprint sv = axis_blueprint (sample m)"
    using make_subvolumeE[OF assms(7) wf] assms(8) by metis
  have off: "m_segment_offsets sv ! (i + 1) = m_segment_offsets sv ! i + cell_size (c i)"
    "m_segment_top_margins sv i = cell_margin (c i)"
    using laid assms(8) by (simp_all add: laid_out_def layout_of_Suc)
  then obtain tm recorded k where ci: "c i = Some (tm, recorded, k)"
    using assms(9) by (cases "c i") (auto simp: cell_size_def)
  have t: "surface_get top_s i = Inr (m_data top_s ! i)"
    using assms(5,8) bounded_grid_eq_size[OF grids] by (simp add: surface_get_eq surface_size_def)
  note fits = cell_whole_axis_fits[OF assms(2,3) c[unfolded ci] t]
  have "top_margin sv i = tm" using fits(3) by (simp add: top_margin_def off(2) ci)
  then show ?thesis using fits(1,2) off(1) by (simp add: Let_def sv ci cell_size_def)
qed

theorem segments_within_axis_witness:
  "\<exists>sv. make_subvolume (SingleMetadata example_single) (example_surface [8, - 999, 9, 16])
      (example_surface [8, 5, 5, 16]) (example_surface [8, 10, 15, 16]) = Inr sv \<and>
    (let b = m_segment_blueprint sv; first = to_round_up_sample_number b (m_zero_sample_offset b) 16 - top_margin sv 3
     in 0 \<le> first \<and> first + 4 \<le> 4)"
proof -
  obtain sv where sv: "make_subvolume (SingleMetadata example_single) (example_surface [8, - 999, 9, 16])
      (example_surface [8, 5, 5, 16]) (example_surface [8, 10, 15, 16]) = Inr sv"
    and o: "m_segment_offsets sv = [0, 4, 4, 8, 12]"
    by (rule example_subvolume)
  have whole: "whole_axis 4 4 (sample (SingleMetadata example_single))" "4 \<le> m_nsamples (sample (SingleMetadata example_single))"
    by (simp_all add: example_sample_axis whole_axis_def)
  note t = segments_within_axis[OF example_sample_axis(2) whole example_surfaces_wf(1) example_surfaces_wf(1)
      example_surfaces_wf(1) sv, of 3]
  show ?thesis
    using t sv
    by (simp add: Let_def o example_surfaces_wf(2)) (simp add: example_sample_axis example_surface_def make_RegularSurface_def)
qed


end
