(* ===== verification/Attributes.thy ===== *)
theory Attributes
  imports Subvolume "HOL-Library.Multiset"
begin

text \<open>
  The attributes of a vertical window (\<^verbatim>\<open>attribute.hpp\<close>, \<^verbatim>\<open>attribute.cpp\<close>): the computation of
  each of the seventeen attributes over the doubles of a resampled segment, the write to the
  attribute's buffer, and the loop over the segments of a subvolume. Sample values include
  the infinities and NaN. The algorithms of the C++ standard library the code calls
  (\<^verbatim>\<open>min_element\<close>, \<^verbatim>\<open>max_element\<close>, \<^verbatim>\<open>find_if\<close>, \<^verbatim>\<open>accumulate\<close>, \<^verbatim>\<open>nth_element\<close>) are modelled
  with their documented results; dereferencing the end of a sequence is undefined behaviour.
\<close>

section \<open>Sample values as a linear order\<close>

text \<open>The order of \<^verbatim>\<open><\<close> on the values that are not NaN, with NaN on top.\<close>

instantiation fp :: linorder
begin

fun less_eq_fp :: "fp \<Rightarrow> fp \<Rightarrow> bool" where
  "less_eq_fp (Fin x) (Fin y) = (x \<le> y)"
| "less_eq_fp NInf y = True"
| "less_eq_fp x NInf = False"
| "less_eq_fp x NaN = True"
| "less_eq_fp NaN y = False"
| "less_eq_fp x PInf = True"
| "less_eq_fp PInf y = False"

definition less_fp :: "fp \<Rightarrow> fp \<Rightarrow> bool" where
  "less_fp x y \<longleftrightarrow> \<not> y \<le> (x :: fp)"

instance
proof
  fix x y z :: fp
  show "x < y \<longleftrightarrow> x \<le> y \<and> \<not> y \<le> x" unfolding less_fp_def by (cases x; cases y) auto
  show "x \<le> x" by (cases x) auto
  show "x \<le> z" if "x \<le> y" "y \<le> z" using that by (cases x; cases y; cases z) auto
  show "x = y" if "x \<le> y" "y \<le> x" using that by (cases x; cases y) auto
  show "x \<le> y \<or> y \<le> x" by (cases x; cases y) auto
qed

end

lemma flt_less: "x \<noteq> NaN \<Longrightarrow> y \<noteq> NaN \<Longrightarrow> flt x y \<longleftrightarrow> x < y"
  by (cases x; cases y) (auto simp: less_fp_def)

lemma less_Fin [simp]: "Fin x < Fin y \<longleftrightarrow> x < y"
  by (auto simp: less_fp_def)

section \<open>Algorithms of the standard library\<close>

text \<open>Iterators into a sequence are indices; the length is the end.\<close>

definition min_element :: "('a \<Rightarrow> 'a \<Rightarrow> bool) \<Rightarrow> 'a list \<Rightarrow> nat" where
  "min_element lt xs = fold (\<lambda>i smallest. if lt (xs ! i) (xs ! smallest) then i else smallest) [1..<length xs] 0"

definition max_element :: "('a \<Rightarrow> 'a \<Rightarrow> bool) \<Rightarrow> 'a list \<Rightarrow> nat" where
  "max_element lt xs = fold (\<lambda>i largest. if lt (xs ! largest) (xs ! i) then i else largest) [1..<length xs] 0"

definition find_if :: "('a \<Rightarrow> bool) \<Rightarrow> 'a list \<Rightarrow> nat" where
  "find_if p xs = length (takeWhile (\<lambda>x. \<not> p x) xs)"

definition deref :: "'a list \<Rightarrow> nat \<Rightarrow> 'a result" where
  "deref xs i = (if i < length xs then Inr (xs ! i) else Inl (undefined_behaviour ''dereference of the end of a sequence''))"

definition accumulate :: "('b \<Rightarrow> 'a \<Rightarrow> 'b) \<Rightarrow> 'b \<Rightarrow> 'a list \<Rightarrow> 'b" where
  "accumulate f init xs = foldl f init xs"

text \<open>
  \<^verbatim>\<open>nth_element\<close> rearranges: the element at \<open>n\<close> is the one a sort would put there, nothing before
  it is greater and nothing after it is smaller. With NaN in the data the comparison is no
  weak order and the call has no meaning.
\<close>

definition nth_element_post :: "nat \<Rightarrow> fp list \<Rightarrow> fp list \<Rightarrow> bool" where
  "nth_element_post n xs ys \<longleftrightarrow> mset ys = mset xs \<and>
     (n < length ys \<longrightarrow> (\<forall>x \<in> set (take n ys). x \<le> ys ! n) \<and> (\<forall>x \<in> set (drop n ys). ys ! n \<le> x))"

definition nth_element :: "nat \<Rightarrow> fp list \<Rightarrow> fp list result" where
  "nth_element n xs = (if NaN \<in> set xs then Inl (undefined_behaviour ''nth_element on NaN'') else Inr (sort xs))"

section \<open>The attributes\<close>

abbreviation to_float :: "fp \<Rightarrow> fp" where
  "to_float x \<equiv> fp_cvt f32 x"

abbreviation size_double :: "ResampledSegment \<Rightarrow> fp" where
  "size_double s \<equiv> Fin (f64 (real (resampled_segment_size s)))"

definition compute_value :: "ResampledSegment \<Rightarrow> fp result" where
  "compute_value s = rbind (deref (ds_data s) (reference_index s)) (\<lambda>x. Inr (to_float x))"

definition compute_min :: "ResampledSegment \<Rightarrow> fp result" where
  "compute_min s = rbind (deref (ds_data s) (min_element flt (ds_data s))) (\<lambda>x. Inr (to_float x))"

definition compute_min_at :: "ResampledSegment \<Rightarrow> fp result" where
  "compute_min_at s =
     (let min_index = min_element flt (ds_data s) in Inr (Fin (resampled_segment_sample_position_at s min_index)))"

definition compute_max :: "ResampledSegment \<Rightarrow> fp result" where
  "compute_max s = rbind (deref (ds_data s) (max_element flt (ds_data s))) (\<lambda>x. Inr (to_float x))"

definition compute_max_at :: "ResampledSegment \<Rightarrow> fp result" where
  "compute_max_at s =
     (let max_index = max_element flt (ds_data s) in Inr (Fin (resampled_segment_sample_position_at s max_index)))"

definition max_abs :: "ResampledSegment \<Rightarrow> fp result" where
  "max_abs s =
     rbind (deref (ds_data s) (max_element (\<lambda>a b. flt (fp_abs a) (fp_abs b)) (ds_data s))) (\<lambda>mx. Inr (fp_abs mx))"

definition compute_max_abs :: "ResampledSegment \<Rightarrow> fp result" where
  "compute_max_abs s = rbind (max_abs s) (\<lambda>x. Inr (to_float x))"

definition compute_max_abs_at :: "ResampledSegment \<Rightarrow> fp result" where
  "compute_max_abs_at s =
     rbind (max_abs s) (\<lambda>max_abs_val.
     let max_abs_index = find_if (\<lambda>val. feq (fp_abs val) max_abs_val) (ds_data s)
     in Inr (Fin (resampled_segment_sample_position_at s max_abs_index)))"

definition compute_mean :: "ResampledSegment \<Rightarrow> fp result" where
  "compute_mean s =
     (let sum = accumulate (fadd f64) (Fin 0) (ds_data s) in Inr (to_float (fdiv f64 sum (size_double s))))"

definition compute_mean_abs :: "ResampledSegment \<Rightarrow> fp result" where
  "compute_mean_abs s =
     (let sum = accumulate (\<lambda>acc x. fadd f64 acc (fp_abs x)) (Fin 0) (ds_data s)
      in Inr (to_float (fdiv f64 sum (size_double s))))"

text \<open>The lambda of \<^verbatim>\<open>MeanPos\<close> and \<^verbatim>\<open>MeanNeg\<close> counts the values it adds.\<close>

definition counted_sum :: "(fp \<Rightarrow> bool) \<Rightarrow> fp list \<Rightarrow> fp \<times> int" where
  "counted_sum p xs = accumulate (\<lambda>(acc, count) x. if p x then (fadd f64 acc x, count + 1) else (acc, count)) (Fin 0, 0) xs"

definition compute_mean_pos :: "ResampledSegment \<Rightarrow> fp result" where
  "compute_mean_pos s =
     (let (sum, count) = counted_sum (\<lambda>x. flt (Fin 0) x) (ds_data s)
      in Inr (to_float (if count > 0 then fdiv f64 sum (Fin (of_int count)) else Fin 0)))"

definition compute_mean_neg :: "ResampledSegment \<Rightarrow> fp result" where
  "compute_mean_neg s =
     (let (sum, count) = counted_sum (\<lambda>x. flt x (Fin 0)) (ds_data s)
      in Inr (to_float (if count > 0 then fdiv f64 sum (Fin (of_int count)) else Fin 0)))"

text \<open>The median from a sequence that \<^verbatim>\<open>nth_element\<close> has rearranged around its middle.\<close>

definition median_of :: "nat \<Rightarrow> fp list \<Rightarrow> fp result" where
  "median_of n temp =
     (let middle_right = n div 2 in
      if n mod 2 = 0 then
        let max_left = max_element flt (take middle_right temp) in
        rbind (deref (take middle_right temp) max_left) (\<lambda>l.
        rbind (deref temp middle_right) (\<lambda>r. Inr (to_float (fdiv f64 (fadd f64 l r) (Fin 2)))))
      else rbind (deref temp middle_right) (\<lambda>r. Inr (to_float r)))"

definition compute_median :: "ResampledSegment \<Rightarrow> fp result" where
  "compute_median s =
     rbind (nth_element (resampled_segment_size s div 2) (ds_data s)) (median_of (resampled_segment_size s))"

text \<open>The sum of \<^verbatim>\<open>Rms\<close> is a \<^verbatim>\<open>float\<close>, and so is everything computed from it.\<close>

definition compute_rms :: "ResampledSegment \<Rightarrow> fp result" where
  "compute_rms s =
     (let sum = to_float (accumulate (\<lambda>a b. fadd f64 a (fmul f64 b b)) (Fin 0) (ds_data s))
      in Inr (fp_sqrt f32 (fdiv f32 sum (Fin (f32 (real (resampled_segment_size s)))))))"

definition variance :: "ResampledSegment \<Rightarrow> fp" where
  "variance s =
     (let sum = accumulate (fadd f64) (Fin 0) (ds_data s);
          mean = fdiv f64 sum (size_double s);
          stdSum = accumulate (\<lambda>a b. fadd f64 a (fmul f64 (fsub f64 b mean) (fsub f64 b mean))) (Fin 0) (ds_data s)
      in fdiv f64 stdSum (size_double s))"

definition compute_var :: "ResampledSegment \<Rightarrow> fp result" where
  "compute_var s = Inr (to_float (variance s))"

definition compute_sd :: "ResampledSegment \<Rightarrow> fp result" where
  "compute_sd s = Inr (to_float (fp_sqrt f64 (variance s)))"

definition compute_sum_pos :: "ResampledSegment \<Rightarrow> fp result" where
  "compute_sum_pos s =
     Inr (to_float (fold (\<lambda>x sum. if flt (Fin 0) x then fadd f64 sum x else sum) (ds_data s) (Fin 0)))"

definition compute_sum_neg :: "ResampledSegment \<Rightarrow> fp result" where
  "compute_sum_neg s =
     Inr (to_float (fold (\<lambda>x sum. if flt x (Fin 0) then fadd f64 sum x else sum) (ds_data s) (Fin 0)))"

text \<open>
  The virtual function \<^verbatim>\<open>compute\<close>. The enumerator of an attribute stands for its class; there
  is no class for a value outside the enumeration.
\<close>

fun compute :: "attribute \<Rightarrow> ResampledSegment \<Rightarrow> fp result" where
  "compute VALUE s = compute_value s"
| "compute attribute.MIN s = compute_min s"
| "compute MINAT s = compute_min_at s"
| "compute attribute.MAX s = compute_max s"
| "compute MAXAT s = compute_max_at s"
| "compute MAXABS s = compute_max_abs s"
| "compute MAXABSAT s = compute_max_abs_at s"
| "compute MEAN s = compute_mean s"
| "compute MEANABS s = compute_mean_abs s"
| "compute MEANPOS s = compute_mean_pos s"
| "compute MEANNEG s = compute_mean_neg s"
| "compute MEDIAN s = compute_median s"
| "compute RMS s = compute_rms s"
| "compute VAR s = compute_var s"
| "compute SD s = compute_sd s"
| "compute SUMPOS s = compute_sum_pos s"
| "compute SUMNEG s = compute_sum_neg s"
| "compute (other_attribute k) s = Inl (undefined_behaviour ''no such class'')"

section \<open>Writing\<close>

text \<open>
  An attribute map: its class, the buffer it writes to, in floats, and the size of the buffer
  in bytes that it was told.
\<close>

record AttributeMap =
  am_class :: attribute
  am_dst :: "fp list"
  am_size :: nat

definition am_write :: "fp \<Rightarrow> nat \<Rightarrow> AttributeMap \<Rightarrow> AttributeMap result" where
  "am_write val index a =
     (let offset = wrap64 (index * 4) in
      if offset \<ge> am_size a then Inl (std_exception ''Attempting write outside attribute buffer'')
      else if offset div 4 < length (am_dst a) then Inr (a\<lparr>am_dst := (am_dst a)[offset div 4 := val]\<rparr>)
      else Inl (undefined_behaviour ''write outside the attribute buffer''))"

section \<open>calc_attributes\<close>

text \<open>One segment: the two segment objects are reused from one to the next.\<close>

definition calc_step :: "openvds \<Rightarrow> SurfaceBoundedSubVolume \<Rightarrow> nat \<Rightarrow>
    RawSegment \<times> ResampledSegment \<times> AttributeMap list \<Rightarrow> (RawSegment \<times> ResampledSegment \<times> AttributeMap list) result" where
  "calc_step v sv i st =
     (let (src_segment, dst_segment, attrs) = st in
      rbind (is_empty sv i) (\<lambda>empty.
      if empty then
        rbind (rmap (am_write (Fin (sv_fillvalue sv)) i) attrs) (\<lambda>attrs'. Inr (src_segment, dst_segment, attrs'))
      else
        rbind (reinitialize_raw sv i src_segment) (\<lambda>src.
        rbind (reinitialize_resampled sv i dst_segment) (\<lambda>dst0.
        rbind (resample v src dst0) (\<lambda>dst.
        rbind (rmap (\<lambda>a. rbind (compute (am_class a) dst) (\<lambda>x. am_write x i a)) attrs) (\<lambda>attrs'.
        Inr (src, dst, attrs')))))))"

definition calc_attributes :: "openvds \<Rightarrow> SurfaceBoundedSubVolume \<Rightarrow> ResampledSegmentBlueprint \<Rightarrow> AttributeMap list \<Rightarrow>
    nat \<Rightarrow> nat \<Rightarrow> AttributeMap list result" where
  "calc_attributes v sv dst_segment_blueprint attrs from_index to_index =
     rbind (vertical_segment sv from_index) (\<lambda>src_segment.
     let dst_segment = make_ResampledSegment 0 0 0 dst_segment_blueprint in
     rbind (rfold (calc_step v sv) [from_index..<to_index] (src_segment, dst_segment, attrs)) (\<lambda>(_, _, attrs'). Inr attrs'))"

section \<open>Order statistics\<close>

text \<open>
  The searches are proved once for a comparison that orders the elements by a key. The
  attributes use two such comparisons, by value and by magnitude.
\<close>

locale keyed_order =
  fixes lt :: "'a \<Rightarrow> 'a \<Rightarrow> bool" and key :: "'a \<Rightarrow> 'k::linorder" and ok :: "'a \<Rightarrow> bool"
  assumes lt_key: "ok a \<Longrightarrow> ok b \<Longrightarrow> lt a b \<longleftrightarrow> key a < key b"
begin

lemma min_element_fold:
  assumes "list_all ok xs" and "0 < n" and "n \<le> length xs"
  defines "m \<equiv> fold (\<lambda>i smallest. if lt (xs ! i) (xs ! smallest) then i else smallest) [1..<n] 0"
  shows "m < n \<and> (\<forall>i < n. key (xs ! m) \<le> key (xs ! i)) \<and> (\<forall>i < m. key (xs ! m) < key (xs ! i))"
  using assms(2,3) unfolding m_def
proof (induction n)
  case (Suc n)
  show ?case
  proof (cases "n = 0")
    case False
    define k where "k = fold (\<lambda>i smallest. if lt (xs ! i) (xs ! smallest) then i else smallest) [1..<n] 0"
    have k: "k < n" "\<forall>i < n. key (xs ! k) \<le> key (xs ! i)" "\<forall>i < k. key (xs ! k) < key (xs ! i)"
      using Suc False by (simp_all add: k_def)
    have lt: "lt (xs ! n) (xs ! k) \<longleftrightarrow> key (xs ! n) < key (xs ! k)"
      using assms(1) k(1) Suc.prems by (intro lt_key) (auto simp: list_all_length)
    have step: "fold (\<lambda>i smallest. if lt (xs ! i) (xs ! smallest) then i else smallest) [1..<Suc n] 0 =
        (if key (xs ! n) < key (xs ! k) then n else k)"
      using False lt by (simp add: k_def)
    show ?thesis
      unfolding step using k by (auto simp: less_Suc_eq intro: less_imp_le order.strict_trans1 order.strict_trans2)
  qed simp
qed simp

lemma max_element_fold:
  assumes "list_all ok xs" and "0 < n" and "n \<le> length xs"
  defines "m \<equiv> fold (\<lambda>i largest. if lt (xs ! largest) (xs ! i) then i else largest) [1..<n] 0"
  shows "m < n \<and> (\<forall>i < n. key (xs ! i) \<le> key (xs ! m)) \<and> (\<forall>i < m. key (xs ! i) < key (xs ! m))"
  using assms(2,3) unfolding m_def
proof (induction n)
  case (Suc n)
  show ?case
  proof (cases "n = 0")
    case False
    define k where "k = fold (\<lambda>i largest. if lt (xs ! largest) (xs ! i) then i else largest) [1..<n] 0"
    have k: "k < n" "\<forall>i < n. key (xs ! i) \<le> key (xs ! k)" "\<forall>i < k. key (xs ! i) < key (xs ! k)"
      using Suc False by (simp_all add: k_def)
    have lt: "lt (xs ! k) (xs ! n) \<longleftrightarrow> key (xs ! k) < key (xs ! n)"
      using assms(1) k(1) Suc.prems by (intro lt_key) (auto simp: list_all_length)
    have step: "fold (\<lambda>i largest. if lt (xs ! largest) (xs ! i) then i else largest) [1..<Suc n] 0 =
        (if key (xs ! k) < key (xs ! n) then n else k)"
      using False lt by (simp add: k_def)
    show ?thesis
      unfolding step using k by (auto simp: less_Suc_eq intro: less_imp_le order.strict_trans1 order.strict_trans2)
  qed simp
qed simp

lemma min_element_first:
  assumes "list_all ok xs" and "xs \<noteq> []"
  shows "min_element lt xs < length xs" and "i < length xs \<Longrightarrow> key (xs ! min_element lt xs) \<le> key (xs ! i)"
    and "i < min_element lt xs \<Longrightarrow> key (xs ! min_element lt xs) < key (xs ! i)"
  using min_element_fold[OF assms(1), of "length xs"] assms(2) by (simp_all add: min_element_def)

lemma max_element_first:
  assumes "list_all ok xs" and "xs \<noteq> []"
  shows "max_element lt xs < length xs" and "i < length xs \<Longrightarrow> key (xs ! i) \<le> key (xs ! max_element lt xs)"
    and "i < max_element lt xs \<Longrightarrow> key (xs ! i) < key (xs ! max_element lt xs)"
  using max_element_fold[OF assms(1), of "length xs"] assms(2) by (simp_all add: max_element_def)

end

interpretation by_value: keyed_order flt "\<lambda>x. x" "\<lambda>x. x \<noteq> NaN"
  by unfold_locales (rule flt_less)

interpretation by_magnitude: keyed_order "\<lambda>a b. flt (fp_abs a) (fp_abs b)" fp_abs "\<lambda>x. x \<noteq> NaN"
proof unfold_locales
  fix a b :: fp
  assume "a \<noteq> NaN" "b \<noteq> NaN"
  then show "flt (fp_abs a) (fp_abs b) \<longleftrightarrow> fp_abs a < fp_abs b"
    by (intro flt_less) (cases a; cases b; simp)+
qed

lemma find_if_first:
  assumes "m < length xs" and "p (xs ! m)" and "\<And>i. i < m \<Longrightarrow> \<not> p (xs ! i)"
  shows "find_if p xs = m"
proof -
  have "takeWhile (\<lambda>x. \<not> p x) xs = take m xs" using assms by (intro takeWhile_eq_take_P_nth) auto
  then show ?thesis using assms(1) by (simp add: find_if_def)
qed

section \<open>Finite data\<close>

text \<open>On finite data every accumulation is an accumulation of reals.\<close>

lemma not_NaN_Fin [simp]: "list_all (\<lambda>x. x \<noteq> NaN) (map Fin xs)"
  by (simp add: list_all_iff)

lemma accumulate_Fin:
  assumes "\<And>a x. f (Fin a) (Fin x) = Fin (g a x)"
  shows "accumulate f (Fin a) (map Fin xs) = Fin (foldl g a xs)"
  unfolding accumulate_def using assms by (induction xs arbitrary: a) simp_all






text \<open>The error of a sum of \<open>n\<close> values is at most \<open>(1 + u) ^ n - 1\<close> times the sum of the magnitudes.\<close>

lemma f64_sum_error:
  "\<bar>foldl (\<lambda>a x. f64 (a + x)) a xs - (a + sum_list xs)\<bar>
    \<le> ((1 + u64) ^ length xs - 1) * (\<bar>a\<bar> + sum_list (map abs xs))"
proof (induction xs arbitrary: a)
  case (Cons x xs)
  define g where "g = (1 + u64) ^ length xs"
  define S where "S = sum_list (map abs xs)"
  have g: "1 \<le> g" using u64_bounds by (simp add: g_def)
  have S: "0 \<le> S" by (auto simp: S_def intro!: sum_list_nonneg)
  have e: "\<bar>f64 (a + x) - (a + x)\<bar> \<le> u64 * (\<bar>a\<bar> + \<bar>x\<bar>)" using f64_close0[of "a + x" "\<bar>a\<bar> + \<bar>x\<bar>"] by simp
  then have m: "\<bar>f64 (a + x)\<bar> \<le> (1 + u64) * (\<bar>a\<bar> + \<bar>x\<bar>)" by (simp add: distrib_right)
  have "\<bar>foldl (\<lambda>a x. f64 (a + x)) (f64 (a + x)) xs - (f64 (a + x) + sum_list xs)\<bar> \<le> (g - 1) * (\<bar>f64 (a + x)\<bar> + S)"
    using Cons.IH[of "f64 (a + x)"] by (simp add: g_def S_def)
  also have "\<dots> \<le> (g - 1) * ((1 + u64) * (\<bar>a\<bar> + \<bar>x\<bar>) + S)" using m g by (intro mult_left_mono) simp_all
  finally have "\<bar>foldl (\<lambda>a x. f64 (a + x)) (f64 (a + x)) xs - (a + x + sum_list xs)\<bar>
      \<le> (g - 1) * ((1 + u64) * (\<bar>a\<bar> + \<bar>x\<bar>) + S) + u64 * (\<bar>a\<bar> + \<bar>x\<bar>)" using e by linarith
  also have "\<dots> = (g * (1 + u64) - 1) * (\<bar>a\<bar> + \<bar>x\<bar>) + (g - 1) * S" by (simp add: algebra_simps)
  also have "\<dots> \<le> (g * (1 + u64) - 1) * (\<bar>a\<bar> + \<bar>x\<bar>) + (g * (1 + u64) - 1) * S"
    using g S u64_bounds by (intro add_left_mono mult_right_mono) (simp_all add: algebra_simps)
  finally show ?case by (simp add: g_def S_def algebra_simps)
qed simp

section \<open>The median\<close>

lemma sort_partition:
  assumes "n < length ys" and "\<forall>x \<in> set (take n ys). x \<le> ys ! n" and "\<forall>x \<in> set (drop n ys). ys ! n \<le> x"
  shows "sort ys = sort (take n ys) @ sort (drop n (ys :: 'a::linorder list))"
proof (rule properties_for_sort)
  show "mset (sort (take n ys) @ sort (drop n ys)) = mset ys"
    using arg_cong[OF append_take_drop_id[of n ys], of mset] by (simp only: mset_append mset_sort)
  show "sorted (sort (take n ys) @ sort (drop n ys))"
    using assms(2,3) by (auto simp: sorted_append intro: order_trans)
qed

lemma sort_first:
  assumes "y \<in> set zs" and "\<forall>x \<in> set zs. (y :: 'a::linorder) \<le> x"
  shows "sort zs ! 0 = y"
proof -
  have "y \<in> set (sort zs)" using assms(1) by simp
  then obtain i where i: "i < length (sort zs)" "sort zs ! i = y" by (auto simp only: in_set_conv_nth)
  then have "sort zs ! 0 \<in> set (sort zs)" by (intro nth_mem) (cases zs; simp)
  then have "y \<le> sort zs ! 0" using assms(2) by simp
  moreover have "sort zs ! 0 \<le> y" using sorted_nth_mono[of "sort zs" 0 i] i by simp
  ultimately show ?thesis by simp
qed

lemma sort_last:
  assumes "y \<in> set zs" and "\<forall>x \<in> set zs. x \<le> (y :: 'a::linorder)"
  shows "sort zs ! (length zs - 1) = y"
proof -
  have "y \<in> set (sort zs)" using assms(1) by simp
  then obtain i where i: "i < length (sort zs)" "sort zs ! i = y" by (auto simp only: in_set_conv_nth)
  then have "sort zs ! (length zs - 1) \<in> set (sort zs)" by (intro nth_mem) simp
  then have "sort zs ! (length zs - 1) \<le> y" using assms(2) by simp
  moreover have "y \<le> sort zs ! (length zs - 1)" using sorted_nth_mono[of "sort zs" i "length zs - 1"] i by simp
  ultimately show ?thesis by simp
qed

text \<open>Whatever rearrangement \<^verbatim>\<open>nth_element\<close> chooses, the elements the median is computed from are the same.\<close>

lemma nth_element_post_elements:
  assumes "nth_element_post n xs ys" and "n < length xs" and "NaN \<notin> set xs"
  shows "ys ! n = sort xs ! n" and "length ys = length xs"
    and "0 < n \<Longrightarrow> take n ys ! max_element flt (take n ys) = sort xs ! (n - 1)"
    and "0 < n \<Longrightarrow> max_element flt (take n ys) < n"
proof -
  have ms: "mset ys = mset xs" using assms(1) by (simp add: nth_element_post_def)
  then show len: "length ys = length xs" by (metis size_mset)
  then have n: "n < length ys" using assms(2) by simp
  have part: "\<forall>x \<in> set (take n ys). x \<le> ys ! n" "\<forall>x \<in> set (drop n ys). ys ! n \<le> x"
    using assms(1) n by (simp_all add: nth_element_post_def)
  have sorted: "sort xs = sort (take n ys) @ sort (drop n ys)"
    using sort_partition[OF n part] ms properties_for_sort[of "sort xs" ys] by simp
  have "ys ! n \<in> set (drop n ys)" using n by (metis Cons_nth_drop_Suc list.set_intros(1))
  then show "ys ! n = sort xs ! n" using sort_first[of "ys ! n" "drop n ys"] part(2) n by (simp add: sorted nth_append)
  assume pos: "0 < n"
  define zs where "zs = take n ys"
  have zs: "zs \<noteq> []" "length zs = n" "list_all (\<lambda>x. x \<noteq> NaN) zs"
    using pos n ms assms(3) by (auto simp: zs_def list_all_iff dest: in_set_takeD mset_eq_setD)
  note mx = by_value.max_element_first[OF zs(3,1)]
  show "max_element flt (take n ys) < n" using mx(1) zs(2) by (simp add: zs_def)
  have "sort zs ! (length zs - 1) = zs ! max_element flt zs"
    using mx(1,2) by (intro sort_last) (auto simp: in_set_conv_nth)
  then show "take n ys ! max_element flt (take n ys) = sort xs ! (n - 1)"
    using zs(2) pos by (simp add: sorted nth_append flip: zs_def)
qed

lemma median_of_post:
  assumes "nth_element_post (length xs div 2) xs ys" and "NaN \<notin> set xs" and "xs \<noteq> []"
  shows "median_of (length xs) ys = Inr (to_float
    (if even (length xs) then fdiv f64 (fadd f64 (sort xs ! (length xs div 2 - 1)) (sort xs ! (length xs div 2))) (Fin 2)
     else sort xs ! (length xs div 2)))"
proof -
  have n: "length xs div 2 < length xs" using assms(3) by (cases xs) auto
  note e = nth_element_post_elements[OF assms(1) n assms(2)]
  show ?thesis
  proof (cases "even (length xs)")
    case True
    then have "0 < length xs div 2" using assms(3) by (cases xs) (auto elim: evenE)
    then show ?thesis using True n e by (simp add: median_of_def Let_def deref_def even_iff_mod_2_eq_zero)
  next
    case False
    then show ?thesis using n e(1,2) by (simp add: median_of_def Let_def deref_def even_iff_mod_2_eq_zero)
  qed
qed

lemma nth_element_sort: "nth_element_post n xs (sort xs)"
proof -
  have "sort xs ! i \<le> sort xs ! n" if "i < n" "n < length xs" for i
    using that by (intro sorted_nth_mono) simp_all
  moreover have "sort xs ! n \<le> x" if "x \<in> set (drop n (sort xs))" "n < length xs" for x
    using that by (auto simp: in_set_conv_nth intro!: sorted_nth_mono)
  ultimately show ?thesis by (auto simp: nth_element_post_def in_set_conv_nth)
qed

section \<open>Attributes of finite data\<close>

lemma deref_map: "i < length xs \<Longrightarrow> deref (map f xs) i = Inr (f (xs ! i))"
  by (simp add: deref_def)

lemma min_element_Fin:
  assumes "xs \<noteq> []"
  shows "min_element flt (map Fin xs) = find_if (\<lambda>x. x = Min (set xs)) xs"
    and "min_element flt (map Fin xs) < length xs" and "xs ! min_element flt (map Fin xs) = Min (set xs)"
proof -
  define m where "m = min_element flt (map Fin xs)"
  have m: "m < length xs" "\<And>i. i < length xs \<Longrightarrow> xs ! m \<le> xs ! i" "\<And>i. i < m \<Longrightarrow> xs ! m < xs ! i"
    using by_value.min_element_first[of "map Fin xs"] assms by (auto simp: m_def)
  have min: "xs ! m = Min (set xs)" using m(1,2) by (intro Min_eqI[symmetric]) (auto simp: in_set_conv_nth)
  show "min_element flt (map Fin xs) < length xs" "xs ! min_element flt (map Fin xs) = Min (set xs)"
    using m(1) min by (simp_all add: m_def)
  show "min_element flt (map Fin xs) = find_if (\<lambda>x. x = Min (set xs)) xs"
    unfolding m_def[symmetric] using m min by (intro find_if_first[symmetric]) force+
qed

lemma max_element_Fin:
  assumes "xs \<noteq> []"
  shows "max_element flt (map Fin xs) = find_if (\<lambda>x. x = Max (set xs)) xs"
    and "max_element flt (map Fin xs) < length xs" and "xs ! max_element flt (map Fin xs) = Max (set xs)"
proof -
  define m where "m = max_element flt (map Fin xs)"
  have m: "m < length xs" "\<And>i. i < length xs \<Longrightarrow> xs ! i \<le> xs ! m" "\<And>i. i < m \<Longrightarrow> xs ! i < xs ! m"
    using by_value.max_element_first[of "map Fin xs"] assms by (auto simp: m_def)
  have max: "xs ! m = Max (set xs)" using m(1,2) by (intro Max_eqI[symmetric]) (auto simp: in_set_conv_nth)
  show "max_element flt (map Fin xs) < length xs" "xs ! max_element flt (map Fin xs) = Max (set xs)"
    using m(1) max by (simp_all add: m_def)
  show "max_element flt (map Fin xs) = find_if (\<lambda>x. x = Max (set xs)) xs"
    unfolding m_def[symmetric] using m max by (intro find_if_first[symmetric]) force+
qed

lemma max_abs_Fin:
  assumes "ds_data s = map Fin xs" and "xs \<noteq> []"
  shows "max_abs s = Inr (Fin (Max (abs ` set xs)))"
proof -
  define m where "m = max_element (\<lambda>a b. flt (fp_abs a) (fp_abs b)) (map Fin xs)"
  have m: "m < length xs" "\<And>i. i < length xs \<Longrightarrow> \<bar>xs ! i\<bar> \<le> \<bar>xs ! m\<bar>"
    using by_magnitude.max_element_first[of "map Fin xs"] assms(2) by (auto simp: m_def)
  then have "xs ! m \<in> set xs" "\<And>x. x \<in> set xs \<Longrightarrow> \<bar>x\<bar> \<le> \<bar>xs ! m\<bar>" by (auto simp: in_set_conv_nth)
  then have "\<bar>xs ! m\<bar> = Max (abs ` set xs)" by (intro Max_eqI[symmetric]) auto
  then show ?thesis using m(1) by (simp add: max_abs_def assms(1) deref_map flip: m_def)
qed

lemma find_if_Fin: "find_if p (map Fin xs) = find_if (\<lambda>x. p (Fin x)) xs"
  by (simp add: find_if_def takeWhile_map comp_def)

text \<open>Sums, means and the variance of finite data.\<close>

lemma mean_Fin:
  assumes "ds_data s = map Fin xs" and "xs \<noteq> []" and "resampled_segment_size s = length xs" and "length xs < 2 ^ 53"
  shows "size_double s = Fin (real (length xs))" and "real (length xs) \<noteq> 0"
    and "mu = f64 (foldl (\<lambda>a x. f64 (a + x)) 0 xs / real (length xs)) \<Longrightarrow>
      variance s = Fin (f64 (foldl (\<lambda>a x. f64 (a + f64 (f64 (x - mu) * f64 (x - mu)))) 0 xs / real (length xs)))"
proof -
  show size: "size_double s = Fin (real (length xs))" using double.of_nat[of "length xs"] assms(3,4) by simp
  show n: "real (length xs) \<noteq> 0" using assms(2) by simp
  assume mu: "mu = f64 (foldl (\<lambda>a x. f64 (a + x)) 0 xs / real (length xs))"
  have "accumulate (fadd f64) (Fin 0) (map Fin xs) = Fin (foldl (\<lambda>a x. f64 (a + x)) 0 xs)"
    by (rule accumulate_Fin) simp
  moreover have "accumulate (\<lambda>a b. fadd f64 a (fmul f64 (fsub f64 b (Fin mu)) (fsub f64 b (Fin mu)))) (Fin 0) (map Fin xs)
      = Fin (foldl (\<lambda>a x. f64 (a + f64 (f64 (x - mu) * f64 (x - mu)))) 0 xs)"
    by (rule accumulate_Fin) simp
  ultimately show "variance s = Fin (f64 (foldl (\<lambda>a x. f64 (a + f64 (f64 (x - mu) * f64 (x - mu)))) 0 xs / real (length xs)))"
    using n unfolding variance_def Let_def assms(1) size by (simp add: mu)
qed







lemma compute_mean_Fin:
  assumes "ds_data s = map Fin xs" and "xs \<noteq> []" and "resampled_segment_size s = length xs" and "length xs < 2 ^ 53"
  shows "compute_mean s = Inr (Fin (f32 (f64 (foldl (\<lambda>a x. f64 (a + x)) 0 xs / real (length xs)))))"
proof -
  have "accumulate (fadd f64) (Fin 0) (map Fin xs) = Fin (foldl (\<lambda>a x. f64 (a + x)) 0 xs)" by (rule accumulate_Fin) simp
  then show ?thesis using mean_Fin(1,2)[OF assms] by (simp add: compute_mean_def assms(1))
qed



section \<open>The loop over the segments\<close>

text \<open>
  The loop without the reuse of the segment objects: every grid point gets fresh ones.
\<close>

definition resampled_at :: "openvds \<Rightarrow> SurfaceBoundedSubVolume \<Rightarrow> ResampledSegmentBlueprint \<Rightarrow> nat \<Rightarrow> ResampledSegment result" where
  "resampled_at v sv b i =
     rbind (reinitialize_raw sv i (make_RawSegment 0 0 0 0 [] (m_segment_blueprint sv))) (\<lambda>src.
     rbind (reinitialize_resampled sv i (make_ResampledSegment 0 0 0 b)) (\<lambda>dst. resample v src dst))"

definition attributes_at :: "openvds \<Rightarrow> SurfaceBoundedSubVolume \<Rightarrow> ResampledSegmentBlueprint \<Rightarrow> nat \<Rightarrow>
    AttributeMap list \<Rightarrow> AttributeMap list result" where
  "attributes_at v sv b i attrs =
     rbind (is_empty sv i) (\<lambda>empty.
     if empty then rmap (am_write (Fin (sv_fillvalue sv)) i) attrs
     else rbind (resampled_at v sv b i) (\<lambda>dst. rmap (\<lambda>a. rbind (compute (am_class a) dst) (\<lambda>x. am_write x i a)) attrs))"

lemma raw_segment_reinitialize_fresh:
  "rs_blueprint s = rs_blueprint s' \<Longrightarrow>
    raw_segment_reinitialize r t u m w s = raw_segment_reinitialize r t u m w (s' :: RawSegment)"
  by (cases s; cases s') (simp add: raw_segment_reinitialize_def segment_reinitialize_def)

lemma reinitialize_raw_fresh:
  assumes "rs_blueprint s = rs_blueprint s'"
  shows "reinitialize_raw sv i s = reinitialize_raw sv i s'"
  using raw_segment_reinitialize_fresh[OF assms] by (simp add: reinitialize_raw_def)

lemma reinitialize_raw_blueprint: "reinitialize_raw sv i s = Inr s' \<Longrightarrow> rs_blueprint s' = rs_blueprint s"
  by (auto simp: reinitialize_raw_def raw_segment_reinitialize_def segment_reinitialize_def)

text \<open>Resampling overwrites all the data, so it does not depend on what was there.\<close>

lemma resample_overwrites:
  assumes "wf_resampled d"
  shows "resample v src d =
    rbind (rmap read_sample (rs_view src)) (\<lambda>src_data.
    rbind (makima v (raw_segment_sample_positions src) src_data) (\<lambda>spline.
    rbind (rmap spline (resampled_segment_sample_positions d)) (\<lambda>vals. Inr (d\<lparr>ds_data := vals\<rparr>))))"
proof -
  have "length vals = length (ds_data d)" if "rmap spline (resampled_segment_sample_positions d) = Inr vals" for spline vals
    using rmap_length[OF that] assms by (simp add: wf_resampled_def resampled_segment_sample_positions_def)
  note len = this
  show ?thesis unfolding resample_def Let_def by (intro rbind_cong refl) (frule len, simp)
qed

lemma resample_fresh:
  assumes "ds_blueprint d = ds_blueprint d'"
  shows "resample v src (resampled_segment_reinitialize r t u d) = resample v src (resampled_segment_reinitialize r t u d')"
proof -
  let ?e = "resampled_segment_reinitialize r t u d" and ?e' = "resampled_segment_reinitialize r t u d'"
  have same: "?e\<lparr>ds_data := xs\<rparr> = ?e'\<lparr>ds_data := xs\<rparr>" for xs
    using assms by (cases d; cases d') (simp add: resampled_segment_reinitialize_def segment_reinitialize_def Let_def)
  have "resampled_segment_sample_positions ?e = resampled_segment_sample_positions ?e'"
    using assms
    by (simp add: resampled_segment_sample_positions_def resampled_segment_size_def resampled_segment_top_sample_position_def
        resampled_segment_fields)
  then show ?thesis by (simp add: resample_overwrites wf_resampled_reinitialize same)
qed

lemma resample_blueprint: "resample v src d = Inr d' \<Longrightarrow> ds_blueprint d' = ds_blueprint d"
  by (auto simp: resample_def Let_def split: if_splits)

lemma resampled_at_eq:
  assumes "rs_blueprint src = m_segment_blueprint sv" and "ds_blueprint dst = b"
  shows "rbind (reinitialize_raw sv i src) (\<lambda>src'. rbind (reinitialize_resampled sv i dst) (resample v src')) = resampled_at v sv b i"
proof -
  have raw: "reinitialize_raw sv i src = reinitialize_raw sv i (make_RawSegment 0 0 0 0 [] (m_segment_blueprint sv))"
    using assms(1) by (intro reinitialize_raw_fresh) (simp add: make_RawSegment_def)
  have bp: "ds_blueprint dst = ds_blueprint (make_ResampledSegment 0 0 0 b)"
    using assms(2) by (simp add: make_ResampledSegment_def Let_def)
  show ?thesis
    unfolding resampled_at_def raw reinitialize_resampled_def rbind_assoc rbind_Inr
    by (intro rbind_cong refl) (rule resample_fresh[OF bp])
qed

text \<open>A step of the loop against a step without reuse.\<close>

lemma calc_step_fresh:
  assumes "rs_blueprint src = m_segment_blueprint sv" and "ds_blueprint dst = b"
  shows "(case calc_step v sv i (src, dst, attrs) of
      Inl e \<Rightarrow> attributes_at v sv b i attrs = Inl e
    | Inr (src', dst', attrs') \<Rightarrow> attributes_at v sv b i attrs = Inr attrs' \<and>
        rs_blueprint src' = m_segment_blueprint sv \<and> ds_blueprint dst' = b)"
proof -
  have fresh: "resampled_at v sv b i = rbind (reinitialize_raw sv i src) (\<lambda>src'. rbind (reinitialize_resampled sv i dst) (resample v src'))"
    using resampled_at_eq[OF assms] by simp
  have bp: "ds_blueprint d = b" if "reinitialize_resampled sv i dst = Inr d" for d
    using that assms(2) by (auto simp: reinitialize_resampled_def resampled_segment_fields)
  show ?thesis
    unfolding calc_step_def attributes_at_def fresh Let_def prod.case rbind_assoc
    using reinitialize_raw_blueprint[of sv i src] resample_blueprint[of v] bp assms
    by (auto simp: rbind_def split: sum.splits)
qed

lemma calc_loop_fresh:
  assumes "rs_blueprint src = m_segment_blueprint sv" and "ds_blueprint dst = b"
  shows "rbind (rfold (calc_step v sv) is (src, dst, attrs)) (\<lambda>(_, _, attrs'). Inr attrs') = rfold (attributes_at v sv b) is attrs"
  using assms
proof (induction "is" arbitrary: src dst attrs)
  case (Cons i "is")
  show ?case
  proof (cases "calc_step v sv i (src, dst, attrs)")
    case (Inl e)
    then show ?thesis using calc_step_fresh[OF Cons.prems, of v i attrs] by simp
  next
    case (Inr st)
    then obtain src' dst' attrs' where st: "st = (src', dst', attrs')" by (cases st) auto
    with Inr show ?thesis using calc_step_fresh[OF Cons.prems, of v i attrs] Cons.IH[of src' dst' attrs'] by simp
  qed
qed simp

lemma calc_attributes_fresh:
  "calc_attributes v sv b attrs from_index to_index =
    rbind (vertical_segment sv from_index) (\<lambda>_. rfold (attributes_at v sv b) [from_index..<to_index] attrs)"
proof (cases "vertical_segment sv from_index")
  case (Inr src)
  then have "rs_blueprint src = m_segment_blueprint sv"
    by (auto simp: vertical_segment_def noexcept_def make_RawSegment_def split: sum.splits)
  moreover have "ds_blueprint (make_ResampledSegment 0 0 0 b) = b" by (simp add: make_ResampledSegment_def Let_def)
  ultimately show ?thesis using calc_loop_fresh by (simp add: calc_attributes_def Inr Let_def)
qed (simp add: calc_attributes_def)

text \<open>What one attribute is at one grid point.\<close>

definition attribute_value :: "openvds \<Rightarrow> SurfaceBoundedSubVolume \<Rightarrow> ResampledSegmentBlueprint \<Rightarrow> attribute \<Rightarrow> nat \<Rightarrow> fp result" where
  "attribute_value v sv b k i =
     rbind (is_empty sv i) (\<lambda>empty.
     if empty then Inr (Fin (sv_fillvalue sv)) else rbind (resampled_at v sv b i) (compute k))"

text \<open>A map that was told the size of its buffer.\<close>

definition sized :: "AttributeMap \<Rightarrow> bool" where
  "sized a \<longleftrightarrow> am_size a = 4 * length (am_dst a)"

lemma am_write_sized:
  assumes "sized a" and "i < 2 ^ 62"
  shows "am_write x i a =
    (if i < length (am_dst a) then Inr (a\<lparr>am_dst := (am_dst a)[i := x]\<rparr>)
     else Inl (std_exception ''Attempting write outside attribute buffer''))"
proof -
  have "wrap64 (i * 4) = i * 4" using assms(2) by (simp add: wrap64_def)
  then show ?thesis using assms(1) by (auto simp: am_write_def sized_def Let_def)
qed

lemma attributes_at_value:
  assumes "attributes_at v sv b i attrs = Inr attrs'"
  shows "list_all2 (\<lambda>a a'. \<exists>x. attribute_value v sv b (am_class a) i = Inr x \<and> am_write x i a = Inr a') attrs attrs'"
proof -
  obtain e where e: "is_empty sv i = Inr e" using assms by (auto simp: attributes_at_def)
  show ?thesis
  proof (cases e)
    case True
    then show ?thesis using assms e by (simp add: attributes_at_def attribute_value_def rmap_eq_Inr)
  next
    case False
    then obtain d where "resampled_at v sv b i = Inr d" using assms e by (auto simp: attributes_at_def)
    then show ?thesis using assms e False
      by (auto simp: attributes_at_def attribute_value_def rmap_eq_Inr rbind_eq_Inr elim!: list_all2_mono)
  qed
qed

text \<open>The buffer of a map after the grid points \<open>from, ..., n - 1\<close>.\<close>

definition filled :: "openvds \<Rightarrow> SurfaceBoundedSubVolume \<Rightarrow> ResampledSegmentBlueprint \<Rightarrow> nat \<Rightarrow> nat \<Rightarrow>
    AttributeMap \<Rightarrow> AttributeMap \<Rightarrow> bool" where
  "filled v sv b l n a a' \<longleftrightarrow> am_class a' = am_class a \<and> am_size a' = am_size a \<and> length (am_dst a') = length (am_dst a) \<and>
     (\<forall>j < length (am_dst a). if l \<le> j \<and> j < n then attribute_value v sv b (am_class a) j = Inr (am_dst a' ! j)
        else am_dst a' ! j = am_dst a ! j)"

lemma filled_step:
  assumes "filled v sv b l n a a'" and "sized a" and "l \<le> n" and "n < 2 ^ 62"
    and "attribute_value v sv b (am_class a') n = Inr x" and "am_write x n a' = Inr a''"
  shows "filled v sv b l (Suc n) a a''"
proof -
  have "sized a'" using assms(1,2) by (simp add: filled_def sized_def)
  then have n: "n < length (am_dst a')" "a'' = a'\<lparr>am_dst := (am_dst a')[n := x]\<rparr>"
    using assms(4,6) by (auto simp: am_write_sized split: if_splits)
  show ?thesis
    using assms(1,3,5) n(1) unfolding n(2) filled_def by (auto simp: nth_list_update less_Suc_eq)
qed

lemma attributes_loop_filled:
  assumes "rfold (attributes_at v sv b) [l..<n] attrs = Inr attrs'" and "list_all sized attrs" and "l \<le> n" and "n < 2 ^ 62"
  shows "list_all2 (filled v sv b l n) attrs attrs'"
  using assms(3,1,4)
proof (induction n arbitrary: attrs' rule: dec_induct)
  case base
  then show ?case by (auto simp: list_all2_same filled_def)
next
  case (step n)
  then obtain mid where mid: "rfold (attributes_at v sv b) [l..<n] attrs = Inr mid" "attributes_at v sv b n mid = Inr attrs'"
    by (auto simp: rfold_snoc)
  then have IH: "list_all2 (filled v sv b l n) attrs mid" using step.IH step.prems by simp
  show ?case
    unfolding list_all2_conv_all_nth
  proof (intro conjI allI impI)
    note w = attributes_at_value[OF mid(2)]
    show "length attrs = length attrs'" using list_all2_lengthD[OF IH] list_all2_lengthD[OF w] by simp
    fix k assume k: "k < length attrs"
    then obtain x where "attribute_value v sv b (am_class (mid ! k)) n = Inr x" "am_write x n (mid ! k) = Inr (attrs' ! k)"
      using list_all2_nthD[OF w, of k] list_all2_lengthD[OF IH] by auto
    then show "filled v sv b l (Suc n) (attrs ! k) (attrs' ! k)"
      using list_all2_nthD[OF IH k] k assms(2) step by (intro filled_step[of v sv b l n "attrs ! k" "mid ! k" x]) (auto simp: list_all_length)
  qed
qed

section \<open>A concrete segment\<close>

text \<open>A subvolume over the example survey with data at its first grid point, and what the
  interpolation of the example library makes of it.\<close>

definition example_filled :: SurfaceBoundedSubVolume where
  "example_filled = \<lparr>sv_data = map (Some \<circ> Fin) [1, 2, 4, 3], m_segment_offsets = [0, 4, 4, 4, 4], m_segment_top_margins = [0 \<mapsto> 1],
     m_ref = example_surface [8, - 999, - 999, - 999], m_top = example_surface [8, 5, 5, 16],
     m_bottom = example_surface [12, 10, 15, 16], m_segment_blueprint = axis_blueprint (make_Axis 4 16 4 ''Sample'' ''ms'' 0)\<rparr>"

definition example_segment :: ResampledSegment where
  "example_segment = \<lparr>m_reference = 8, m_top_boundary = 8, m_bottom_boundary = 12, ds_blueprint = \<lparr>m_stepsize = 4\<rparr>,
     ds_data = [Fin 2, Fin 4]\<rparr>"

lemma example_segment_data:
  "ds_data example_segment = map Fin [2, 4]" "resampled_segment_size example_segment = 2"
  "resampled_segment_sample_positions example_segment = [8, 12]"
  by code_simp+

lemma example_resampled_data:
  "resampled_at example_vds (example_filled\<lparr>sv_data := map (Some \<circ> Fin) [a, b, c, d]\<rparr>) \<lparr>m_stepsize = 4\<rparr> 0 =
    Inr (example_segment\<lparr>ds_data := [Fin b, Fin c]\<rparr>)"
proof -
  let ?sv = "example_filled\<lparr>sv_data := map (Some \<circ> Fin) [a, b, c, d]\<rparr>"
  define raw where "raw = make_RawSegment 8 8 12 1 (map (Some \<circ> Fin) [a, b, c, d]) (axis_blueprint (make_Axis 4 16 4 ''Sample'' ''ms'' 0))"
  define dst where "dst = resampled_segment_reinitialize 8 8 12 (make_ResampledSegment 0 0 0 \<lparr>m_stepsize = 4\<rparr>)"
  have get: "surface_get (m_ref ?sv) 0 = Inr 8" "surface_get (m_top ?sv) 0 = Inr 8" "surface_get (m_bottom ?sv) 0 = Inr 12" by code_simp+
  have "reinitialize_raw ?sv 0 (make_RawSegment 0 0 0 0 [] (m_segment_blueprint ?sv)) = Inr raw"
    unfolding reinitialize_raw_def get
    by (simp add: offset_at_def view_def top_margin_def raw_def raw_segment_reinitialize_def segment_reinitialize_def make_RawSegment_def
        example_filled_def)
  moreover have "reinitialize_resampled ?sv 0 (make_ResampledSegment 0 0 0 \<lparr>m_stepsize = 4\<rparr>) = Inr dst"
    unfolding reinitialize_resampled_def get by (simp add: dst_def)
  moreover have "resampled_segment_sample_positions dst = resampled_segment_sample_positions example_segment"
    by (simp add: dst_def example_segment_def resampled_segment_sample_positions_def resampled_segment_size_def
        resampled_segment_top_sample_position_def resampled_segment_fields make_ResampledSegment_def Let_def)
  moreover have "raw_segment_sample_positions (make_RawSegment 8 8 12 1 [None, None, None, None]
      (axis_blueprint (make_Axis 4 16 4 ''Sample'' ''ms'' 0))) = [4, 8, 12, 16]"
    by code_simp
  then have "raw_segment_sample_positions raw = [4, 8, 12, 16]"
    by (simp add: raw_def raw_segment_sample_positions_def raw_segment_size_def
        raw_segment_top_sample_position_def make_RawSegment_def)
  moreover have "rmap read_sample (rs_view raw) = Inr (map Fin [a, b, c, d])"
    by (simp add: raw_def make_RawSegment_def read_sample_def)
  moreover have "dst\<lparr>ds_data := [Fin b, Fin c]\<rparr> = example_segment\<lparr>ds_data := [Fin b, Fin c]\<rparr>"
    by (simp add: dst_def example_segment_def resampled_segment_reinitialize_def segment_reinitialize_def make_ResampledSegment_def Let_def)
  moreover have "wf_resampled dst" by (simp add: dst_def wf_resampled_reinitialize)
  ultimately show ?thesis
    unfolding resampled_at_def by (simp add: resample_overwrites example_segment_data example_vds_def)
qed

lemma example_resampled: "resampled_at example_vds example_filled \<lparr>m_stepsize = 4\<rparr> 0 = Inr example_segment"
  using example_resampled_data[of 1 2 4 3] by (simp add: example_filled_def example_segment_def)

lemma example_maximum:
  "calc_attributes example_vds example_filled \<lparr>m_stepsize = 4\<rparr> [\<lparr>am_class = attribute.MAX, am_dst = [NaN, NaN, NaN, NaN], am_size = 16\<rparr>] 0 2 =
    Inr [\<lparr>am_class = attribute.MAX, am_dst = [Fin 4, Fin (- 999), NaN, NaN], am_size = 16\<rparr>]"
proof -
  have "compute_max example_segment = Inr (Fin 4)" by code_simp
  moreover have "is_empty example_filled 0 = Inr False" "is_empty example_filled 1 = Inr True"
    "sv_fillvalue example_filled = - 999" by code_simp+
  moreover have "(case vertical_segment example_filled 0 of Inl _ \<Rightarrow> False | Inr _ \<Rightarrow> True)" by code_simp
  then obtain seg where "vertical_segment example_filled 0 = Inr seg" by (auto split: sum.splits)
  moreover have "[0..<2] = [0, 1::nat]" by (simp add: upt_rec)
  ultimately show ?thesis
    by (simp add: calc_attributes_fresh attributes_at_def example_resampled am_write_sized sized_def)
qed

section \<open>Properties\<close>

text \<open>C31: On finite data the smallest, largest and largest absolute value are those of the set of
  samples, rounded to single precision, and the positions reported for them are those of the
  first sample that attains them.\<close>

theorem order_attributes:
  assumes "ds_data s = map Fin xs" and "xs \<noteq> []"
  shows "compute attribute.MIN s = Inr (Fin (f32 (Min (set xs)))) \<and>
    compute MINAT s = Inr (Fin (resampled_segment_sample_position_at s (find_if (\<lambda>x. x = Min (set xs)) xs))) \<and>
    compute attribute.MAX s = Inr (Fin (f32 (Max (set xs)))) \<and>
    compute MAXAT s = Inr (Fin (resampled_segment_sample_position_at s (find_if (\<lambda>x. x = Max (set xs)) xs))) \<and>
    compute MAXABS s = Inr (Fin (f32 (Max (abs ` set xs)))) \<and>
    compute MAXABSAT s = Inr (Fin (resampled_segment_sample_position_at s (find_if (\<lambda>x. \<bar>x\<bar> = Max (abs ` set xs)) xs)))"
  using min_element_Fin[OF assms(2)] max_element_Fin[OF assms(2)] max_abs_Fin[OF assms]
  by (simp add: compute_min_def compute_min_at_def compute_max_def compute_max_at_def compute_max_abs_def
      compute_max_abs_at_def assms(1) deref_map find_if_Fin)

theorem order_attributes_witness:
  "compute MAXABSAT example_segment =
    Inr (Fin (resampled_segment_sample_position_at example_segment (find_if (\<lambda>x. \<bar>x\<bar> = Max (abs ` set [2, 4])) [2, 4 :: real])))"
  using order_attributes[OF example_segment_data(1)] by blast

text \<open>C32: The median does not depend on how \<^verbatim>\<open>nth_element\<close> rearranges the samples around the middle:
  for every rearrangement its contract allows, the value is the middle element of the sorted
  samples, or the mean of the two middle ones.\<close>

theorem median_any_rearrangement:
  assumes "nth_element_post (length (ds_data s) div 2) (ds_data s) ys" and "NaN \<notin> set (ds_data s)" and "ds_data s \<noteq> []"
    and "wf_resampled s"
  shows "compute MEDIAN s = median_of (resampled_segment_size s) ys \<and>
    compute MEDIAN s = Inr (to_float (let m = sort (ds_data s); n = length m in
      if even n then fdiv f64 (fadd f64 (m ! (n div 2 - 1)) (m ! (n div 2))) (Fin 2) else m ! (n div 2)))"
proof -
  have size: "resampled_segment_size s = length (ds_data s)" using assms(4) by (simp add: wf_resampled_def)
  have "compute MEDIAN s = median_of (length (ds_data s)) (sort (ds_data s))"
    using assms(2,3) by (simp add: compute_median_def size nth_element_def)
  with median_of_post[OF assms(1-3)] median_of_post[OF nth_element_sort assms(2,3)]
  show ?thesis by (simp add: size Let_def)
qed

theorem median_any_rearrangement_witness:
  "compute MEDIAN example_segment = median_of (resampled_segment_size example_segment) [Fin 2, Fin 4]"
proof (rule conjunct1[OF median_any_rearrangement])
  show "nth_element_post (length (ds_data example_segment) div 2) (ds_data example_segment) [Fin 2, Fin 4]"
    by (simp add: example_segment_data nth_element_post_def)
  show "wf_resampled example_segment" by (simp add: wf_resampled_def example_segment_data)
qed (simp_all add: example_segment_data)

text \<open>C33: The mean is within the accumulated rounding of the true mean: at most
  \<open>(1 + u) ^ (n + 1) - 1\<close> times the mean of the magnitudes, before it is rounded to single
  precision, with \<open>u\<close> the unit roundoff of double precision.\<close>

theorem mean_error:
  assumes "ds_data s = map Fin xs" and "xs \<noteq> []" and "wf_resampled s" and "length xs < 2 ^ 53"
  shows "\<exists>y. compute MEAN s = Inr (Fin (f32 y)) \<and>
    \<bar>y - sum_list xs / real (length xs)\<bar> \<le> ((1 + u64) ^ (length xs + 1) - 1) * (sum_list (map abs xs) / real (length xs))"
proof -
  define n where "n = real (length xs)"
  define t where "t = foldl (\<lambda>a x. f64 (a + x)) 0 xs"
  define g where "g = (1 + u64) ^ length xs"
  define A where "A = sum_list (map abs xs)"
  have size: "resampled_segment_size s = length xs" using assms(1,3) by (simp add: wf_resampled_def)
  have n: "0 < n" using assms(2) by (simp add: n_def)
  have t: "\<bar>t - sum_list xs\<bar> \<le> (g - 1) * A" using f64_sum_error[of 0 xs] by (simp add: t_def g_def A_def)
  have "\<bar>sum_list xs\<bar> \<le> A" unfolding A_def by (rule sum_list_abs)
  with t have "\<bar>t\<bar> \<le> g * A" by (simp add: algebra_simps abs_if split: if_splits)
  then have "\<bar>t / n\<bar> \<le> g * A / n" using n by (simp add: divide_right_mono)
  then have "\<bar>f64 (t / n) - t / n\<bar> \<le> u64 * (g * A / n)" by (rule f64_close0)
  moreover have "\<bar>t / n - sum_list xs / n\<bar> \<le> (g - 1) * A / n"
    using divide_right_mono[OF t, of n] n by (simp add: abs_divide flip: diff_divide_distrib)
  ultimately have "\<bar>f64 (t / n) - sum_list xs / n\<bar> \<le> u64 * (g * A / n) + (g - 1) * A / n" by linarith
  also have "\<dots> = ((1 + u64) ^ (length xs + 1) - 1) * (A / n)"
    using n by (simp add: field_simps g_def)
  finally have "\<bar>f64 (t / n) - sum_list xs / n\<bar> \<le> ((1 + u64) ^ (length xs + 1) - 1) * (A / n)" .
  moreover have "compute MEAN s = Inr (Fin (f32 (f64 (t / n))))"
    using compute_mean_Fin[OF assms(1,2) size assms(4)] by (simp add: t_def n_def)
  ultimately show ?thesis unfolding n_def A_def by blast
qed

theorem mean_error_witness:
  "\<exists>y. compute MEAN example_segment = Inr (Fin (f32 y)) \<and>
    \<bar>y - sum_list [2, 4] / real (length [2, 4::real])\<bar>
      \<le> ((1 + u64) ^ (length [2, 4::real] + 1) - 1) * (sum_list (map abs [2, 4]) / real (length [2, 4::real]))"
  by (rule mean_error[OF example_segment_data(1)]) (simp_all add: wf_resampled_def example_segment_data)



text \<open>C30: Reusing the two segment objects from one grid point to the next changes nothing: the loop
  computes what it would with fresh objects for every point, failures included.\<close>

theorem attributes_with_fresh_segments:
  "calc_attributes v sv b attrs from_index to_index =
    rbind (vertical_segment sv from_index) (\<lambda>_. rfold (attributes_at v sv b) [from_index..<to_index] attrs)"
  by (rule calc_attributes_fresh)

text \<open>After a range of grid points has been computed, every buffer holds at each point of the range
  the attribute of that point, or the fill value of the reference surface where the segment is
  empty, and is unchanged at all others.\<close>

theorem attributes_buffer:
  assumes "calc_attributes v sv b attrs l n = Inr attrs'" and "list_all sized attrs" and "l \<le> n" and "n < 2 ^ 62"
  shows "list_all2 (filled v sv b l n) attrs attrs'"
  using assms by (intro attributes_loop_filled) (auto simp: calc_attributes_fresh)

theorem attributes_buffer_witness:
  "list_all2 (filled example_vds example_filled \<lparr>m_stepsize = 4\<rparr> 0 2)
    [\<lparr>am_class = attribute.MAX, am_dst = [NaN, NaN, NaN, NaN], am_size = 16\<rparr>]
    [\<lparr>am_class = attribute.MAX, am_dst = [Fin 4, Fin (- 999), NaN, NaN], am_size = 16\<rparr>]"
  by (rule attributes_buffer[OF example_maximum]) (simp_all add: sized_def)

text \<open>Computing a range of grid points in two calls, one after the other, is computing it in one,
  with the same failure if there is one.\<close>

theorem attributes_chunks:
  assumes "l \<le> m" and "m \<le> n" and "vertical_segment sv m = Inr seg"
  shows "calc_attributes v sv b attrs l n =
    rbind (calc_attributes v sv b attrs l m) (\<lambda>attrs'. calc_attributes v sv b attrs' m n)"
proof -
  have "[l..<n] = [l..<m] @ [m..<n]" using assms(1,2) upt_add_eq_append[of l m "n - m"] by simp
  then show ?thesis by (simp add: calc_attributes_fresh rfold_append rbind_assoc assms(3))
qed

theorem attributes_chunks_witness:
  "calc_attributes example_vds example_filled \<lparr>m_stepsize = 4\<rparr> [\<lparr>am_class = MINAT, am_dst = [NaN, NaN], am_size = 8\<rparr>] 0 2 =
    rbind (calc_attributes example_vds example_filled \<lparr>m_stepsize = 4\<rparr> [\<lparr>am_class = MINAT, am_dst = [NaN, NaN], am_size = 8\<rparr>] 0 1)
      (\<lambda>attrs'. calc_attributes example_vds example_filled \<lparr>m_stepsize = 4\<rparr> attrs' 1 2)"
proof -
  have "(case vertical_segment example_filled 1 of Inl _ \<Rightarrow> False | Inr _ \<Rightarrow> True)" by code_simp
  then obtain seg where "vertical_segment example_filled 1 = Inr seg" by (auto split: sum.splits)
  then show ?thesis by (intro attributes_chunks) simp_all
qed

end
