(* ===== verification/Subcube.thy ===== *)
theory Subcube
  imports Metadata
begin

text \<open>
  Line numbers to voxels and the box of voxels a slice request reads (\<^verbatim>\<open>subcube.hpp\<close>,
  \<^verbatim>\<open>subcube.cpp\<close>). The two arrays of a \<^verbatim>\<open>SubCube\<close> are lists of six integers. An operation
  that throws leaves an object that its only caller discards, so a failure carries no
  state.
\<close>

section \<open>State\<close>

record SubCube =
  sc_lower :: "int list"
  sc_upper :: "int list"

section \<open>Line numbers to voxels\<close>

text \<open>
  \<^verbatim>\<open>lineno\<close> is an \<^verbatim>\<open>int\<close>: next to a \<^verbatim>\<open>float\<close> it converts to \<^verbatim>\<open>float\<close>, both in the difference and
  in the comparisons.
\<close>

definition lineno_annotation_to_voxel :: "int \<Rightarrow> Axis \<Rightarrow> int result" where
  "lineno_annotation_to_voxel lineno a =
     (let mn = m_min a; mx = m_max a; stepsize = axis_stepsize a;
          voxelline = f32 (f32 (f32 (of_int lineno) - mn) / stepsize)
      in if f32 (of_int lineno) < mn \<or> f32 (of_int lineno) > mx \<or> of_int \<lfloor>voxelline\<rfloor> \<noteq> voxelline then
           Inl (bad_request (''Invalid lineno: '' @ to_string lineno @
             '', valid range: ['' @ to_string_with_precision mn 2 @
             '':'' @ to_string_with_precision mx 2 @
             '':'' @ to_string_with_precision stepsize 2 @ '']''))
         else Inr (trunc voxelline))"

definition lineno_index_to_voxel :: "int \<Rightarrow> Axis \<Rightarrow> int result" where
  "lineno_index_to_voxel lineno a =
     (let mn = 0; mx = m_nsamples a - 1
      in if lineno < mn \<or> lineno > mx then
           Inl (bad_request (''Invalid lineno: '' @ to_string lineno @
             '', valid range: ['' @ to_string mn @ '':'' @ to_string mx @ '':1]''))
         else Inr lineno)"

definition to_voxel :: "Axis \<Rightarrow> int \<Rightarrow> coordinate_system \<Rightarrow> int result" where
  "to_voxel a lineno system = (case system of
       ANNOTATION \<Rightarrow> lineno_annotation_to_voxel lineno a
     | INDEX \<Rightarrow> lineno_index_to_voxel lineno a
     | _ \<Rightarrow> Inl (std_exception ''Unhandled coordinate system''))"

section \<open>Operations\<close>

definition make_SubCube :: "MetadataHandle \<Rightarrow> SubCube" where
  "make_SubCube m =
     \<lparr>sc_lower = [0, 0, 0, 0, 0, 0],
      sc_upper = [1, 1, 1, 1, 1, 1]
        [m_dimension (iline m) := m_nsamples (iline m),
         m_dimension (xline m) := m_nsamples (xline m),
         m_dimension (sample m) := m_nsamples (sample m)]\<rparr>"

definition set_bounds :: "nat \<Rightarrow> int \<Rightarrow> int \<Rightarrow> SubCube \<Rightarrow> SubCube" where
  "set_bounds dimension lower upper sc =
     sc\<lparr>sc_lower := (sc_lower sc)[dimension := lower], sc_upper := (sc_upper sc)[dimension := upper]\<rparr>"

definition constrain_step :: "MetadataHandle \<Rightarrow> Bound \<Rightarrow> SubCube \<Rightarrow> SubCube result" where
  "constrain_step m b sc =
     (let direction = \<lparr>m_axis_name = bound_name b\<rparr> in
      rbind (direction_coordinate_system direction) (\<lambda>system.
      rbind (get_axis m direction) (\<lambda>a.
      rbind (to_voxel a (bound_lower b) system) (\<lambda>lower.
      rbind (to_voxel a (bound_upper b) system) (\<lambda>upper.
      Inr (set_bounds (m_dimension a) lower (upper + 1) sc))))))"

definition constrain :: "MetadataHandle \<Rightarrow> Bound list \<Rightarrow> SubCube \<Rightarrow> SubCube result" where
  "constrain m bounds sc = rfold (constrain_step m) bounds sc"

definition set_slice :: "Axis \<Rightarrow> int \<Rightarrow> coordinate_system \<Rightarrow> SubCube \<Rightarrow> SubCube result" where
  "set_slice a lineno system sc =
     rbind (to_voxel a lineno system) (\<lambda>voxelline. Inr (set_bounds (m_dimension a) voxelline (voxelline + 1) sc))"

section \<open>The invariant\<close>

text \<open>
  The box lies within the volume: the upper bounds of a fresh \<^verbatim>\<open>SubCube\<close> are the extents
  of the six dimensions. It is not empty when every lower bound is below its upper bound.
\<close>

definition within_volume :: "MetadataHandle \<Rightarrow> SubCube \<Rightarrow> bool" where
  "within_volume m sc \<longleftrightarrow> length (sc_lower sc) = 6 \<and> length (sc_upper sc) = 6 \<and>
     list_all (\<lambda>d. 0 \<le> sc_lower sc ! d \<and> sc_lower sc ! d < sc_upper (make_SubCube m) ! d \<and>
        0 < sc_upper sc ! d \<and> sc_upper sc ! d \<le> sc_upper (make_SubCube m) ! d) [0..<6]"

definition nonempty_box :: "SubCube \<Rightarrow> bool" where
  "nonempty_box sc \<longleftrightarrow> list_all (\<lambda>d. sc_lower sc ! d < sc_upper sc ! d) [0..<6]"

text \<open>The axes whose line numbers convert without leaving the axis: at most \<open>2 ^ 22\<close> samples.\<close>

definition float_metadata :: "MetadataHandle \<Rightarrow> bool" where
  "float_metadata m \<longleftrightarrow> list_all (\<lambda>a. float_axis a \<and> m_nsamples a \<le> 2 ^ 22) [iline m, xline m, sample m]"

section \<open>Lemmas\<close>

text \<open>A line number that is accepted gives a voxel of the axis, and a larger one does not
  give a smaller voxel.\<close>

lemma to_voxel_range:
  assumes "wf_axis a" and "m_nsamples a \<le> 2 ^ 22" and "to_voxel a lineno system = Inr v"
  shows "0 \<le> v \<and> v < m_nsamples a"
proof (cases system)
  case ANNOTATION
  define y where "y = f32 (f32 (f32 (of_int lineno) - m_min a) / axis_stepsize a)"
  have r: "m_min a \<le> f32 (of_int lineno)" "f32 (of_int lineno) \<le> m_max a" and w: "of_int \<lfloor>y\<rfloor> = y"
    and v: "v = trunc y"
    using assms(3) ANNOTATION
    by (auto simp: to_voxel_def lineno_annotation_to_voxel_def Let_def y_def split: if_splits)
  have "0 \<le> y" "y < of_int (m_nsamples a)"
    unfolding y_def using voxelline_bounds[OF assms(1,2) r] by blast+
  moreover have "y = of_int v" using w v by (metis trunc_of_int)
  ultimately show ?thesis by simp
qed (use assms(3) in \<open>auto simp: to_voxel_def lineno_index_to_voxel_def Let_def split: if_splits\<close>)

lemma to_voxel_mono:
  assumes "wf_axis a" and "to_voxel a l system = Inr v" and "to_voxel a u system = Inr w" and "l \<le> u"
  shows "v \<le> w"
proof (cases system)
  case ANNOTATION
  have "f32 (f32 (f32 (of_int l) - m_min a) / axis_stepsize a) \<le> f32 (f32 (f32 (of_int u) - m_min a) / axis_stepsize a)"
    using assms(1,4) by (intro single.mono divide_right_mono diff_right_mono) (simp_all add: wf_axis_def)
  then show ?thesis
    using assms(2,3) ANNOTATION
    by (auto simp: to_voxel_def lineno_annotation_to_voxel_def Let_def trunc_mono split: if_splits)
qed (use assms(2-4) in \<open>auto simp: to_voxel_def lineno_index_to_voxel_def Let_def split: if_splits\<close>)

lemma dimensions_upper:
  assumes "wf_metadata m" and "m_axes_map m t = Some a"
  shows "sc_upper (make_SubCube m) ! m_dimension a = m_nsamples a" and "m_dimension a < 6"
proof -
  have t: "a = (case t of AxisType_ILINE \<Rightarrow> iline m | AxisType_XLINE \<Rightarrow> xline m | AxisType_SAMPLE \<Rightarrow> sample m)"
    using assms(2) by (cases t) (simp_all add: iline_def xline_def sample_def)
  show "m_dimension a < 6" using wf_metadata_axes(5-7)[OF assms(1)] t by (cases t) simp_all
  show "sc_upper (make_SubCube m) ! m_dimension a = m_nsamples a"
    using wf_metadata_axes(4-7)[OF assms(1)] t
    by (cases t) (simp_all add: make_SubCube_def nth_list_update del: list_update.simps)
qed

lemma make_SubCube_lengths [simp]:
  "length (sc_lower (make_SubCube m)) = 6" "length (sc_upper (make_SubCube m)) = 6"
  by (simp_all add: make_SubCube_def del: list_update.simps)

lemma all_below_six: "(\<And>d. d < 6 \<Longrightarrow> P d) \<Longrightarrow> list_all P [0..<6]"
  by (simp add: list_all_iff)

lemma make_SubCube_nth:
  assumes "wf_metadata m" and "d < 6"
  shows "sc_lower (make_SubCube m) ! d = 0" and "0 < sc_upper (make_SubCube m) ! d"
proof -
  have "d = 0 \<or> d = 1 \<or> d = 2 \<or> d = 3 \<or> d = 4 \<or> d = 5" using assms(2) by auto
  then show "sc_lower (make_SubCube m) ! d = 0" by (auto simp: make_SubCube_def)
  define xs where "xs = [1, 1, 1, 1, 1, 1::int]"
  have "0 < xs ! d" "length xs = 6"
    using \<open>d = 0 \<or> d = 1 \<or> d = 2 \<or> d = 3 \<or> d = 4 \<or> d = 5\<close> by (auto simp: xs_def)
  then show "0 < sc_upper (make_SubCube m) ! d"
    using wf_metadata_axes[OF assms(1)] assms(2)
    by (simp add: make_SubCube_def nth_list_update wf_axis_def flip: xs_def)
qed

lemma within_volume_initial: "wf_metadata m \<Longrightarrow> within_volume m (make_SubCube m) \<and> nonempty_box (make_SubCube m)"
  unfolding within_volume_def nonempty_box_def by (auto intro!: all_below_six simp: make_SubCube_nth)

text \<open>Both operations write one dimension of the box, with voxels of that dimension's axis.\<close>

lemma set_bounds_within:
  assumes "wf_metadata m" and "m_axes_map m t = Some a" and "within_volume m sc"
    and "0 \<le> lower" "lower < m_nsamples a" "0 < upper" "upper \<le> m_nsamples a"
  shows "within_volume m (set_bounds (m_dimension a) lower upper sc)"
  using assms(3-7) dimensions_upper[OF assms(1,2)]
  by (auto simp: within_volume_def set_bounds_def list_all_iff nth_list_update)

lemma set_bounds_nonempty:
  assumes "within_volume m sc" and "nonempty_box sc" and "lower < upper"
  shows "nonempty_box (set_bounds d lower upper sc)"
proof -
  have "sc_lower (set_bounds d lower upper sc) ! e < sc_upper (set_bounds d lower upper sc) ! e" if "e < 6" for e
    using assms that
    by (cases "d = e") (simp_all add: nonempty_box_def within_volume_def set_bounds_def list_all_iff)
  then show ?thesis unfolding nonempty_box_def by (rule all_below_six)
qed

lemma float_metadata_axis:
  assumes "wf_metadata m" and "float_metadata m" and "m_axes_map m t = Some a"
  shows "wf_axis a" and "m_nsamples a \<le> 2 ^ 22"
proof -
  have t: "a = (case t of AxisType_ILINE \<Rightarrow> iline m | AxisType_XLINE \<Rightarrow> xline m | AxisType_SAMPLE \<Rightarrow> sample m)"
    using assms(3) by (cases t) (simp_all add: iline_def xline_def sample_def)
  show "wf_axis a" using wf_metadata_axes(1-3)[OF assms(1)] t by (cases t) simp_all
  show "m_nsamples a \<le> 2 ^ 22" using assms(2) t by (cases t) (simp_all add: float_metadata_def)
qed

lemma constrain_stepE:
  assumes "constrain_step m b sc = Inr sc'"
  obtains system t a v w where
    "direction_coordinate_system \<lparr>m_axis_name = bound_name b\<rparr> = Inr system"
    "direction_axis_type \<lparr>m_axis_name = bound_name b\<rparr> = Inr t" "m_axes_map m t = Some a"
    "to_voxel a (bound_lower b) system = Inr v" "to_voxel a (bound_upper b) system = Inr w"
    "sc' = set_bounds (m_dimension a) v (w + 1) sc"
  using assms by (fastforce simp: constrain_step_def get_axis_def map_at_def Let_def split: option.splits)

lemma constrain_step_within:
  assumes "wf_metadata m" and "float_metadata m" and "within_volume m sc"
    and "constrain_step m b sc = Inr sc'"
  shows "within_volume m sc'"
    and "bound_lower b \<le> bound_upper b \<Longrightarrow> nonempty_box sc \<Longrightarrow> nonempty_box sc'"
proof -
  obtain system t a v w where at: "m_axes_map m t = Some a"
    and v: "to_voxel a (bound_lower b) system = Inr v" and w: "to_voxel a (bound_upper b) system = Inr w"
    and sc': "sc' = set_bounds (m_dimension a) v (w + 1) sc"
    using constrain_stepE[OF assms(4)] by metis
  note a = float_metadata_axis[OF assms(1,2) at]
  note r = to_voxel_range[OF a v] to_voxel_range[OF a w]
  then show "within_volume m sc'"
    unfolding sc' by (intro set_bounds_within[OF assms(1) at assms(3)]) simp_all
  show "nonempty_box sc'" if "bound_lower b \<le> bound_upper b" "nonempty_box sc"
    unfolding sc' using to_voxel_mono[OF a(1) v w that(1)] by (intro set_bounds_nonempty[OF assms(3) that(2)]) simp
qed

lemma constrain_within:
  assumes "wf_metadata m" and "float_metadata m" and "within_volume m sc" and "constrain m bounds sc = Inr sc'"
  shows "within_volume m sc'"
    and "\<forall>b \<in> set bounds. bound_lower b \<le> bound_upper b \<Longrightarrow> nonempty_box sc \<Longrightarrow> nonempty_box sc'"
proof -
  show "within_volume m sc'"
    using assms(4) unfolding constrain_def
    by (rule rfold_invariant[where I = "within_volume m"]) (use assms(1-3) constrain_step_within(1) in blast)+
  show "nonempty_box sc'" if "\<forall>b \<in> set bounds. bound_lower b \<le> bound_upper b" "nonempty_box sc"
    using rfold_invariant[where I = "\<lambda>sc. within_volume m sc \<and> nonempty_box sc", OF assms(4)[unfolded constrain_def]]
      assms(1-3) that constrain_step_within[OF assms(1,2)] by blast
qed

lemma set_slice_within:
  assumes "wf_metadata m" and "float_metadata m" and "m_axes_map m t = Some a"
    and "within_volume m sc" and "set_slice a lineno system sc = Inr sc'"
  shows "within_volume m sc'" and "nonempty_box sc \<Longrightarrow> nonempty_box sc'"
proof -
  obtain v where v: "to_voxel a lineno system = Inr v" and sc': "sc' = set_bounds (m_dimension a) v (v + 1) sc"
    using assms(5) by (auto simp: set_slice_def)
  note r = to_voxel_range[OF float_metadata_axis[OF assms(1-3)] v]
  then show "within_volume m sc'"
    unfolding sc' by (intro set_bounds_within[OF assms(1,3,4)]) simp_all
  show "nonempty_box sc'" if "nonempty_box sc"
    unfolding sc' by (rule set_bounds_nonempty[OF assms(4) that]) simp
qed

text \<open>Two boxes that agree outside one dimension, until that dimension is written.\<close>

definition agree_except :: "nat \<Rightarrow> SubCube \<Rightarrow> SubCube \<Rightarrow> bool" where
  "agree_except d sc sc' \<longleftrightarrow> set_bounds d 0 0 sc = set_bounds d 0 0 sc'"

lemma set_bounds_overwrite [simp]: "set_bounds d l u (set_bounds d l' u' sc) = set_bounds d l u sc"
  by (simp add: set_bounds_def)

lemma set_bounds_swap:
  "d \<noteq> e \<Longrightarrow> set_bounds d l u (set_bounds e l' u' sc) = set_bounds e l' u' (set_bounds d l u sc)"
  by (simp add: set_bounds_def list_update_swap)

lemma agree_except_refl [simp]: "agree_except d sc sc"
  by (simp add: agree_except_def)

lemma agree_except_write: "agree_except d sc sc' \<Longrightarrow> set_bounds d l u sc = set_bounds d l u sc'"
  unfolding agree_except_def by (metis set_bounds_overwrite)

lemma agree_except_write_own: "agree_except d sc sc' \<Longrightarrow> agree_except d (set_bounds d l u sc) sc'"
  by (simp add: agree_except_def)

lemma agree_except_write_other:
  "agree_except d sc sc' \<Longrightarrow> d \<noteq> e \<Longrightarrow> agree_except d (set_bounds e l u sc) (set_bounds e l u sc')"
  unfolding agree_except_def by (metis set_bounds_swap)

lemma dimension_inj:
  assumes "wf_metadata m" and "m_axes_map m t = Some a" and "m_axes_map m t' = Some a'" and "m_dimension a = m_dimension a'"
  shows "t = t'"
  using wf_metadata_axes(4)[OF assms(1)] assms(2-4)
  by (cases t; cases t') (simp_all add: iline_def xline_def sample_def)

lemma constrain_agree:
  assumes wf: "wf_metadata m" and a: "m_axes_map m t = Some a"
  shows "agree_except (m_dimension a) sc sc' \<Longrightarrow> constrain m bounds sc = Inr sc1 \<Longrightarrow>
    \<exists>sc2. constrain m (filter (\<lambda>b. direction_axis_type \<lparr>m_axis_name = bound_name b\<rparr> \<noteq> Inr t) bounds) sc' = Inr sc2 \<and>
      agree_except (m_dimension a) sc1 sc2"
proof (induction bounds arbitrary: sc sc')
  case Nil
  then show ?case by (simp add: constrain_def)
next
  case (Cons b bounds)
  from Cons.prems(2) obtain sc3 where s: "constrain_step m b sc = Inr sc3" and r: "constrain m bounds sc3 = Inr sc1"
    by (auto simp: constrain_def)
  obtain system t' a' v w where b: "direction_coordinate_system \<lparr>m_axis_name = bound_name b\<rparr> = Inr system"
      "direction_axis_type \<lparr>m_axis_name = bound_name b\<rparr> = Inr t'" and a': "m_axes_map m t' = Some a'"
    and vw: "to_voxel a' (bound_lower b) system = Inr v" "to_voxel a' (bound_upper b) system = Inr w"
    and sc3: "sc3 = set_bounds (m_dimension a') v (w + 1) sc"
    using s by (rule constrain_stepE)
  show ?case
  proof (cases "t' = t")
    case True
    then have "a' = a" using a a' by simp
    then have "agree_except (m_dimension a) sc3 sc'" using Cons.prems(1) by (simp add: sc3 agree_except_write_own)
    then show ?thesis using Cons.IH[OF _ r] b True by simp
  next
    case False
    then have "m_dimension a \<noteq> m_dimension a'" using dimension_inj[OF wf a a'] by auto
    then have "agree_except (m_dimension a) sc3 (set_bounds (m_dimension a') v (w + 1) sc')"
      using Cons.prems(1) by (simp add: sc3 agree_except_write_other)
    then show ?thesis
      using Cons.IH[OF _ r] b False a' vw
      by (auto simp: constrain_def constrain_step_def get_axis_def map_at_def)
  qed
qed

text \<open>The arithmetic of a line number on an axis of whole numbers.\<close>

lemma f32_of_int_less:
  assumes "\<bar>c\<bar> \<le> 2 ^ 22"
  shows "f32 (of_int n) < of_int c \<longleftrightarrow> n < c"
proof
  assume "n < c"
  then have "real_of_int n \<le> of_int (c - 1)" by simp
  moreover have "f32 (of_int (c - 1)) = of_int (c - 1)" using assms by (intro f32_small_int) simp
  ultimately have "f32 (of_int n) \<le> of_int (c - 1)" by (rule single.upper)
  then show "f32 (of_int n) < of_int c" by simp
next
  have "f32 (of_int c) = of_int c" using assms by (intro f32_small_int) simp
  then show "n < c" if "f32 (of_int n) < of_int c"
    using that single.lower[of "of_int c" "of_int n"] by force
qed

lemma f32_of_int_greater:
  assumes "\<bar>c\<bar> \<le> 2 ^ 22"
  shows "of_int c < f32 (of_int n) \<longleftrightarrow> c < n"
  using f32_of_int_less[of "- c" "- n"] assms by simp

lemma whole_voxelline:
  assumes s: "0 < s" and lo: "\<bar>lo\<bar> \<le> 2 ^ 22" and r: "lo \<le> lineno" "lineno \<le> hi" and hi: "\<bar>hi\<bar> \<le> 2 ^ 22"
  shows "of_int \<lfloor>f32 (f32 (f32 (of_int lineno) - of_int lo) / of_int s)\<rfloor> =
        f32 (f32 (f32 (of_int lineno) - of_int lo) / of_int s) \<longleftrightarrow> s dvd lineno - lo"
    and "s dvd lineno - lo \<Longrightarrow> f32 (f32 (f32 (of_int lineno) - of_int lo) / of_int s) = of_int ((lineno - lo) div s)"
proof -
  have d: "\<bar>lineno - lo\<bar> < 2 ^ 24" "\<bar>lineno\<bar> \<le> 16777216" using r lo hi by simp_all
  have "f32 (of_int lineno) = of_int lineno" using d(2) by (rule f32_small_int)
  moreover have "f32 (of_int (lineno - lo)) = of_int (lineno - lo)" using d(1) by (intro f32_small_int) simp
  ultimately have e: "f32 (f32 (of_int lineno) - of_int lo) = of_int (lineno - lo)" by simp
  show "of_int \<lfloor>f32 (f32 (f32 (of_int lineno) - of_int lo) / of_int s)\<rfloor> =
      f32 (f32 (f32 (of_int lineno) - of_int lo) / of_int s) \<longleftrightarrow> s dvd lineno - lo"
    unfolding e using f32_quotient_whole[OF s d(1)] by metis
  assume "s dvd lineno - lo"
  then obtain q where q: "lineno - lo = s * q" by blast
  have "\<bar>q\<bar> \<le> \<bar>lineno - lo\<bar>" using s by (simp add: q abs_mult mult_le_cancel_right1)
  then have "f32 (of_int q) = of_int q" using d(1) by (intro f32_small_int) simp
  then show "f32 (f32 (f32 (of_int lineno) - of_int lo) / of_int s) = of_int ((lineno - lo) div s)"
    unfolding e using s by (simp add: q)
qed

text \<open>A concrete request: inline 3 of the example survey, crosslines 10 to 10, the inlines
  bounded too.\<close>

lemma example_request:
  "constrain (SingleMetadata example_single)
     [\<lparr>bound_lower = 1, bound_upper = 5, bound_name = INLINE\<rparr>, \<lparr>bound_lower = 10, bound_upper = 10, bound_name = CROSSLINE\<rparr>]
     (make_SubCube (SingleMetadata example_single)) =
   Inr \<lparr>sc_lower = [0, 0, 0, 0, 0, 0], sc_upper = [4, 1, 3, 1, 1, 1]\<rparr>"
  "set_slice (make_Axis 1 5 3 ''Inline'' ''unitless'' 2) 3 ANNOTATION
     \<lparr>sc_lower = [0, 0, 0, 0, 0, 0], sc_upper = [4, 1, 3, 1, 1, 1]\<rparr> =
   Inr \<lparr>sc_lower = [0, 0, 1, 0, 0, 0], sc_upper = [4, 1, 2, 1, 1, 1]\<rparr>"
  by code_simp+

lemma example_wf:
  "wf_metadata (SingleMetadata example_single)" "float_metadata (SingleMetadata example_single)"
  "m_axes_map (SingleMetadata example_single) AxisType_ILINE = Some (make_Axis 1 5 3 ''Inline'' ''unitless'' 2)"
  by code_simp+

section \<open>Properties\<close>

text \<open>C4: The box of a slice request lies within the volume. Whatever bounds and line number
  are accepted, in annotation or index numbers, every lower and upper bound that is
  computed is a voxel of its axis, in spite of the rounding of the line-number arithmetic;
  the box is one voxel thick along the sliced axis, and it is not empty when no bound has
  its lower end above its upper end.\<close>

theorem slice_box_within_volume:
  assumes "wf_metadata m" and "float_metadata m" and "m_axes_map m t = Some a"
    and "constrain m bounds (make_SubCube m) = Inr sc" and "set_slice a lineno system sc = Inr sc'"
  shows "within_volume m sc' \<and>
    ((\<forall>b \<in> set bounds. bound_lower b \<le> bound_upper b) \<longrightarrow> nonempty_box sc') \<and>
    sc_upper sc' ! m_dimension a = sc_lower sc' ! m_dimension a + 1"
proof -
  note init = within_volume_initial[OF assms(1)]
  note c = constrain_within[OF assms(1,2) conjunct1[OF init] assms(4)]
  note s = set_slice_within[OF assms(1-3) c(1) assms(5)]
  have "m_dimension a < length (sc_lower sc)" "m_dimension a < length (sc_upper sc)"
    using dimensions_upper(2)[OF assms(1,3)] c(1) by (simp_all add: within_volume_def)
  then have "sc_upper sc' ! m_dimension a = sc_lower sc' ! m_dimension a + 1"
    using assms(5) by (auto simp: set_slice_def set_bounds_def)
  then show ?thesis using s c(2) init by blast
qed

theorem slice_box_within_volume_witness:
  "within_volume (SingleMetadata example_single)
     \<lparr>sc_lower = [0, 0, 1, 0, 0, 0], sc_upper = [4, 1, 2, 1, 1, 1]\<rparr> \<and>
   nonempty_box \<lparr>sc_lower = [0, 0, 1, 0, 0, 0], sc_upper = [4, 1, 2, 1, 1, 1]\<rparr>"
  using slice_box_within_volume[OF example_wf example_request(1,2)] by simp

text \<open>C36: Line numbers of an axis of whole numbers. A line number is accepted exactly when it
  is one of the axis's lines, and then it is line number \<open>(lineno - lo) / s\<close> of the axis.\<close>

theorem lineno_annotation_whole_axis:
  assumes "whole_axis lo s a"
  shows "lineno_annotation_to_voxel lineno a =
    (if lo \<le> lineno \<and> lineno \<le> lo + s * (m_nsamples a - 1) \<and> s dvd lineno - lo
     then Inr ((lineno - lo) div s)
     else Inl (bad_request (''Invalid lineno: '' @ to_string lineno @
        '', valid range: ['' @ to_string_with_precision (of_int lo) 2 @
        '':'' @ to_string_with_precision (of_int (lo + s * (m_nsamples a - 1))) 2 @
        '':'' @ to_string_with_precision (of_int s) 2 @ '']'')))"
proof -
  define hi where "hi = lo + s * (m_nsamples a - 1)"
  have s: "0 < s" and lo: "\<bar>lo\<bar> \<le> 2 ^ 22" and hi: "\<bar>hi\<bar> \<le> 2 ^ 22"
    using assms by (simp_all add: whole_axis_def hi_def)
  have ends: "m_min a = of_int lo" "m_max a = of_int hi" "axis_stepsize a = of_int s"
    using assms whole_axis_stepsize[OF assms] by (simp_all add: whole_axis_def hi_def)
  show ?thesis
    unfolding lineno_annotation_to_voxel_def Let_def ends f32_of_int_less[OF lo] f32_of_int_greater[OF hi] hi_def[symmetric]
    using whole_voxelline[OF s lo _ _ hi] by (cases "lo \<le> lineno \<and> lineno \<le> hi") auto
qed

theorem lineno_annotation_whole_axis_witness:
  "lineno_annotation_to_voxel 5 (make_Axis 1 9 5 ''Inline'' ''u'' 2) = Inr 2 \<and>
   lineno_annotation_to_voxel 4 (make_Axis 1 9 5 ''Inline'' ''u'' 2) =
     Inl (bad_request ''Invalid lineno: 4, valid range: [1.00:9.00:2.00]'')"
proof -
  have "whole_axis 1 2 (make_Axis 1 9 5 ''Inline'' ''u'' 2)" by (simp add: whole_axis_def)
  note t = lineno_annotation_whole_axis[OF this]
  have "to_string 4 = ''4''" "to_string_with_precision 1 2 = ''1.00''" "to_string_with_precision 9 2 = ''9.00''"
    "to_string_with_precision 2 2 = ''2.00''" by code_simp+
  then show ?thesis using t[of 5] t[of 4] by simp
qed

text \<open>C37: A bound in the direction of the slice itself has no effect on the box, apart from
  being checked: when the bounds are accepted, leaving out those in the slice's direction
  gives the same box.\<close>

theorem slice_overrides_own_bounds:
  assumes "wf_metadata m" and "m_axes_map m t = Some a"
    and "constrain m bounds (make_SubCube m) = Inr sc1"
  shows "\<exists>sc2. constrain m (filter (\<lambda>b. direction_axis_type \<lparr>m_axis_name = bound_name b\<rparr> \<noteq> Inr t) bounds)
            (make_SubCube m) = Inr sc2 \<and>
          set_slice a lineno system sc2 = set_slice a lineno system sc1"
  using constrain_agree[OF assms(1,2) agree_except_refl assms(3)] agree_except_write
  by (fastforce simp: set_slice_def intro: rbind_cong)

theorem slice_overrides_own_bounds_witness:
  "\<exists>sc2. constrain (SingleMetadata example_single) [\<lparr>bound_lower = 10, bound_upper = 10, bound_name = CROSSLINE\<rparr>]
      (make_SubCube (SingleMetadata example_single)) = Inr sc2 \<and>
    set_slice (make_Axis 1 5 3 ''Inline'' ''unitless'' 2) 3 ANNOTATION sc2 =
      Inr \<lparr>sc_lower = [0, 0, 1, 0, 0, 0], sc_upper = [4, 1, 2, 1, 1, 1]\<rparr>"
  using slice_overrides_own_bounds[OF example_wf(1,3) example_request(1), of 3 ANNOTATION] example_request(2)
  by (simp add: direction_axis_type_def direction_name_def)

end
