(* ===== verification/Datahandle.thy ===== *)
theory Datahandle
  imports Subcube
begin

text \<open>
  Reading from one VDS or from a combination of two (\<^verbatim>\<open>datahandle.hpp\<close>, \<^verbatim>\<open>datahandle.cpp\<close>). A
  buffer is its list of floats; an element that nothing has been written to is \<open>None\<close>. A
  function that writes to a buffer returns the buffer as it is afterwards. Byte counts are
  those of the code; a float takes four bytes.
\<close>

type_synonym buffer = "fp option list"

type_synonym voxel = "real list"

section \<open>Buffers\<close>

definition to_i64 :: "int \<Rightarrow> int" where
  "to_i64 x = (x + 9223372036854775808) mod 18446744073709551616 - 9223372036854775808"

definition length_error :: failure where
  "length_error = std_exception ''cannot create std::vector larger than max_size()''"

text \<open>\<^verbatim>\<open>std::vector<char>(size)\<close>, seen as floats, and \<^verbatim>\<open>std::vector<float>(n)\<close>: zeros.\<close>

definition char_vector :: "int \<Rightarrow> buffer result" where
  "char_vector bytes = (if bytes < 0 then Inl length_error else Inr (replicate (nat bytes div 4) (Some (Fin 0))))"

definition float_vector :: "nat \<Rightarrow> buffer result" where
  "float_vector n = (if 2305843009213693951 < int n then Inl length_error else Inr (replicate n (Some (Fin 0))))"

text \<open>\<^verbatim>\<open>new char[size]\<close>: not initialised.\<close>

definition new_char_array :: "int \<Rightarrow> buffer result" where
  "new_char_array bytes = (if bytes < 0 then Inl (std_exception ''std::bad_array_new_length'')
     else Inr (replicate (nat bytes div 4) None))"

definition memcpy :: "buffer \<Rightarrow> int \<Rightarrow> buffer \<Rightarrow> int \<Rightarrow> int \<Rightarrow> buffer result" where
  "memcpy dst d src s n =
     (if 0 \<le> d \<and> 0 \<le> s \<and> 0 \<le> n \<and> d + n \<le> int (length dst) \<and> s + n \<le> int (length src)
      then Inr (take (nat d) dst @ take (nat n) (drop (nat s) src) @ drop (nat (d + n)) dst)
      else Inl (undefined_behaviour ''memcpy outside a buffer''))"

text \<open>
  The end of a request: what \<^verbatim>\<open>WaitForCompletion\<close> reports, with the floats the request has
  written to the start of the buffer.
\<close>

definition complete :: "fp list option \<Rightarrow> buffer \<Rightarrow> buffer result" where
  "complete r buf = (case r of
       None \<Rightarrow> Inl (std_exception ''Failed to read from VDS.'')
     | Some d \<Rightarrow> if length d \<le> length buf then Inr (map Some d @ drop (length d) buf)
                 else Inl (undefined_behaviour ''request writes outside the buffer''))"

definition to_interpolation :: "interpolation_method \<Rightarrow> InterpolationMethod result" where
  "to_interpolation interpolation = (case interpolation of
       NEAREST \<Rightarrow> Inr Nearest
     | LINEAR \<Rightarrow> Inr Linear
     | CUBIC \<Rightarrow> Inr Cubic
     | ANGULAR \<Rightarrow> Inr Angular
     | TRIANGULAR \<Rightarrow> Inr Triangular
     | _ \<Rightarrow> Inl (std_exception ''Unhandled interpolation method''))"

section \<open>One VDS\<close>

record SingleDataHandle =
  m_handle :: vds_handle
  m_access_manager :: access_manager
  sd_metadata :: SingleMetadataHandle

definition make_SingleDataHandle :: "openvds \<Rightarrow> vds_handle \<Rightarrow> SingleDataHandle result" where
  "make_SingleDataHandle v handle =
     rbind (single_create v (vds_GetLayout handle)) (\<lambda>metadata.
     Inr \<lparr>m_handle = handle, m_access_manager = vds_GetAccessManager handle, sd_metadata = metadata\<rparr>)"

definition make_single_datahandle :: "openvds \<Rightarrow> string \<Rightarrow> string \<Rightarrow> SingleDataHandle result" where
  "make_single_datahandle v url credentials = (case Open v url credentials of
       Inl error \<Rightarrow> Inl (std_exception (''Could not open VDS: '' @ error))
     | Inr handle \<Rightarrow> make_SingleDataHandle v handle)"

text \<open>\<^verbatim>\<open>close\<close> is the sequence of handles passed to \<^verbatim>\<open>OpenVDS::Close\<close>.\<close>

definition single_close :: "SingleDataHandle \<Rightarrow> vds_handle list" where
  "single_close h = [m_handle h]"

definition single_get_metadata :: "SingleDataHandle \<Rightarrow> MetadataHandle" where
  "single_get_metadata h = SingleMetadata (sd_metadata h)"

definition single_subcube_buffer_size :: "SingleDataHandle \<Rightarrow> SubCube \<Rightarrow> int result" where
  "single_subcube_buffer_size h subcube =
     GetVolumeSubsetBufferSize (m_access_manager h) (sc_lower subcube) (sc_upper subcube)"

definition single_read_subcube :: "SingleDataHandle \<Rightarrow> buffer \<Rightarrow> int \<Rightarrow> SubCube \<Rightarrow> buffer result" where
  "single_read_subcube h buf bytes subcube =
     rbind (RequestVolumeSubset (m_access_manager h) bytes (sc_lower subcube) (sc_upper subcube)) (\<lambda>request.
     complete request buf)"

definition single_traces_buffer_size :: "SingleDataHandle \<Rightarrow> nat \<Rightarrow> int result" where
  "single_traces_buffer_size h ntraces =
     (let dimension = m_dimension (sample (single_get_metadata h))
      in GetVolumeTracesBufferSize (m_access_manager h) ntraces (int dimension))"

definition single_read_traces ::
  "SingleDataHandle \<Rightarrow> buffer \<Rightarrow> int \<Rightarrow> voxel list \<Rightarrow> nat \<Rightarrow> interpolation_method \<Rightarrow> buffer result" where
  "single_read_traces h buf bytes coordinates ntraces interpolation =
     (let dimension = m_dimension (sample (single_get_metadata h)) in
      rbind (to_interpolation interpolation) (\<lambda>method.
      rbind (RequestVolumeTraces (m_access_manager h) bytes coordinates ntraces method (int dimension)) (\<lambda>request.
      complete request buf)))"

definition single_samples_buffer_size :: "SingleDataHandle \<Rightarrow> nat \<Rightarrow> int result" where
  "single_samples_buffer_size h nsamples = GetVolumeSamplesBufferSize (m_access_manager h) nsamples"

definition single_read_samples ::
  "SingleDataHandle \<Rightarrow> buffer \<Rightarrow> int \<Rightarrow> voxel list \<Rightarrow> nat \<Rightarrow> interpolation_method \<Rightarrow> buffer result" where
  "single_read_samples h buf bytes samples nsamples interpolation =
     rbind (to_interpolation interpolation) (\<lambda>method.
     rbind (RequestVolumeSamples (m_access_manager h) bytes samples nsamples method) (\<lambda>request.
     complete request buf))"

section \<open>The operators\<close>

text \<open>
  The loop of the four operators on the elements of two buffers. Reading an element that was
  never written is undefined.
\<close>

definition inplace :: "(fp \<Rightarrow> fp \<Rightarrow> fp) \<Rightarrow> buffer \<Rightarrow> buffer \<Rightarrow> nat \<Rightarrow> buffer result" where
  "inplace f buffer_A buffer_B nsamples =
     rfold (\<lambda>i A.
       if i < length A \<and> i < length buffer_B then
         (case (A ! i, buffer_B ! i) of
            (Some a, Some b) \<Rightarrow> Inr (A[i := Some (f a b)])
          | _ \<Rightarrow> Inl (undefined_behaviour ''read of an uninitialised element''))
       else Inl (undefined_behaviour ''access outside a buffer''))
       [0..<nsamples] buffer_A"

definition inplace_subtraction :: "buffer \<Rightarrow> buffer \<Rightarrow> nat \<Rightarrow> buffer result" where
  "inplace_subtraction = inplace (fsub f32)"

definition inplace_addition :: "buffer \<Rightarrow> buffer \<Rightarrow> nat \<Rightarrow> buffer result" where
  "inplace_addition = inplace (fadd f32)"

definition inplace_multiplication :: "buffer \<Rightarrow> buffer \<Rightarrow> nat \<Rightarrow> buffer result" where
  "inplace_multiplication = inplace (fmul f32)"

definition inplace_division :: "buffer \<Rightarrow> buffer \<Rightarrow> nat \<Rightarrow> buffer result" where
  "inplace_division = inplace (fdiv f32)"

section \<open>Two VDSs\<close>

record DoubleDataHandle =
  m_datahandle_a :: SingleDataHandle
  m_datahandle_b :: SingleDataHandle
  dd_metadata :: DoubleMetadataHandle
  m_binary_operator :: "buffer \<Rightarrow> buffer \<Rightarrow> nat \<Rightarrow> buffer result"

definition make_DoubleDataHandle ::
  "openvds \<Rightarrow> SingleDataHandle \<Rightarrow> SingleDataHandle \<Rightarrow> binary_operator \<Rightarrow> DoubleDataHandle result" where
  "make_DoubleDataHandle v datahandle_a datahandle_b binary_symbol =
     rbind (double_create v (sd_metadata datahandle_a) (sd_metadata datahandle_b) binary_symbol) (\<lambda>metadata.
     rbind (case binary_symbol of
         NO_OPERATOR \<Rightarrow> Inl (bad_request ''Invalid function'')
       | ADDITION \<Rightarrow> Inr inplace_addition
       | SUBTRACTION \<Rightarrow> Inr inplace_subtraction
       | MULTIPLICATION \<Rightarrow> Inr inplace_multiplication
       | DIVISION \<Rightarrow> Inr inplace_division
       | _ \<Rightarrow> Inl (bad_request ''Invalid binary_operator string'')) (\<lambda>op.
     Inr \<lparr>m_datahandle_a = datahandle_a, m_datahandle_b = datahandle_b, dd_metadata = metadata,
          m_binary_operator = op\<rparr>))"

definition make_double_datahandle ::
  "openvds \<Rightarrow> string \<Rightarrow> string \<Rightarrow> string \<Rightarrow> string \<Rightarrow> binary_operator \<Rightarrow> DoubleDataHandle result" where
  "make_double_datahandle v url_a credentials_a url_b credentials_b binary_symbol =
     rbind (make_single_datahandle v url_a credentials_a) (\<lambda>datahandle_a.
     rbind (make_single_datahandle v url_b credentials_b) (\<lambda>datahandle_b.
     make_DoubleDataHandle v datahandle_a datahandle_b binary_symbol))"

definition double_close :: "DoubleDataHandle \<Rightarrow> vds_handle list" where
  "double_close h = single_close (m_datahandle_a h) @ single_close (m_datahandle_b h)"

definition double_get_metadata :: "DoubleDataHandle \<Rightarrow> MetadataHandle" where
  "double_get_metadata h = DoubleMetadata (dd_metadata h)"

definition double_subcube_buffer_size :: "DoubleDataHandle \<Rightarrow> SubCube \<Rightarrow> int result" where
  "double_subcube_buffer_size h subcube = single_subcube_buffer_size (m_datahandle_a h) subcube"

definition double_read_subcube :: "DoubleDataHandle \<Rightarrow> buffer \<Rightarrow> int \<Rightarrow> SubCube \<Rightarrow> buffer result" where
  "double_read_subcube h buf bytes subcube =
     (let transformer = dm_coordinate_transformer (dd_metadata h);
          subcube_a = subcube\<lparr>
            sc_lower := to_cube_a_voxel_position add_int transformer (sc_lower subcube) (sc_lower subcube),
            sc_upper := to_cube_a_voxel_position add_int transformer (sc_upper subcube) (sc_upper subcube)\<rparr>;
          subcube_b = subcube\<lparr>
            sc_lower := to_cube_b_voxel_position add_int transformer (sc_lower subcube) (sc_lower subcube),
            sc_upper := to_cube_b_voxel_position add_int transformer (sc_upper subcube) (sc_upper subcube)\<rparr>
      in
      rbind (char_vector bytes) (\<lambda>buffer_a.
      rbind (single_read_subcube (m_datahandle_a h) buf bytes subcube_a) (\<lambda>buf'.
      rbind (char_vector bytes) (\<lambda>buffer_b.
      rbind (single_read_subcube (m_datahandle_b h) buffer_b bytes subcube_b) (\<lambda>buffer_b'.
      m_binary_operator h buf' buffer_b' (to_size_t bytes div 4))))))"

definition double_traces_buffer_size :: "DoubleDataHandle \<Rightarrow> nat \<Rightarrow> int result" where
  "double_traces_buffer_size h ntraces =
     Inr (to_i64 (int (wrap64 (wrap64 (to_size_t (m_nsamples (sample (double_get_metadata h))) * ntraces) * 4))))"

text \<open>
  The loops that move the coordinates of the intersection to one of the cubes. The index and
  the offset \<^verbatim>\<open>Dimensionality_Max * v\<close> are \<^verbatim>\<open>int\<close>s.
\<close>

definition moved :: "(voxel \<Rightarrow> voxel \<Rightarrow> voxel) \<Rightarrow> voxel list \<Rightarrow> nat \<Rightarrow> voxel list result" where
  "moved to_cube coordinates n =
     rmap (\<lambda>v. if \<not> int Dimensionality_Max * int v < 2147483648 then Inl (undefined_behaviour ''int overflow'')
               else if v < length coordinates then Inr (to_cube (replicate Dimensionality_Max 0) (coordinates ! v))
               else Inl (undefined_behaviour ''read outside the coordinates'')) [0..<n]"

text \<open>
  The whole traces of \<open>source_traces\<close> are cut to the part that starts at \<open>start_extract_index\<close>.
  The products of the loop are \<^verbatim>\<open>int\<close>s.
\<close>

definition extract_continuous_part_of_trace :: "buffer \<Rightarrow> int \<Rightarrow> int \<Rightarrow> int \<Rightarrow> buffer \<Rightarrow> buffer result" where
  "extract_continuous_part_of_trace source_traces source_trace_length start_extract_index nsamples_to_extract target_buffer =
     rbind (guard (source_trace_length \<noteq> 0) (undefined_behaviour ''division by zero'')) (\<lambda>_.
     let ntraces = length source_traces div to_size_t source_trace_length in
     rfold (\<lambda>i target.
       let src = int i * source_trace_length; dst = int i * nsamples_to_extract in
       rbind (guard (src < 2147483648 \<and> dst < 2147483648) (undefined_behaviour ''int overflow'')) (\<lambda>_.
       memcpy target dst source_traces (src + start_extract_index) nsamples_to_extract))
       [0..<ntraces] target_buffer)"

definition first_coordinate :: "voxel list \<Rightarrow> nat \<Rightarrow> real result" where
  "first_coordinate coordinates dimension = (case coordinates of
       [] \<Rightarrow> Inl (undefined_behaviour ''read outside the coordinates'')
     | c # _ \<Rightarrow> Inr (c ! dimension))"

definition double_read_traces ::
  "DoubleDataHandle \<Rightarrow> buffer \<Rightarrow> int \<Rightarrow> voxel list \<Rightarrow> nat \<Rightarrow> interpolation_method \<Rightarrow> buffer result" where
  "double_read_traces h buf bytes coordinates ntraces interpolation =
     (let sample_dimension_index = m_dimension (sample (double_get_metadata h));
          transformer = dm_coordinate_transformer (dd_metadata h);
          nsamples = m_nsamples (sample (double_get_metadata h))
      in
      rbind (moved (to_cube_a_voxel_position add_float transformer) coordinates ntraces) (\<lambda>coordinates_a.
      rbind (moved (to_cube_b_voxel_position add_float transformer) coordinates ntraces) (\<lambda>coordinates_b.
      rbind (single_traces_buffer_size (m_datahandle_a h) ntraces) (\<lambda>bytes_a.
      rbind (float_vector (to_size_t bytes_a div 4)) (\<lambda>buffer_a.
      rbind (single_read_traces (m_datahandle_a h) buffer_a (to_i64 bytes_a) coordinates_a ntraces interpolation) (\<lambda>buffer_a'.
      rbind (single_traces_buffer_size (m_datahandle_b h) ntraces) (\<lambda>bytes_b.
      rbind (float_vector (to_size_t bytes_b div 4)) (\<lambda>buffer_b.
      rbind (single_read_traces (m_datahandle_b h) buffer_b (to_i64 bytes_b) coordinates_b ntraces interpolation) (\<lambda>buffer_b'.
      rbind (first_coordinate coordinates_a sample_dimension_index) (\<lambda>first_a.
      rbind (extract_continuous_part_of_trace buffer_a' (m_nsamples (sample (single_get_metadata (m_datahandle_a h))))
        (trunc (f32 (first_a + 1 / 2))) nsamples buf) (\<lambda>buf'.
      rbind (float_vector (wrap64 (to_size_t nsamples * ntraces))) (\<lambda>res_buffer_b.
      rbind (first_coordinate coordinates_b sample_dimension_index) (\<lambda>first_b.
      rbind (extract_continuous_part_of_trace buffer_b' (m_nsamples (sample (single_get_metadata (m_datahandle_b h))))
        (trunc (f32 (first_b + 1 / 2))) nsamples res_buffer_b) (\<lambda>res_buffer_b'.
      m_binary_operator h buf' res_buffer_b' (to_size_t bytes div 4)))))))))))))))"

definition double_samples_buffer_size :: "DoubleDataHandle \<Rightarrow> nat \<Rightarrow> int result" where
  "double_samples_buffer_size h nsamples = single_samples_buffer_size (m_datahandle_a h) nsamples"

definition double_read_samples ::
  "DoubleDataHandle \<Rightarrow> buffer \<Rightarrow> int \<Rightarrow> voxel list \<Rightarrow> nat \<Rightarrow> interpolation_method \<Rightarrow> buffer result" where
  "double_read_samples h buf bytes samples nsamples interpolation =
     (let transformer = dm_coordinate_transformer (dd_metadata h) in
      rbind (moved (to_cube_a_voxel_position add_float transformer) samples nsamples) (\<lambda>samples_a.
      rbind (moved (to_cube_b_voxel_position add_float transformer) samples nsamples) (\<lambda>samples_b.
      rbind (single_read_samples (m_datahandle_a h) buf bytes samples_a nsamples interpolation) (\<lambda>buf'.
      rbind (float_vector (to_size_t bytes div 4)) (\<lambda>buffer_b.
      rbind (single_read_samples (m_datahandle_b h) buffer_b bytes samples_b nsamples interpolation) (\<lambda>buffer_b'.
      m_binary_operator h buf' buffer_b' (to_size_t bytes div 4)))))))"

section \<open>The abstract class DataHandle\<close>

datatype DataHandle =
    SingleData SingleDataHandle
  | DoubleData DoubleDataHandle

fun close :: "DataHandle \<Rightarrow> vds_handle list" where
  "close (SingleData h) = single_close h"
| "close (DoubleData h) = double_close h"

fun get_metadata :: "DataHandle \<Rightarrow> MetadataHandle" where
  "get_metadata (SingleData h) = single_get_metadata h"
| "get_metadata (DoubleData h) = double_get_metadata h"

fun subcube_buffer_size :: "DataHandle \<Rightarrow> SubCube \<Rightarrow> int result" where
  "subcube_buffer_size (SingleData h) = single_subcube_buffer_size h"
| "subcube_buffer_size (DoubleData h) = double_subcube_buffer_size h"

fun read_subcube :: "DataHandle \<Rightarrow> buffer \<Rightarrow> int \<Rightarrow> SubCube \<Rightarrow> buffer result" where
  "read_subcube (SingleData h) = single_read_subcube h"
| "read_subcube (DoubleData h) = double_read_subcube h"

fun traces_buffer_size :: "DataHandle \<Rightarrow> nat \<Rightarrow> int result" where
  "traces_buffer_size (SingleData h) = single_traces_buffer_size h"
| "traces_buffer_size (DoubleData h) = double_traces_buffer_size h"

fun read_traces :: "DataHandle \<Rightarrow> buffer \<Rightarrow> int \<Rightarrow> voxel list \<Rightarrow> nat \<Rightarrow> interpolation_method \<Rightarrow> buffer result" where
  "read_traces (SingleData h) = single_read_traces h"
| "read_traces (DoubleData h) = double_read_traces h"

fun samples_buffer_size :: "DataHandle \<Rightarrow> nat \<Rightarrow> int result" where
  "samples_buffer_size (SingleData h) = single_samples_buffer_size h"
| "samples_buffer_size (DoubleData h) = double_samples_buffer_size h"

fun read_samples :: "DataHandle \<Rightarrow> buffer \<Rightarrow> int \<Rightarrow> voxel list \<Rightarrow> nat \<Rightarrow> interpolation_method \<Rightarrow> buffer result" where
  "read_samples (SingleData h) = single_read_samples h"
| "read_samples (DoubleData h) = double_read_samples h"

section \<open>The contract of the library\<close>

text \<open>
  The voxels of a box, dimension 0 varying fastest, and a box within a volume of the given
  extents.
\<close>

definition voxels :: "int list \<Rightarrow> int list \<Rightarrow> int list list" where
  "voxels lower upper = map rev (product_lists (rev (map2 (\<lambda>l u. [l..u - 1]) lower upper)))"

definition box_in :: "int list \<Rightarrow> int list \<Rightarrow> int list \<Rightarrow> bool" where
  "box_in extents lower upper \<longleftrightarrow> length lower = 6 \<and> length upper = 6 \<and> length extents = 6 \<and>
     list_all (\<lambda>d. 0 \<le> lower ! d \<and> lower ! d < upper ! d \<and> upper ! d \<le> extents ! d) [0..<6]"

text \<open>
  A volume behind an access manager: the size of a subset is that of its voxels, and a
  request for a box within the volume delivers the value at each of its voxels, in order.
\<close>

definition holds_volume :: "int list \<Rightarrow> (int list \<Rightarrow> fp) \<Rightarrow> access_manager \<Rightarrow> bool" where
  "holds_volume extents vol am \<longleftrightarrow> (\<forall>lower upper. box_in extents lower upper \<longrightarrow>
     GetVolumeSubsetBufferSize am lower upper = Inr (4 * int (length (voxels lower upper))) \<and>
     RequestVolumeSubset am (4 * int (length (voxels lower upper))) lower upper = Inr (Some (map vol (voxels lower upper))))"

text \<open>
  Traces and samples: a trace is the whole column through a position, one after the other;
  samples are the values at the positions.
\<close>

definition holds_traces :: "int \<Rightarrow> int \<Rightarrow> (voxel \<Rightarrow> InterpolationMethod \<Rightarrow> fp list) \<Rightarrow> access_manager \<Rightarrow> bool" where
  "holds_traces dm n trace am \<longleftrightarrow> (\<forall>c m. length (trace c m) = nat n) \<and>
     (\<forall>k. GetVolumeTracesBufferSize am k dm = Inr (4 * (n * int k))) \<and>
     (\<forall>coords m. RequestVolumeTraces am (4 * (n * int (length coords))) coords (length coords) m dm =
         Inr (Some (concat (map (\<lambda>c. trace c m) coords))))"

definition holds_samples :: "(voxel \<Rightarrow> InterpolationMethod \<Rightarrow> fp) \<Rightarrow> access_manager \<Rightarrow> bool" where
  "holds_samples val am \<longleftrightarrow> (\<forall>k. GetVolumeSamplesBufferSize am k = Inr (4 * int k)) \<and>
     (\<forall>coords m. RequestVolumeSamples am (4 * int (length coords)) coords (length coords) m = Inr (Some (map (\<lambda>c. val c m) coords)))"

section \<open>Lemmas\<close>

lemma complete_prefix: "length d \<le> length buf \<Longrightarrow> complete (Some d) buf = Inr (map Some d @ drop (length d) buf)"
  by (simp add: complete_def)

lemma complete_exact: "length d = length buf \<Longrightarrow> complete (Some d) buf = Inr (map Some d)"
  by (simp add: complete_def)

lemma bytes_floats: "int n < 2 ^ 61 \<Longrightarrow> to_size_t (4 * int n) div 4 = n" "nat (4 * int n) div 4 = n"
  by (auto simp: to_size_t_def nat_mult_distrib)

lemma char_vector_floats: "char_vector (4 * int n) = Inr (replicate n (Some (Fin 0)))"
  by (simp add: char_vector_def nat_mult_distrib)

lemma new_char_array_floats: "new_char_array (4 * int n) = Inr (replicate n None)"
  by (simp add: new_char_array_def nat_mult_distrib)

lemma float_vector_small: "int n < 2 ^ 61 \<Longrightarrow> float_vector n = Inr (replicate n (Some (Fin 0)))"
  by (simp add: float_vector_def)

lemma inplace_prefix:
  assumes "length xs = n" and "length ys = n" and "k \<le> n"
  shows "inplace f (map Some xs @ r) (map Some ys @ r') k =
    Inr (map Some (map2 f (take k xs) (take k ys)) @ map Some (drop k xs) @ r)"
  using assms(3)
proof (induction k)
  case (Suc k)
  then have k: "k < length xs" "k < length ys" using assms by simp_all
  have xs: "drop k xs = xs ! k # drop (Suc k) xs" using k(1) by (rule Cons_nth_drop_Suc[symmetric])
  show ?case
    using Suc k xs
    by (simp add: inplace_def rfold_snoc nth_append list_update_append take_Suc_conv_app_nth)
qed (simp add: inplace_def)

lemma inplace_all:
  assumes "length xs = n" and "length ys = n"
  shows "inplace f (map Some xs @ r) (map Some ys @ r') n = Inr (map Some (map2 f xs ys) @ r)"
  using inplace_prefix[OF assms, of n] assms by simp

text \<open>Moving a box moves its voxels.\<close>

lemma upto_shift: "[l + s..u + s] = map ((+) s) [l..u]"
proof (induction l u rule: upto.induct)
  case (1 l u)
  then show ?case by (cases "l \<le> u") (simp_all add: upto_rec1 ac_simps)
qed

lemma product_lists_shift:
  "length ss = length xss \<Longrightarrow>
    product_lists (map2 (\<lambda>s. map ((+) s)) ss xss) = map (map2 (+) ss) (product_lists (xss :: int list list))"
proof (induction ss xss rule: list_induct2)
  case (Cons s ss xs xss)
  then show ?case by (simp add: map_concat comp_def)
qed simp

lemma length_product_lists_elem: "v \<in> set (product_lists xss) \<Longrightarrow> length v = length xss"
  by (induction xss arbitrary: v) auto

lemma voxels_shift:
  assumes "length ss = length lower" and "length lower = length upper"
  shows "voxels (map2 (+) ss lower) (map2 (+) ss upper) = map (map2 (+) ss) (voxels lower upper)"
proof -
  have "map2 (\<lambda>l u. [l..u - 1]) (map2 (+) ss lower) (map2 (+) ss upper) =
      map2 (\<lambda>s. map ((+) s)) ss (map2 (\<lambda>l u. [l..u - 1]) lower upper)"
    using assms by (intro nth_equalityI) (simp_all flip: upto_shift add: algebra_simps)
  moreover have "map2 (+) (rev ss) v = rev (map2 (+) ss (rev v))" if "length v = length ss" for v :: "int list"
    using that zip_rev[of ss "rev v"] by (simp add: rev_map)
  ultimately show ?thesis
    using assms unfolding voxels_def
    by (simp add: rev_map zip_rev[symmetric] product_lists_shift comp_def length_product_lists_elem cong: map_cong)
qed

lemma voxels_length: "length lower = length upper \<Longrightarrow> v \<in> set (voxels lower upper) \<Longrightarrow> length v = length lower"
  by (auto simp: voxels_def length_product_lists_elem)

text \<open>The loops that move a position add the same to every position.\<close>

definition shift_a :: "DoubleCoordinateTransformer \<Rightarrow> int list" where
  "shift_a t = to_cube_a_voxel_position add_int t (replicate 6 0) (replicate 6 0)"

definition shift_b :: "DoubleCoordinateTransformer \<Rightarrow> int list" where
  "shift_b t = to_cube_b_voxel_position add_int t (replicate 6 0) (replicate 6 0)"

lemma length_shift [simp]: "length (shift_a t) = 6" "length (shift_b t) = 6"
  by (simp_all add: shift_a_def shift_b_def)

lemma fold_shift:
  fixes v :: "int list"
  assumes "distinct (map (vnth m) [0, 1, 2])" and "\<And>i. i < 3 \<Longrightarrow> vnth m i < 3" and "length v = 6"
  shows "fold (\<lambda>i out. out[vnth m i := add_int (v ! vnth m i) (vnth z i)]) [0, 1, 2] v =
    map2 (+) (fold (\<lambda>i out. out[vnth m i := add_int (replicate 6 0 ! vnth m i) (vnth z i)]) [0, 1, 2] (replicate 6 0)) v"
proof (rule nth_equalityI)
  fix j assume "j < length (fold (\<lambda>i out. out[vnth m i := add_int (v ! vnth m i) (vnth z i)]) [0, 1, 2] v)"
  then have j: "j < 6" using assms(3) by simp
  have b: "vnth m 0 < 6" "vnth m (Suc 0) < 6" "vnth m 2 < 6"
    using assms(2)[of 0] assms(2)[of "Suc 0"] assms(2)[of 2] by simp_all
  show "fold (\<lambda>i out. out[vnth m i := add_int (v ! vnth m i) (vnth z i)]) [0, 1, 2] v ! j =
    map2 (+) (fold (\<lambda>i out. out[vnth m i := add_int (replicate 6 0 ! vnth m i) (vnth z i)]) [0, 1, 2] (replicate 6 0)) v ! j"
    using assms(1,3) b j by (auto simp: nth_list_update add_int_def)
qed (simp add: assms(3))

lemma to_cube_shift:
  assumes "survey_transformer orig step (m_transformer_a t)" and "length v = 6"
  shows "to_cube_a_voxel_position add_int t v v = map2 (+) (shift_a t) v"
    and "to_cube_b_voxel_position add_int t v v = map2 (+) (shift_b t) v"
  using fold_shift[OF survey_dimension_map(1,2)[OF assms(1)] assms(2)]
  by (simp_all only: to_cube_a_voxel_position_def to_cube_b_voxel_position_def shift_a_def shift_b_def Let_def)

text \<open>The start of the intersection along one dimension, from a position that is zero there.\<close>

lemma trunc_half: "0 \<le> z \<Longrightarrow> z \<le> 2 ^ 22 \<Longrightarrow> trunc (f32 (f32 (of_int z) + 1 / 2)) = z"
proof -
  assume z: "0 \<le> z" "z \<le> 2 ^ 22"
  then have "f32 (of_int z) = of_int z" using is_f32_of_int[of z] by (simp add: is_f32_def)
  moreover have "f32 (of_int (2 * z + 1) / 2) = of_int (2 * z + 1) / 2" 
    using z is_f32_of_int[of "2 * z + 1"] by (intro single.half) (simp add: is_f32_def)
  ultimately have "f32 (f32 (of_int z) + 1 / 2) = of_int z + 1 / 2" by (simp add: add_divide_distrib)
  then show ?thesis using z(1) by (simp add: trunc_def floor_unique)
qed

lemma moved_start:
  assumes "survey_transformer orig step (m_transformer_a t)" and "d < 3" and "c ! d = 0"
  shows "to_cube_a_voxel_position add_float t (replicate 6 0) c ! d = f32 (of_int (shift_a t ! d))"
    and "to_cube_b_voxel_position add_float t (replicate 6 0) c ! d = f32 (of_int (shift_b t ! d))"
proof -
  let ?m = "single_IJKToVoxelDimensionMap (m_transformer_a t)"
  have "{vnth ?m 0, vnth ?m 1, vnth ?m 2} = {0, 1, 2}" using assms(1) by (simp add: survey_transformer_def Let_def)
  moreover have "d \<in> {0, 1, 2}" using assms(2) by auto
  ultimately have "d \<in> {vnth ?m 0, vnth ?m 1, vnth ?m 2}" by simp
  then have "\<exists>i < 3. d = vnth ?m i" by (auto intro: exI[of _ 0] exI[of _ 1] exI[of _ 2])
  then obtain i where i: "i < 3" "d = vnth ?m i" by blast
  note p = to_cube_voxel_position_nth[OF assms(1) _ i(1), folded i(2)]
  have d6: "d < 6" using assms(2) by simp
  show "to_cube_a_voxel_position add_float t (replicate 6 0) c ! d = f32 (of_int (shift_a t ! d))"
    "to_cube_b_voxel_position add_float t (replicate 6 0) c ! d = f32 (of_int (shift_b t ! d))"
    using d6 assms(3) by (simp_all add: p shift_a_def shift_b_def add_float_def add_int_def)
qed

text \<open>Cutting the traces.\<close>

lemma length_concat_uniform: "(\<And>t. t \<in> set ts \<Longrightarrow> length t = n) \<Longrightarrow> length (concat ts) = n * length ts"
  by (induction ts) simp_all

lemma concat_row:
  assumes "\<And>t. t \<in> set ts \<Longrightarrow> length t = len" and "i < length ts" and "st + n \<le> len"
  shows "take n (drop (i * len + st) (concat ts)) = take n (drop st (ts ! i))"
  using assms
proof (induction ts arbitrary: i)
  case (Cons t ts)
  show ?case
  proof (cases i)
    case 0
    then show ?thesis using Cons.prems by simp
  next
    case (Suc j)
    have t: "length t = len" using Cons.prems(1) by simp
    have "drop (i * len + st) (concat (t # ts)) = drop (j * len + st) (concat ts)"
      using t Suc by (simp add: add.assoc)
    moreover have "take n (drop (j * len + st) (concat ts)) = take n (drop st (ts ! j))"
      using Cons.prems Suc by (intro Cons.IH) simp_all
    ultimately show ?thesis using Suc by simp
  qed
qed simp

lemma row_end:
  assumes "i < m" and "st + n \<le> len"
  shows "i * len + st + n \<le> len * (m :: nat)"
proof -
  have "i * len + (st + n) \<le> i * len + len" using assms(2) by simp
  also have "\<dots> = len * Suc i" by simp
  also have "\<dots> \<le> len * m" using assms(1) by (intro mult_le_mono2) simp
  finally show ?thesis by simp
qed

lemma memcpy_nat:
  assumes "d + n \<le> length dst" and "s + n \<le> length src"
  shows "memcpy dst (int d) src (int s) (int n) = Inr (take d dst @ take n (drop s src) @ drop (d + n) dst)"
proof -
  have "nat (int d + int n) = d + n" by simp
  then show ?thesis using assms by (simp add: memcpy_def)
qed

definition cut :: "nat \<Rightarrow> nat \<Rightarrow> 'a list \<Rightarrow> 'a list" where
  "cut st n t = take n (drop st t)"

lemma extract_traces:
  assumes len: "\<And>t. t \<in> set ts \<Longrightarrow> length t = len" and "0 < len" and st: "st + n \<le> len"
    and small: "len * length ts < 2 ^ 31" and target: "length target = n * length ts"
  shows "extract_continuous_part_of_trace (map Some (concat ts)) (int len) (int st) (int n) target =
    Inr (map Some (concat (map (cut st n) ts)))"
proof -
  define f where "f = (\<lambda>i target.
       let src = int i * int len; dst = int i * int n in
       rbind (guard (src < 2147483648 \<and> dst < 2147483648) (undefined_behaviour ''int overflow'')) (\<lambda>_.
       memcpy target dst (map Some (concat ts)) (src + int st) (int n)))"
  define cp where "cp = (\<lambda>k. map Some (concat (map (cut st n) (take k ts))))"
  have lencp: "length (cp k) = n * k" if "k \<le> length ts" for k
    unfolding cp_def using len st that
    by (simp, subst length_concat_uniform[of _ n]) (auto simp: cut_def dest: in_set_takeD)
  have "rfold f [0..<k] target = Inr (cp k @ drop (n * k) target)" if "k \<le> length ts" for k
    using that
  proof (induction k)
    case (Suc k)
    then have k: "k < length ts" by simp
    have "k * len + 0 + 0 \<le> len * length ts" "k * n \<le> k * len" using row_end[OF k, of 0 0 len] st by simp_all
    then have "k * len < 2 ^ 31" "k * n < 2 ^ 31" using small by linarith+
    then have ok: "int k * int len < 2147483648" "int k * int n < 2147483648"
      by (simp_all flip: of_nat_mult)
    have "memcpy (cp k @ drop (n * k) target) (int (k * n)) (map Some (concat ts)) (int (k * len + st)) (int n) =
        Inr (take (k * n) (cp k @ drop (n * k) target) @ take n (drop (k * len + st) (map Some (concat ts))) @
          drop (k * n + n) (cp k @ drop (n * k) target))"
      using row_end[OF k st] row_end[OF k, of 0 n n] lencp[of k] k target length_concat_uniform[of ts len, OF len]
      by (intro memcpy_nat) (simp_all add: ac_simps)
    moreover have "take n (drop (k * len + st) (map Some (concat ts))) = map Some (cut st n (ts ! k))"
      by (simp only: drop_map take_map concat_row[OF len k st] cut_def)
    moreover have "cp (Suc k) = cp k @ map Some (cut st n (ts ! k))" using k by (simp add: cp_def take_Suc_conv_app_nth)
    ultimately show ?case
      using Suc ok lencp[of k] by (simp add: rfold_snoc f_def Let_def ac_simps)
  qed (simp add: cp_def)
  from this[of "length ts"] have "rfold f [0..<length ts] target = Inr (cp (length ts))" using target by simp
  moreover have "to_size_t (int len) = len" if "ts \<noteq> []"
  proof -
    have "1 \<le> length ts" using that by (simp add: Suc_le_eq)
    then have "len < 2 ^ 31" using small mult_le_mono2[of 1 "length ts" len] by linarith
    then show ?thesis by (simp add: to_size_t_def)
  qed
  moreover have "len * length ts div len = length ts" using assms(2) by simp
  ultimately show ?thesis
    using assms(2) length_concat_uniform[of ts len, OF len]
    unfolding extract_continuous_part_of_trace_def f_def[symmetric] by (cases "ts = []") (simp_all add: cp_def f_def)
qed

section \<open>The interface of a data handle\<close>

text \<open>
  What a handle gives access to: the values at the voxels of a volume, the whole traces
  through positions and the values at positions.
\<close>

record cube =
  cube_extents :: "int list"
  cube_voxel :: "int list \<Rightarrow> fp"
  cube_trace :: "voxel \<Rightarrow> InterpolationMethod \<Rightarrow> fp list"
  cube_sample :: "voxel \<Rightarrow> InterpolationMethod \<Rightarrow> fp"

text \<open>The positions of traces, which are not set in the sample dimension.\<close>

definition trace_positions :: "MetadataHandle \<Rightarrow> voxel list \<Rightarrow> bool" where
  "trace_positions m coords \<longleftrightarrow> coords \<noteq> [] \<and> list_all (\<lambda>p. length p = 6 \<and> p ! m_dimension (sample m) = 0) coords"

abbreviation subcube_voxels :: "SubCube \<Rightarrow> int list list" where
  "subcube_voxels sc \<equiv> voxels (sc_lower sc) (sc_upper sc)"

text \<open>
  The contract of \<^verbatim>\<open>DataHandle\<close>: the sizes are those of the data, and a read into a buffer of
  that size fills it; a read of samples leaves the rest of a longer buffer as it is. \<open>longest\<close> bounds the
  strides of the arrays a read of traces indexes with \<^verbatim>\<open>int\<close>s.
\<close>

locale cube_reader =
  fixes holds :: "'h \<Rightarrow> cube \<Rightarrow> bool"
    and handle_metadata :: "'h \<Rightarrow> MetadataHandle"
    and longest :: "'h \<Rightarrow> int"
    and subset_bytes :: "'h \<Rightarrow> SubCube \<Rightarrow> int result"
    and read_subset :: "'h \<Rightarrow> buffer \<Rightarrow> int \<Rightarrow> SubCube \<Rightarrow> buffer result"
    and trace_bytes :: "'h \<Rightarrow> nat \<Rightarrow> int result"
    and read_trace :: "'h \<Rightarrow> buffer \<Rightarrow> int \<Rightarrow> voxel list \<Rightarrow> nat \<Rightarrow> interpolation_method \<Rightarrow> buffer result"
    and sample_bytes :: "'h \<Rightarrow> nat \<Rightarrow> int result"
    and read_sample :: "'h \<Rightarrow> buffer \<Rightarrow> int \<Rightarrow> voxel list \<Rightarrow> nat \<Rightarrow> interpolation_method \<Rightarrow> buffer result"
  assumes subset_bytes: "holds h c \<Longrightarrow> box_in (cube_extents c) (sc_lower sc) (sc_upper sc) \<Longrightarrow>
      subset_bytes h sc = Inr (4 * int (length (subcube_voxels sc)))"
    and read_subset: "holds h c \<Longrightarrow> box_in (cube_extents c) (sc_lower sc) (sc_upper sc) \<Longrightarrow>
      int (length (subcube_voxels sc)) < 2 ^ 61 \<Longrightarrow> length buf = length (subcube_voxels sc) \<Longrightarrow>
      read_subset h buf (4 * int (length (subcube_voxels sc))) sc = Inr (map Some (map (cube_voxel c) (subcube_voxels sc)))"
    and trace_length: "holds h c \<Longrightarrow> length (cube_trace c p m) = nat (m_nsamples (sample (handle_metadata h)))"
    and longest: "holds h c \<Longrightarrow> 0 < m_nsamples (sample (handle_metadata h)) \<and> m_nsamples (sample (handle_metadata h)) \<le> longest h"
    and trace_bytes: "holds h c \<Longrightarrow> longest h * int k < 2 ^ 31 \<Longrightarrow>
      trace_bytes h k = Inr (4 * (m_nsamples (sample (handle_metadata h)) * int k))"
    and read_trace: "holds h c \<Longrightarrow> trace_positions (handle_metadata h) coords \<Longrightarrow> longest h * int (length coords) < 2 ^ 31 \<Longrightarrow>
      to_interpolation ip = Inr m \<Longrightarrow> int (length buf) = m_nsamples (sample (handle_metadata h)) * int (length coords) \<Longrightarrow>
      read_trace h buf (4 * int (length buf)) coords (length coords) ip =
        Inr (map Some (concat (map (\<lambda>p. cube_trace c p m) coords)))"
    and sample_bytes: "holds h c \<Longrightarrow> sample_bytes h k = Inr (4 * int k)"
    and read_sample: "holds h c \<Longrightarrow> 6 * int (length coords) < 2 ^ 31 \<Longrightarrow> to_interpolation ip = Inr m \<Longrightarrow>
      length coords \<le> length buf \<Longrightarrow>
      read_sample h buf (4 * int (length coords)) coords (length coords) ip =
        Inr (map Some (map (\<lambda>p. cube_sample c p m) coords) @ drop (length coords) buf)"
begin

text \<open>Reads into new buffers of the size the handle asks for.\<close>

lemma read_new_subset:
  assumes "holds h c" and "box_in (cube_extents c) (sc_lower sc) (sc_upper sc)" and "int (length (subcube_voxels sc)) < 2 ^ 61"
  shows "rbind (subset_bytes h sc) (\<lambda>bytes. rbind (new_char_array bytes) (\<lambda>buf.
      rbind (read_subset h buf bytes sc) (\<lambda>buf'. f buf' bytes))) =
    f (map Some (map (cube_voxel c) (subcube_voxels sc))) (4 * int (length (subcube_voxels sc)))"
  using subset_bytes[OF assms(1,2)] read_subset[OF assms] by (simp add: new_char_array_floats)

lemma read_new_traces:
  assumes "holds h c" and "trace_positions (handle_metadata h) coords" and "longest h * int (length coords) < 2 ^ 31"
    and "to_interpolation ip = Inr m"
  shows "rbind (trace_bytes h (length coords)) (\<lambda>bytes. rbind (new_char_array bytes) (\<lambda>buf.
      rbind (read_trace h buf bytes coords (length coords) ip) (\<lambda>buf'. f buf' bytes))) =
    f (map Some (concat (map (\<lambda>p. cube_trace c p m) coords)))
      (4 * (m_nsamples (sample (handle_metadata h)) * int (length coords)))"
proof -
  define n where "n = nat (m_nsamples (sample (handle_metadata h))) * length coords"
  have n: "m_nsamples (sample (handle_metadata h)) * int (length coords) = int n"
    using longest[OF assms(1)] by (simp add: n_def)
  have "trace_bytes h (length coords) = Inr (4 * int n)" using trace_bytes[OF assms(1,3)] by (simp only: n)
  moreover have "read_trace h (replicate n None) (4 * int n) coords (length coords) ip =
      Inr (map Some (concat (map (\<lambda>p. cube_trace c p m) coords)))"
    using read_trace[OF assms(1-4), of "replicate n None"] by (simp add: n)
  ultimately show ?thesis by (simp add: new_char_array_floats n)
qed

end

text \<open>One VDS, with what the library promises of its access manager.\<close>

definition single_holds :: "SingleDataHandle \<Rightarrow> cube \<Rightarrow> bool" where
  "single_holds h c \<longleftrightarrow> holds_volume (cube_extents c) (cube_voxel c) (m_access_manager h) \<and>
     holds_traces (int (m_dimension (sample (single_get_metadata h)))) (m_nsamples (sample (single_get_metadata h)))
       (cube_trace c) (m_access_manager h) \<and>
     holds_samples (cube_sample c) (m_access_manager h) \<and> 0 < m_nsamples (sample (single_get_metadata h))"

definition single_longest :: "SingleDataHandle \<Rightarrow> int" where
  "single_longest h = m_nsamples (sample (single_get_metadata h))"

lemma single_read_traces_exact:
  assumes h: "single_holds h c" and ip: "to_interpolation ip = Inr m"
    and len: "int (length buf) = m_nsamples (sample (single_get_metadata h)) * int (length coords)"
  shows "single_read_traces h buf (4 * int (length buf)) coords (length coords) ip =
    Inr (map Some (concat (map (\<lambda>p. cube_trace c p m) coords)))"
proof -
  let ?n = "m_nsamples (sample (single_get_metadata h))"
  have n: "0 < ?n" "\<And>p m. length (cube_trace c p m) = nat ?n" using h by (simp_all add: single_holds_def holds_traces_def)
  have "int (length (concat (map (\<lambda>p. cube_trace c p m) coords))) = int (length buf)"
    using n by (subst length_concat_uniform[of _ "nat ?n"]) (auto simp: len)
  then have fits: "length (concat (map (\<lambda>p. cube_trace c p m) coords)) = length buf" by (simp only: of_nat_eq_iff)
  show ?thesis
    using h ip by (simp add: single_read_traces_def single_holds_def holds_traces_def len complete_exact[OF fits])
qed

interpretation single_reader: cube_reader single_holds single_get_metadata single_longest
  single_subcube_buffer_size single_read_subcube single_traces_buffer_size single_read_traces
  single_samples_buffer_size single_read_samples
proof unfold_locales
  fix h c ip m and coords :: "voxel list" and buf :: buffer
  assume "single_holds h c" "to_interpolation ip = Inr m" "length coords \<le> length buf"
  then show "single_read_samples h buf (4 * int (length coords)) coords (length coords) ip =
      Inr (map Some (map (\<lambda>p. cube_sample c p m) coords) @ drop (length coords) buf)"
    by (simp add: single_read_samples_def single_holds_def holds_samples_def complete_prefix)
qed ((rule single_read_traces_exact; assumption) | simp add: single_holds_def single_longest_def holds_volume_def holds_traces_def
  holds_samples_def single_subcube_buffer_size_def single_read_subcube_def single_traces_buffer_size_def
  single_samples_buffer_size_def complete_exact)+

text \<open>
  Two VDSs: the cube of the intersection. The value at a voxel is the operator applied to
  the values of the two cubes at the voxel moved by their shifts, a trace is made from the
  parts of the two traces that lie in the intersection, a sample from the samples at the
  moved positions.
\<close>

abbreviation to_a :: "DoubleCoordinateTransformer \<Rightarrow> voxel \<Rightarrow> voxel" where
  "to_a t p \<equiv> to_cube_a_voxel_position add_float t (replicate 6 0) p"

abbreviation to_b :: "DoubleCoordinateTransformer \<Rightarrow> voxel \<Rightarrow> voxel" where
  "to_b t p \<equiv> to_cube_b_voxel_position add_float t (replicate 6 0) p"

definition combine :: "(fp \<Rightarrow> fp \<Rightarrow> fp) \<Rightarrow> DoubleCoordinateTransformer \<Rightarrow> Axis \<Rightarrow> int list \<Rightarrow> cube \<Rightarrow> cube \<Rightarrow> cube" where
  "combine f t a extents ca cb = \<lparr>
     cube_extents = extents,
     cube_voxel = (\<lambda>v. f (cube_voxel ca (map2 (+) (shift_a t) v)) (cube_voxel cb (map2 (+) (shift_b t) v))),
     cube_trace = (\<lambda>p m. map2 f
       (cut (nat (shift_a t ! m_dimension a)) (nat (m_nsamples a)) (cube_trace ca (to_a t p) m))
       (cut (nat (shift_b t ! m_dimension a)) (nat (m_nsamples a)) (cube_trace cb (to_b t p) m))),
     cube_sample = (\<lambda>p m. f (cube_sample ca (to_a t p) m) (cube_sample cb (to_b t p) m))\<rparr>"

text \<open>The intersection lies within a cube: moved by the shift, along every dimension and along the traces.\<close>

definition inside :: "int list \<Rightarrow> Axis \<Rightarrow> int list \<Rightarrow> Axis \<Rightarrow> int list \<Rightarrow> bool" where
  "inside extents a sh a' extents' \<longleftrightarrow> length extents = 6 \<and> length extents' = 6 \<and>
     list_all (\<lambda>d. 0 \<le> sh ! d \<and> sh ! d + extents ! d \<le> extents' ! d) [0..<6] \<and>
     sh ! m_dimension a \<le> 2 ^ 22 \<and> sh ! m_dimension a + m_nsamples a \<le> m_nsamples a'"

definition double_holds :: "DoubleDataHandle \<Rightarrow> cube \<Rightarrow> bool" where
  "double_holds h c \<longleftrightarrow> (\<exists>f ca cb extents orig step.
     let t = dm_coordinate_transformer (dd_metadata h); a = sample (double_get_metadata h) in
     single_holds (m_datahandle_a h) ca \<and> single_holds (m_datahandle_b h) cb \<and> m_binary_operator h = inplace f \<and>
     survey_transformer orig step (m_transformer_a t) \<and> m_dimension a < 3 \<and> 0 < m_nsamples a \<and>
     inside extents a (shift_a t) (sample (single_get_metadata (m_datahandle_a h))) (cube_extents ca) \<and>
     inside extents a (shift_b t) (sample (single_get_metadata (m_datahandle_b h))) (cube_extents cb) \<and>
     c = combine f t a extents ca cb)"

definition double_longest :: "DoubleDataHandle \<Rightarrow> int" where
  "double_longest h = max (int Dimensionality_Max) (max (single_longest (m_datahandle_a h)) (single_longest (m_datahandle_b h)))"

lemma inside_box:
  assumes "inside extents a sh a' extents'" and "box_in extents lower upper" and "length sh = 6"
  shows "box_in extents' (map2 (+) sh lower) (map2 (+) sh upper)" and "box_in extents' lower upper"
  using assms by (fastforce simp: inside_def box_in_def list_all_iff)+

lemma moved_all: "6 * int (length coords) < 2 ^ 31 \<Longrightarrow> moved f coords (length coords) = Inr (map (f (replicate 6 0)) coords)"
proof -
  assume "6 * int (length coords) < 2 ^ 31"
  then have "6 * int v < 2147483648" if "v < length coords" for v using that by simp
  then have "moved f coords (length coords) = Inr (map (\<lambda>v. f (replicate 6 0) (coords ! v)) [0..<length coords])"
    unfolding moved_def by (intro rmap_total) simp
  also have "map (\<lambda>v. f (replicate 6 0) (coords ! v)) [0..<length coords] = map (f (replicate 6 0)) (map ((!) coords) [0..<length coords])"
    by simp
  finally show ?thesis by (simp only: map_nth)
qed

lemma map2_map_same: "map2 f (map g xs) (map h xs) = map (\<lambda>x. f (g x) (h x)) xs"
  by (induction xs) simp_all

lemma double_holdsE:
  assumes "double_holds h c"
  obtains f ca cb extents orig step where
    "single_holds (m_datahandle_a h) ca" "single_holds (m_datahandle_b h) cb" "m_binary_operator h = inplace f"
    "survey_transformer orig step (m_transformer_a (dm_coordinate_transformer (dd_metadata h)))"
    "m_dimension (sample (double_get_metadata h)) < 3" "0 < m_nsamples (sample (double_get_metadata h))"
    "inside extents (sample (double_get_metadata h)) (shift_a (dm_coordinate_transformer (dd_metadata h)))
      (sample (single_get_metadata (m_datahandle_a h))) (cube_extents ca)"
    "inside extents (sample (double_get_metadata h)) (shift_b (dm_coordinate_transformer (dd_metadata h)))
      (sample (single_get_metadata (m_datahandle_b h))) (cube_extents cb)"
    "c = combine f (dm_coordinate_transformer (dd_metadata h)) (sample (double_get_metadata h)) extents ca cb"
  using assms unfolding double_holds_def Let_def by blast

lemma double_read_subcube_combined:
  assumes h: "double_holds h c" and box: "box_in (cube_extents c) (sc_lower sc) (sc_upper sc)"
    and small: "int (length (subcube_voxels sc)) < 2 ^ 61" and buf: "length buf = length (subcube_voxels sc)"
  shows "double_read_subcube h buf (4 * int (length (subcube_voxels sc))) sc = Inr (map Some (map (cube_voxel c) (subcube_voxels sc)))"
proof -
  let ?t = "dm_coordinate_transformer (dd_metadata h)" and ?n = "length (subcube_voxels sc)"
  obtain f ca cb extents orig step where ha: "single_holds (m_datahandle_a h) ca" and hb: "single_holds (m_datahandle_b h) cb"
    and f: "m_binary_operator h = inplace f" and t: "survey_transformer orig step (m_transformer_a ?t)"
    and ia: "inside extents (sample (double_get_metadata h)) (shift_a ?t) (sample (single_get_metadata (m_datahandle_a h))) (cube_extents ca)"
    and ib: "inside extents (sample (double_get_metadata h)) (shift_b ?t) (sample (single_get_metadata (m_datahandle_b h))) (cube_extents cb)"
    and c: "c = combine f ?t (sample (double_get_metadata h)) extents ca cb"
    using double_holdsE[OF h] by metis
  have b: "box_in extents (sc_lower sc) (sc_upper sc)" using box by (simp add: c combine_def)
  then have len: "length (sc_lower sc) = 6" "length (sc_upper sc) = 6" by (simp_all add: box_in_def)
  define sa where "sa = sc\<lparr>sc_lower := map2 (+) (shift_a ?t) (sc_lower sc), sc_upper := map2 (+) (shift_a ?t) (sc_upper sc)\<rparr>"
  define sb where "sb = sc\<lparr>sc_lower := map2 (+) (shift_b ?t) (sc_lower sc), sc_upper := map2 (+) (shift_b ?t) (sc_upper sc)\<rparr>"
  have vox: "subcube_voxels sa = map (map2 (+) (shift_a ?t)) (subcube_voxels sc)"
    "subcube_voxels sb = map (map2 (+) (shift_b ?t)) (subcube_voxels sc)"
    using len by (simp_all add: sa_def sb_def voxels_shift)
  have "box_in (cube_extents ca) (sc_lower sa) (sc_upper sa)" "box_in (cube_extents cb) (sc_lower sb) (sc_upper sb)"
    using inside_box(1)[OF ia b] inside_box(1)[OF ib b] by (simp_all add: sa_def sb_def)
  then have reads:
    "single_read_subcube (m_datahandle_a h) buf (4 * int ?n) sa =
      Inr (map Some (map (\<lambda>v. cube_voxel ca (map2 (+) (shift_a ?t) v)) (subcube_voxels sc)))"
    "single_read_subcube (m_datahandle_b h) (replicate ?n (Some (Fin 0))) (4 * int ?n) sb =
      Inr (map Some (map (\<lambda>v. cube_voxel cb (map2 (+) (shift_b ?t) v)) (subcube_voxels sc)))"
    using single_reader.read_subset[OF ha, of sa buf] single_reader.read_subset[OF hb, of sb "replicate ?n (Some (Fin 0))"]
      small buf by (simp_all add: vox comp_def)
  show ?thesis
    unfolding double_read_subcube_def Let_def to_cube_shift[OF t len(1)] to_cube_shift[OF t len(2)] sa_def[symmetric] sb_def[symmetric]
      char_vector_floats rbind_Inr reads f bytes_floats(1)[OF small]
    using inplace_all[of "map (\<lambda>v. cube_voxel ca (map2 (+) (shift_a ?t) v)) (subcube_voxels sc)" ?n
        "map (\<lambda>v. cube_voxel cb (map2 (+) (shift_b ?t) v)) (subcube_voxels sc)" f "[]" "[]"]
    by (simp add: map2_map_same c combine_def comp_def del: map_map)
qed

lemma double_read_samples_combined:
  assumes h: "double_holds h c" and sm: "6 * int (length coords) < 2 ^ 31" and ip: "to_interpolation ip = Inr m"
    and buf: "length coords \<le> length buf"
  shows "double_read_samples h buf (4 * int (length coords)) coords (length coords) ip =
    Inr (map Some (map (\<lambda>p. cube_sample c p m) coords) @ drop (length coords) buf)"
proof -
  let ?t = "dm_coordinate_transformer (dd_metadata h)" and ?n = "length coords"
  have small: "int ?n < 2 ^ 61" using sm by simp
  obtain f ca cb extents where ha: "single_holds (m_datahandle_a h) ca" and hb: "single_holds (m_datahandle_b h) cb"
    and f: "m_binary_operator h = inplace f"
    and c: "c = combine f ?t (sample (double_get_metadata h)) extents ca cb"
    using double_holdsE[OF h] by metis
  have reads:
    "single_read_samples (m_datahandle_a h) buf (4 * int ?n) (map (to_a ?t) coords) ?n ip =
      Inr (map Some (map (\<lambda>p. cube_sample ca (to_a ?t p) m) coords) @ drop ?n buf)"
    "single_read_samples (m_datahandle_b h) (replicate ?n (Some (Fin 0))) (4 * int ?n) (map (to_b ?t) coords) ?n ip =
      Inr (map Some (map (\<lambda>p. cube_sample cb (to_b ?t p) m) coords) @ [])"
    using single_reader.read_sample[OF ha _ ip, of "map (to_a ?t) coords" buf]
      single_reader.read_sample[OF hb _ ip, of "map (to_b ?t) coords" "replicate ?n (Some (Fin 0))"] sm buf
    by (simp_all add: comp_def)
  have "inplace f (map Some (map (\<lambda>p. cube_sample ca (to_a ?t p) m) coords) @ drop ?n buf)
      (map Some (map (\<lambda>p. cube_sample cb (to_b ?t p) m) coords) @ []) ?n =
    Inr (map Some (map (\<lambda>p. cube_sample c p m) coords) @ drop ?n buf)"
    by (subst inplace_all) (simp_all only: length_map map2_map_same, simp add: c combine_def)
  then show ?thesis
    unfolding double_read_samples_def Let_def moved_all[OF sm] rbind_Inr reads f bytes_floats(1)[OF small] float_vector_small[OF small] .
qed

lemma map2_concat:
  "(\<And>p. p \<in> set ps \<Longrightarrow> length (g p) = length (h p)) \<Longrightarrow>
    map2 f (concat (map g ps)) (concat (map h ps)) = concat (map (\<lambda>p. map2 f (g p) (h p)) ps)"
  by (induction ps) simp_all

lemma to_i64_small: "0 \<le> x \<Longrightarrow> x < 2 ^ 63 \<Longrightarrow> to_i64 x = x"
  by (simp add: to_i64_def)

text \<open>One of the two reads, and the part of it that lies in the intersection.\<close>

lemma sized_read:
  assumes h: "single_holds h c" and ip: "to_interpolation ip = Inr m" and small: "single_longest h * int (length ps) < 2 ^ 31"
  shows "rbind (single_traces_buffer_size h (length ps)) (\<lambda>bytes.
      rbind (float_vector (to_size_t bytes div 4)) (\<lambda>buffer.
      rbind (single_read_traces h buffer (to_i64 bytes) ps (length ps) ip) k)) =
    k (map Some (concat (map (\<lambda>p. cube_trace c p m) ps)))"
proof -
  let ?len = "m_nsamples (sample (single_get_metadata h))"
  define total where "total = nat ?len * length ps"
  have total: "?len * int (length ps) = int total" using single_reader.longest[OF h] by (simp add: total_def)
  have lt: "total < 2 ^ 31" using small by (simp add: single_longest_def total)
  have "single_traces_buffer_size h (length ps) = Inr (4 * int total)"
    using single_reader.trace_bytes[OF h small] by (simp add: total)
  moreover have "single_read_traces h (replicate total (Some (Fin 0))) (4 * int total) ps (length ps) ip =
      Inr (map Some (concat (map (\<lambda>p. cube_trace c p m) ps)))"
    using single_read_traces_exact[OF h ip, of "replicate total (Some (Fin 0))" ps] by (simp add: total)
  ultimately show ?thesis
    using lt bytes_floats(1)[of total] by (simp add: float_vector_small to_i64_small)
qed

lemma cut_read:
  assumes h: "single_holds h c" and small: "single_longest h * int (length ps) < 2 ^ 31"
    and i: "inside extents a sh (sample (single_get_metadata h)) extents'" and d: "m_dimension a < 3"
    and n: "0 < m_nsamples a" and target: "length target = nat (m_nsamples a) * length ps"
  defines "st \<equiv> sh ! m_dimension a"
  shows "extract_continuous_part_of_trace (map Some (concat (map (\<lambda>p. cube_trace c p m) ps)))
      (m_nsamples (sample (single_get_metadata h))) (trunc (f32 (f32 (of_int st) + 1 / 2))) (m_nsamples a) target =
    Inr (map Some (concat (map (\<lambda>p. cut (nat st) (nat (m_nsamples a)) (cube_trace c p m)) ps)))"
    and "length (cut (nat st) (nat (m_nsamples a)) (cube_trace c p m)) = nat (m_nsamples a)"
    and "m_nsamples a \<le> single_longest h"
proof -
  let ?len = "m_nsamples (sample (single_get_metadata h))" and ?n = "m_nsamples a"
  have pos: "0 < ?len" and tr: "\<And>p. length (cube_trace c p m) = nat ?len"
    using single_reader.longest[OF h] single_reader.trace_length[OF h] by auto
  have "m_dimension a \<in> set [0..<6]" using d by simp
  then have st: "0 \<le> st" "st \<le> 2 ^ 22" "st + ?n \<le> ?len" using i unfolding inside_def list_all_iff st_def by blast+
  have "int (nat ?len * length ps) < int (2 ^ 31)" using small pos by (simp add: single_longest_def)
  then have lt: "nat ?len * length ps < 2 ^ 31" by (simp only: of_nat_less_iff)
  have "extract_continuous_part_of_trace (map Some (concat (map (\<lambda>p. cube_trace c p m) ps))) (int (nat ?len)) (int (nat st)) (int (nat ?n)) target =
      Inr (map Some (concat (map (cut (nat st) (nat ?n)) (map (\<lambda>p. cube_trace c p m) ps))))"
    using pos tr st n lt target by (intro extract_traces) auto
  then show "extract_continuous_part_of_trace (map Some (concat (map (\<lambda>p. cube_trace c p m) ps)))
      ?len (trunc (f32 (f32 (of_int st) + 1 / 2))) ?n target =
    Inr (map Some (concat (map (\<lambda>p. cut (nat st) (nat ?n) (cube_trace c p m)) ps)))"
    using pos st n by (simp add: trunc_half comp_def)
  show "length (cut (nat st) (nat ?n) (cube_trace c p m)) = nat ?n" using st tr by (simp add: cut_def)
  show "?n \<le> single_longest h" using st by (simp add: single_longest_def)
qed

lemma double_read_traces_combined:
  assumes h: "double_holds h c" and ps: "trace_positions (double_get_metadata h) ps"
    and small: "double_longest h * int (length ps) < 2 ^ 31" and ip: "to_interpolation ip = Inr m"
    and buf: "int (length buf) = m_nsamples (sample (double_get_metadata h)) * int (length ps)"
  shows "double_read_traces h buf (4 * int (length buf)) ps (length ps) ip =
    Inr (map Some (concat (map (\<lambda>p. cube_trace c p m) ps)))"
proof -
  let ?t = "dm_coordinate_transformer (dd_metadata h)" and ?a = "sample (double_get_metadata h)"
  let ?d = "m_dimension ?a" and ?n = "m_nsamples ?a"
  obtain f ca cb extents orig step where ha: "single_holds (m_datahandle_a h) ca" and hb: "single_holds (m_datahandle_b h) cb"
    and f: "m_binary_operator h = inplace f" and t: "survey_transformer orig step (m_transformer_a ?t)"
    and d: "?d < 3" and n: "0 < ?n"
    and ia: "inside extents ?a (shift_a ?t) (sample (single_get_metadata (m_datahandle_a h))) (cube_extents ca)"
    and ib: "inside extents ?a (shift_b ?t) (sample (single_get_metadata (m_datahandle_b h))) (cube_extents cb)"
    and c: "c = combine f ?t ?a extents ca cb"
    using double_holdsE[OF h] by metis
  define ga where "ga = (\<lambda>p. cut (nat (shift_a ?t ! ?d)) (nat ?n) (cube_trace ca (to_a ?t p) m))"
  define gb where "gb = (\<lambda>p. cut (nat (shift_b ?t ! ?d)) (nat ?n) (cube_trace cb (to_b ?t p) m))"
  define total where "total = nat ?n * length ps"
  have "single_longest (m_datahandle_a h) * int (length ps) \<le> double_longest h * int (length ps)"
    "single_longest (m_datahandle_b h) * int (length ps) \<le> double_longest h * int (length ps)"
    "int Dimensionality_Max * int (length ps) \<le> double_longest h * int (length ps)"
    by (simp_all add: double_longest_def mult_right_mono)
  then have la: "single_longest (m_datahandle_a h) * int (length (map (to_a ?t) ps)) < 2 ^ 31"
    and lb: "single_longest (m_datahandle_b h) * int (length (map (to_b ?t) ps)) < 2 ^ 31"
    and sm: "6 * int (length ps) < 2 ^ 31" using small by simp_all
  note ca = cut_read[OF ha la ia d n] and cb = cut_read[OF hb lb ib d n]
  have total: "length buf = total" "length (replicate total (Some (Fin 0))) = nat ?n * length (map (to_b ?t) ps)"
    using buf n by (simp_all add: total_def flip: of_nat_eq_iff[where 'a = int])
  have lens: "length (ga p) = nat ?n" "length (gb p) = nat ?n" for p
    unfolding ga_def gb_def using total by (auto intro!: ca(2) cb(2) simp: total_def)
  have lt: "int total < 2 ^ 31"
  proof -
    have "?n * int (length ps) \<le> single_longest (m_datahandle_a h) * int (length ps)"
      using ca(3) total by (intro mult_right_mono) (auto simp: total_def)
    then show ?thesis using la n by (simp add: total_def)
  qed
  have "0 < length ps" using ps by (simp add: trace_positions_def)
  then have "nat ?n * 1 \<le> total" unfolding total_def by (intro mult_le_mono2) (simp add: Suc_leI)
  then have "int (nat ?n) \<le> int total" by (simp only: of_nat_le_iff mult_1_right)
  then have "to_size_t ?n = nat ?n" using lt n by (intro to_size_t_nonneg) simp_all
  moreover have "wrap64 total = total" using lt by (simp add: wrap64_def)
  ultimately have wrapped: "wrap64 (to_size_t ?n * length ps) = total" by (simp add: total_def)
  have first: "first_coordinate (map (to_a ?t) ps) ?d = Inr (f32 (of_int (shift_a ?t ! ?d)))"
    "first_coordinate (map (to_b ?t) ps) ?d = Inr (f32 (of_int (shift_b ?t ! ?d)))"
    using ps moved_start[OF t d] by (cases ps; simp add: trace_positions_def first_coordinate_def)+
  have ext: "extract_continuous_part_of_trace (map Some (concat (map (\<lambda>p. cube_trace ca p m) (map (to_a ?t) ps))))
      (m_nsamples (sample (single_get_metadata (m_datahandle_a h)))) (trunc (f32 (f32 (of_int (shift_a ?t ! ?d)) + 1 / 2))) ?n buf =
      Inr (map Some (concat (map ga ps)))"
    "extract_continuous_part_of_trace (map Some (concat (map (\<lambda>p. cube_trace cb p m) (map (to_b ?t) ps))))
      (m_nsamples (sample (single_get_metadata (m_datahandle_b h)))) (trunc (f32 (f32 (of_int (shift_b ?t ! ?d)) + 1 / 2))) ?n
      (replicate total (Some (Fin 0))) = Inr (map Some (concat (map gb ps)))"
    using ca(1)[of buf m] cb(1)[OF total(2), of m] total by (simp_all add: total_def ga_def gb_def comp_def)
  have "inplace f (map Some (concat (map ga ps))) (map Some (concat (map gb ps))) total =
      Inr (map Some (concat (map (\<lambda>p. map2 f (ga p) (gb p)) ps)))"
    using inplace_all[of "concat (map ga ps)" total "concat (map gb ps)" f "[]" "[]"] lens
    by (simp add: length_concat comp_def sum_list_triv total_def map2_concat)
  moreover have "map2 f (ga p) (gb p) = cube_trace c p m" for p by (simp add: c combine_def ga_def gb_def)
  moreover have small': "int total < 2 ^ 61" using lt by simp
  ultimately show ?thesis
    unfolding double_read_traces_def Let_def moved_all[OF sm] rbind_Inr sized_read[OF ha ip la, simplified length_map]
      sized_read[OF hb ip lb, simplified length_map] first ext wrapped f float_vector_small[OF small'] total(1)
      bytes_floats(1)[OF small'] by simp
qed

text \<open>The contract holds for two VDSs, and so for both kinds of handle.\<close>

interpretation double_reader: cube_reader double_holds double_get_metadata double_longest
  double_subcube_buffer_size double_read_subcube double_traces_buffer_size double_read_traces
  double_samples_buffer_size double_read_samples
proof unfold_locales
  fix h c k and sc :: SubCube and p m
  assume h: "double_holds h c"
  let ?a = "sample (double_get_metadata h)" and ?t = "dm_coordinate_transformer (dd_metadata h)"
  obtain f ca cb extents where ha: "single_holds (m_datahandle_a h) ca" and hb: "single_holds (m_datahandle_b h) cb"
    and n: "0 < m_nsamples ?a" and d: "m_dimension ?a < 3"
    and ia: "inside extents ?a (shift_a ?t) (sample (single_get_metadata (m_datahandle_a h))) (cube_extents ca)"
    and ib: "inside extents ?a (shift_b ?t) (sample (single_get_metadata (m_datahandle_b h))) (cube_extents cb)"
    and c: "c = combine f ?t ?a extents ca cb"
    using double_holdsE[OF h] by metis
  have "length (cut (nat (shift_a ?t ! m_dimension ?a)) (nat (m_nsamples ?a)) (cube_trace ca q m)) = nat (m_nsamples ?a)"
    "length (cut (nat (shift_b ?t ! m_dimension ?a)) (nat (m_nsamples ?a)) (cube_trace cb q m)) = nat (m_nsamples ?a)" for q
    using cut_read(2)[OF ha _ ia d n, of "[]" "[]"] cut_read(2)[OF hb _ ib d n, of "[]" "[]"] by simp_all
  then show "length (cube_trace c p m) = nat (m_nsamples ?a)" by (simp add: c combine_def)
  show longest: "0 < m_nsamples ?a \<and> m_nsamples ?a \<le> double_longest h"
    using n cut_read(3)[OF ha _ ia d n, of "[]" "[]"] by (simp add: double_longest_def)
  show "double_subcube_buffer_size h sc = Inr (4 * int (length (subcube_voxels sc)))"
    if "box_in (cube_extents c) (sc_lower sc) (sc_upper sc)"
    using that inside_box(2)[OF ia] by (simp add: double_subcube_buffer_size_def single_reader.subset_bytes[OF ha] c combine_def)
  show "double_samples_buffer_size h k = Inr (4 * int k)"
    by (simp add: double_samples_buffer_size_def single_reader.sample_bytes[OF ha])
  show "double_traces_buffer_size h k = Inr (4 * (m_nsamples ?a * int k))" if "double_longest h * int k < 2 ^ 31"
  proof (cases k)
    case (Suc j)
    have "m_nsamples ?a * int k \<le> double_longest h * int k" using longest by (intro mult_right_mono) simp_all
    then have le: "m_nsamples ?a * int k < 2 ^ 31" using that by linarith
    moreover have "m_nsamples ?a * 1 \<le> m_nsamples ?a * int k" using n Suc by (intro mult_left_mono) simp_all
    ultimately have "m_nsamples ?a < 2 ^ 31" by linarith
    then have "to_size_t (m_nsamples ?a) = nat (m_nsamples ?a)" using n by (intro to_size_t_nonneg) simp_all
    define q where "q = to_size_t (m_nsamples ?a) * k"
    have q: "m_nsamples ?a * int k = int q" using \<open>to_size_t _ = _\<close> n by (simp add: q_def)
    then have "wrap64 q = q" "wrap64 (q * 4) = q * 4" using le by (simp_all add: wrap64_def)
    then show ?thesis using le by (simp add: double_traces_buffer_size_def to_i64_small q flip: q_def)
  qed (simp add: double_traces_buffer_size_def wrap64_def to_i64_small)
qed (rule double_read_subcube_combined double_read_traces_combined double_read_samples_combined; assumption)+

fun holds_cube :: "DataHandle \<Rightarrow> cube \<Rightarrow> bool" where
  "holds_cube (SingleData h) = single_holds h"
| "holds_cube (DoubleData h) = double_holds h"

fun longest_trace :: "DataHandle \<Rightarrow> int" where
  "longest_trace (SingleData h) = single_longest h"
| "longest_trace (DoubleData h) = double_longest h"

interpretation reader: cube_reader holds_cube get_metadata longest_trace
  subcube_buffer_size read_subcube traces_buffer_size read_traces samples_buffer_size read_samples
proof unfold_locales
  fix h c and sc :: SubCube and coords and ip m p k and buf :: buffer
  assume "holds_cube h c"
  then consider a where "h = SingleData a" "single_holds a c" | b where "h = DoubleData b" "double_holds b c"
    by (cases h) auto
  note h = this
  show "subcube_buffer_size h sc = Inr (4 * int (length (subcube_voxels sc)))"
    if "box_in (cube_extents c) (sc_lower sc) (sc_upper sc)"
    using h by cases (simp_all add: that single_reader.subset_bytes double_reader.subset_bytes)
  show "read_subcube h buf (4 * int (length (subcube_voxels sc))) sc = Inr (map Some (map (cube_voxel c) (subcube_voxels sc)))"
    if "box_in (cube_extents c) (sc_lower sc) (sc_upper sc)" "int (length (subcube_voxels sc)) < 2 ^ 61"
      "length buf = length (subcube_voxels sc)"
    using h by cases (use that single_reader.read_subset double_reader.read_subset in simp_all)
  show "length (cube_trace c p m) = nat (m_nsamples (sample (get_metadata h)))"
    using h by cases (simp_all add: single_reader.trace_length double_reader.trace_length)
  show "0 < m_nsamples (sample (get_metadata h)) \<and> m_nsamples (sample (get_metadata h)) \<le> longest_trace h"
    using h by cases (simp_all add: single_reader.longest double_reader.longest)
  show "traces_buffer_size h k = Inr (4 * (m_nsamples (sample (get_metadata h)) * int k))" if "longest_trace h * int k < 2 ^ 31"
    using h that by cases (simp_all add: single_reader.trace_bytes double_reader.trace_bytes)
  show "read_traces h buf (4 * int (length buf)) coords (length coords) ip = Inr (map Some (concat (map (\<lambda>p. cube_trace c p m) coords)))"
    if "trace_positions (get_metadata h) coords" "longest_trace h * int (length coords) < 2 ^ 31" "to_interpolation ip = Inr m"
      "int (length buf) = m_nsamples (sample (get_metadata h)) * int (length coords)"
    using h by cases (use that single_reader.read_trace[of _ c coords ip m buf] double_reader.read_trace[of _ c coords ip m buf] in simp_all)
  show "samples_buffer_size h k = Inr (4 * int k)"
    using h by cases (simp_all add: single_reader.sample_bytes double_reader.sample_bytes)
  show "read_samples h buf (4 * int (length coords)) coords (length coords) ip =
      Inr (map Some (map (\<lambda>p. cube_sample c p m) coords) @ drop (length coords) buf)"
    if "6 * int (length coords) < 2 ^ 31" "to_interpolation ip = Inr m" "length coords \<le> length buf"
    using h by cases (use that single_reader.read_sample double_reader.read_sample in simp_all)
qed

text \<open>The operators, and the handles they give.\<close>

fun operator_of :: "binary_operator \<Rightarrow> fp \<Rightarrow> fp \<Rightarrow> fp" where
  "operator_of ADDITION = fadd f32"
| "operator_of SUBTRACTION = fsub f32"
| "operator_of MULTIPLICATION = fmul f32"
| "operator_of DIVISION = fdiv f32"
| "operator_of _ = (\<lambda>_ _. NaN)"

lemma make_DoubleDataHandle_fields:
  assumes "make_DoubleDataHandle v ha hb symbol = Inr h"
  shows "m_datahandle_a h = ha" "m_datahandle_b h = hb" "m_binary_operator h = inplace (operator_of symbol)"
    "double_create v (sd_metadata ha) (sd_metadata hb) symbol = Inr (dd_metadata h)"
    "symbol \<in> {ADDITION, SUBTRACTION, MULTIPLICATION, DIVISION}"
  using assms
  by (auto simp: make_DoubleDataHandle_def inplace_addition_def inplace_subtraction_def inplace_multiplication_def
      inplace_division_def split: binary_operator.splits)

text \<open>The two cubes overlap in the intersection that the handle describes.\<close>

definition overlapping :: "DoubleDataHandle \<Rightarrow> int list \<Rightarrow> cube \<Rightarrow> cube \<Rightarrow> bool" where
  "overlapping h extents ca cb \<longleftrightarrow>
     (let t = dm_coordinate_transformer (dd_metadata h); a = sample (double_get_metadata h) in
      single_holds (m_datahandle_a h) ca \<and> single_holds (m_datahandle_b h) cb \<and>
      (\<exists>orig step. survey_transformer orig step (m_transformer_a t)) \<and> m_dimension a < 3 \<and> 0 < m_nsamples a \<and>
      inside extents a (shift_a t) (sample (single_get_metadata (m_datahandle_a h))) (cube_extents ca) \<and>
      inside extents a (shift_b t) (sample (single_get_metadata (m_datahandle_b h))) (cube_extents cb))"

lemma overlapping_holds:
  assumes "make_DoubleDataHandle v ha hb symbol = Inr h" and "overlapping h extents ca cb"
  shows "double_holds h (combine (operator_of symbol) (dm_coordinate_transformer (dd_metadata h))
    (sample (double_get_metadata h)) extents ca cb)"
  using assms(2) make_DoubleDataHandle_fields(3)[OF assms(1)]
  unfolding overlapping_def double_holds_def Let_def by blast

section \<open>A concrete handle\<close>

text \<open>A handle on the example survey, whose samples are all one.\<close>

definition example_data :: SingleDataHandle where
  "example_data = \<lparr>m_handle = \<lparr>vds_GetLayout = example_layout, vds_GetAccessManager = example_access\<rparr>,
     m_access_manager = example_access, sd_metadata = example_single\<rparr>"

definition example_cube :: cube where
  "example_cube = \<lparr>cube_extents = [4, 2, 3, 1, 1, 1], cube_voxel = (\<lambda>_. Fin 1), cube_trace = (\<lambda>_ _. replicate 4 (Fin 1)),
     cube_sample = (\<lambda>_ _. Fin 1)\<rparr>"

definition example_sum :: DoubleDataHandle where
  "example_sum = \<lparr>m_datahandle_a = example_data, m_datahandle_b = example_data, dd_metadata = example_double ADDITION,
     m_binary_operator = inplace_addition\<rparr>"

lemma length_product_lists: "length (product_lists xss) = prod_list (map length xss)"
  by (induction xss) (simp_all add: length_concat comp_def sum_list_triv)

lemma int_prod_list: "int (prod_list ns) = prod_list (map int ns)"
  by (induction ns) simp_all

lemma length_voxels:
  assumes "length lower = length upper" and "list_all (\<lambda>d. lower ! d \<le> upper ! d) [0..<length lower]"
  shows "int (length (voxels lower upper)) = prod_list (map2 (\<lambda>l u. u - l) lower upper)"
proof -
  have "int (length (voxels lower upper)) = prod_list (map (int \<circ> length) (map2 (\<lambda>l u. [l..u - 1]) lower upper))"
    by (simp add: voxels_def length_product_lists rev_map[symmetric] prod_list.rev int_prod_list comp_def)
  also have "map (int \<circ> length) (map2 (\<lambda>l u. [l..u - 1]) lower upper) = map2 (\<lambda>l u. u - l) lower upper"
    using assms by (intro nth_equalityI) (auto simp: list_all_iff)
  finally show ?thesis .
qed

lemma example_data_holds: "single_holds example_data example_cube"
proof -
  have "holds_volume [4, 2, 3, 1, 1, 1] (\<lambda>_. Fin 1) example_access"
    unfolding holds_volume_def
  proof (intro allI impI)
    fix lower upper :: "int list" assume b: "box_in [4, 2, 3, 1, 1, 1] lower upper"
    then have "int (length (voxels lower upper)) = prod_list (map2 (\<lambda>l u. u - l) lower upper)"
      by (intro length_voxels) (auto simp: box_in_def list_all_iff)
    then show "GetVolumeSubsetBufferSize example_access lower upper = Inr (4 * int (length (voxels lower upper))) \<and>
        RequestVolumeSubset example_access (4 * int (length (voxels lower upper))) lower upper =
          Inr (Some (map (\<lambda>_. Fin 1) (voxels lower upper)))"
      by (simp add: example_access_def bytes_floats(2) map_replicate_const)
  qed
  moreover have "concat (map (\<lambda>c. replicate 4 (Fin 1)) coords) = replicate (4 * length coords) (Fin 1)" for coords :: "voxel list"
    by (induction coords) (simp_all add: replicate_add)
  then have "holds_traces 0 4 (\<lambda>_ _. replicate 4 (Fin 1)) example_access"
    by (simp add: holds_traces_def example_access_def nat_mult_distrib)
  moreover have "holds_samples (\<lambda>_ _. Fin 1) example_access"
    by (simp add: holds_samples_def example_access_def bytes_floats(2) map_replicate_const)
  moreover have "sample (single_get_metadata example_data) = make_Axis 4 16 4 ''Sample'' ''ms'' 0"
    by (simp add: single_get_metadata_def sample_def example_data_def example_single_def example_axes_def)
  ultimately show ?thesis by (simp add: single_holds_def example_cube_def example_data_def make_Axis_def)
qed

lemma example_sum:
  "make_DoubleDataHandle example_vds example_data example_data ADDITION = Inr example_sum"
  "overlapping example_sum [4, 2, 3, 1, 1, 1] example_cube example_cube"
  "shift_a (dm_coordinate_transformer (dd_metadata example_sum)) = [0, 0, 0, 0, 0, 0]"
  "shift_b (dm_coordinate_transformer (dd_metadata example_sum)) = [0, 0, 0, 0, 0, 0]"
proof -
  show "make_DoubleDataHandle example_vds example_data example_data ADDITION = Inr example_sum"
    by (simp add: make_DoubleDataHandle_def example_data_def example_sum_def example_double_create)
  show shifts: "shift_a (dm_coordinate_transformer (dd_metadata example_sum)) = [0, 0, 0, 0, 0, 0]"
    "shift_b (dm_coordinate_transformer (dd_metadata example_sum)) = [0, 0, 0, 0, 0, 0]"
    by code_simp+
  have "survey_transformer (Vec3 1 10 4) (Vec3 2 1 4) (m_transformer_a (dm_coordinate_transformer (dd_metadata example_sum)))"
    using example_survey[of "Vec3 2 1 4" "Vec3 1 10 4"] by (simp add: example_sum_def example_double_def example_single_def)
  moreover have "sample (double_get_metadata example_sum) = make_Axis 4 16 4 ''Sample'' ''ms'' 0"
    "sample (single_get_metadata example_data) = make_Axis 4 16 4 ''Sample'' ''ms'' 0"
    by (simp_all add: single_get_metadata_def double_get_metadata_def sample_def example_data_def example_sum_def
        example_single_def example_double_def example_axes_def)
  moreover have "m_datahandle_a example_sum = example_data" "m_datahandle_b example_sum = example_data"
    by (simp_all add: example_sum_def)
  moreover have "inside [4, 2, 3, 1, 1, 1] (make_Axis 4 16 4 ''Sample'' ''ms'' 0) [0, 0, 0, 0, 0, 0]
      (make_Axis 4 16 4 ''Sample'' ''ms'' 0) (cube_extents example_cube)"
    by code_simp
  ultimately show "overlapping example_sum [4, 2, 3, 1, 1, 1] example_cube example_cube"
    unfolding overlapping_def Let_def shifts by (auto simp: example_data_holds make_Axis_def)
qed

section \<open>Properties\<close>

text \<open>C6: A box read from a combination of two VDSs holds at every voxel the operator applied to the
  samples of the two VDSs at that voxel, each moved by the start of the intersection in its
  own cube; the order of the voxels is that of one VDS.\<close>

theorem intersection_box:
  assumes "make_DoubleDataHandle v ha hb symbol = Inr h" and "overlapping h extents ca cb"
    and "box_in extents (sc_lower sc) (sc_upper sc)" and "int (length (subcube_voxels sc)) < 2 ^ 61"
    and "length buf = length (subcube_voxels sc)"
  defines "t \<equiv> dm_coordinate_transformer (dd_metadata h)"
  shows "double_read_subcube h buf (4 * int (length (subcube_voxels sc))) sc =
    Inr (map (\<lambda>v. Some (operator_of symbol (cube_voxel ca (map2 (+) (shift_a t) v)) (cube_voxel cb (map2 (+) (shift_b t) v))))
      (subcube_voxels sc))"
  using double_reader.read_subset[OF overlapping_holds[OF assms(1,2)], of sc buf] assms(3-5)
  by (simp add: combine_def t_def comp_def)

theorem intersection_box_witness:
  "double_read_subcube example_sum [None, None] (4 * 2) \<lparr>sc_lower = [1, 0, 0, 0, 0, 0], sc_upper = [3, 1, 1, 1, 1, 1]\<rparr> =
    Inr [Some (Fin 2), Some (Fin 2)]"
proof -
  define sc where "sc = \<lparr>sc_lower = [1, 0, 0, 0, 0, 0], sc_upper = [3, 1, 1, 1, 1, 1]\<rparr>"
  have vox: "subcube_voxels sc = [[1, 0, 0, 0, 0, 0], [2, 0, 0, 0, 0, 0]]" unfolding sc_def by code_simp
  have box: "box_in [4, 2, 3, 1, 1, 1] (sc_lower sc) (sc_upper sc)" unfolding sc_def by code_simp
  have "double_read_subcube example_sum [None, None] (4 * int (length (subcube_voxels sc))) sc =
    Inr (map (\<lambda>v. Some (operator_of ADDITION
        (cube_voxel example_cube (map2 (+) (shift_a (dm_coordinate_transformer (dd_metadata example_sum))) v))
        (cube_voxel example_cube (map2 (+) (shift_b (dm_coordinate_transformer (dd_metadata example_sum))) v)))) (subcube_voxels sc))"
    by (rule intersection_box[OF example_sum(1,2) box]) (simp_all add: vox)
  then show ?thesis by (simp add: vox example_cube_def flip: sc_def)
qed

text \<open>C5: The traces read from a combination of two VDSs are cut to the intersection before they are
  combined: sample \<open>k\<close> of a trace is the operator applied to sample \<open>k\<close> after the start of the
  intersection of the two whole traces through the moved position.\<close>

theorem intersection_traces:
  assumes "make_DoubleDataHandle v ha hb symbol = Inr h" and "overlapping h extents ca cb"
    and "trace_positions (double_get_metadata h) ps" and "double_longest h * int (length ps) < 2 ^ 31"
    and "to_interpolation ip = Inr m"
    and "int (length buf) = m_nsamples (sample (double_get_metadata h)) * int (length ps)"
  defines "t \<equiv> dm_coordinate_transformer (dd_metadata h)" and "a \<equiv> sample (double_get_metadata h)"
  shows "double_read_traces h buf (4 * int (length buf)) ps (length ps) ip =
    Inr (map Some (concat (map (\<lambda>p. map2 (operator_of symbol)
      (cut (nat (shift_a t ! m_dimension a)) (nat (m_nsamples a)) (cube_trace ca (to_a t p) m))
      (cut (nat (shift_b t ! m_dimension a)) (nat (m_nsamples a)) (cube_trace cb (to_b t p) m))) ps)))"
  using double_reader.read_trace[OF overlapping_holds[OF assms(1,2)] assms(3-6)]
  by (simp add: combine_def t_def a_def)

theorem intersection_traces_witness:
  "double_read_traces example_sum (replicate 4 None) (4 * int 4) [replicate 6 0] 1 NEAREST =
    Inr (replicate 4 (Some (Fin 2)))"
proof -
  have ax: "sample (double_get_metadata example_sum) = make_Axis 4 16 4 ''Sample'' ''ms'' 0"
    "double_longest example_sum = 6" by code_simp+
  have "double_read_traces example_sum (replicate 4 None) (4 * int (length (replicate 4 (None :: fp option)))) [replicate 6 0] (length [replicate 6 (0::real)]) NEAREST =
    Inr (map Some (concat (map (\<lambda>p. map2 (operator_of ADDITION)
      (cut (nat (shift_a (dm_coordinate_transformer (dd_metadata example_sum)) ! m_dimension (sample (double_get_metadata example_sum))))
        (nat (m_nsamples (sample (double_get_metadata example_sum))))
        (cube_trace example_cube (to_a (dm_coordinate_transformer (dd_metadata example_sum)) p) Nearest))
      (cut (nat (shift_b (dm_coordinate_transformer (dd_metadata example_sum)) ! m_dimension (sample (double_get_metadata example_sum))))
        (nat (m_nsamples (sample (double_get_metadata example_sum))))
        (cube_trace example_cube (to_b (dm_coordinate_transformer (dd_metadata example_sum)) p) Nearest))) [replicate 6 0])))"
    by (rule intersection_traces[OF example_sum(1,2)])
      (simp_all add: ax trace_positions_def to_interpolation_def make_Axis_def)
  then show ?thesis by (simp add: ax example_sum example_cube_def make_Axis_def cut_def numeral_eq_Suc)
qed

text \<open>A request for no traces from a combination of two VDSs reads the first element of an empty
  vector, whatever the two VDSs hold.\<close>

theorem intersection_no_traces:
  assumes "overlapping h extents ca cb" and "to_interpolation ip = Inr m"
  shows "double_read_traces h buf bytes ps 0 ip = Inl (undefined_behaviour ''read outside the coordinates'')"
proof -
  have ha: "single_holds (m_datahandle_a h) ca" and hb: "single_holds (m_datahandle_b h) cb"
    using assms(1) by (simp_all add: overlapping_def Let_def)
  have none: "moved f ps 0 = Inr []" for f by (simp add: moved_def)
  show ?thesis
    unfolding double_read_traces_def Let_def none rbind_Inr sized_read[OF ha assms(2), of "[]", simplified]
      sized_read[OF hb assms(2), of "[]", simplified] by (simp add: first_coordinate_def)
qed

theorem intersection_no_traces_witness:
  "double_read_traces example_sum [] 0 [] 0 LINEAR = Inl (undefined_behaviour ''read outside the coordinates'')"
  by (rule intersection_no_traces[OF example_sum(2)]) (simp add: to_interpolation_def)

end
