(* ===== verification/Cppapi_Data.thy ===== *)
theory Cppapi_Data
  imports Attributes Datahandle
begin

text \<open>
  The requests for data (\<^verbatim>\<open>cppapi_data.cpp\<close>): slices, fences, the data of a subvolume, its
  attributes and the alignment of two surfaces. A request that fills the \<^verbatim>\<open>response\<close> it was
  given returns it; one that writes to an object it was given returns the object.
\<close>

section \<open>Helpers\<close>

text \<open>The C struct \<^verbatim>\<open>response\<close>; a null pointer is \<open>None\<close>.\<close>

record 'd response =
  response_data :: "'d option"
  response_size :: nat

definition to_response :: "'d \<Rightarrow> int \<Rightarrow> 'd response" where
  "to_response data bytes = \<lparr>response_data = Some data, response_size = to_size_t bytes\<rparr>"

definition equal :: "string \<Rightarrow> string \<Rightarrow> bool" where
  "equal lhs rhs \<longleftrightarrow> lhs = rhs"

definition validate_vertical_axis :: "vds_names \<Rightarrow> Axis \<Rightarrow> Direction \<Rightarrow> unit result" where
  "validate_vertical_axis names vertical_axis request =
     (let vdsunit = m_unit vertical_axis; vdsname = m_name vertical_axis; requested_axis = direction_name request in
      rbind (if requested_axis = DEPTH then
          if \<not> equal vdsname (Names_Depth names) \<and> \<not> equal vdsname (Names_Sample names) then
            Inl (bad_request (''Cannot fetch depth slice for VDS file with vertical axis label: '' @ vdsname))
          else if \<not> equal vdsunit (Units_Meter names) \<and> \<not> equal vdsunit (Units_Foot names) \<and>
              \<not> equal vdsunit (Units_USSurveyFoot names) then
            Inl (bad_request (''Cannot fetch depth slice for VDS file with vertical axis unit: '' @ vdsunit))
          else Inr ()
        else Inr ()) (\<lambda>_.
      if requested_axis = TIME then
        if \<not> equal vdsname (Names_Time names) \<and> \<not> equal vdsname (Names_Sample names) then
          Inl (bad_request (''Cannot fetch time slice for VDS file with vertical axis label: '' @ vdsname))
        else if \<not> equal vdsunit (Units_Millisecond names) \<and> \<not> equal vdsunit (Units_Second names) then
          Inl (bad_request (''Cannot fetch time slice for VDS file with vertical axis unit: '' @ vdsunit))
        else Inr ()
      else Inr ()))"

definition write_fillvalue :: "buffer \<Rightarrow> nat list \<Rightarrow> nat \<Rightarrow> fp \<Rightarrow> buffer result" where
  "write_fillvalue dst novals nsamples fillvalue =
     (let fill = replicate nsamples (Some fillvalue)
      in rfold (\<lambda>i dst. memcpy dst (int i) fill 0 (int (length fill))) novals dst)"

section \<open>slice\<close>

definition slice :: "openvds \<Rightarrow> DataHandle \<Rightarrow> Direction \<Rightarrow> int \<Rightarrow> Bound list \<Rightarrow> buffer response result" where
  "slice v datahandle direction lineno slicebounds =
     (let metadata = get_metadata datahandle; names = known_names v in
      rbind (get_axis metadata direction) (\<lambda>axis.
      rbind (is_sample direction) (\<lambda>vertical.
      rbind (if vertical then validate_vertical_axis names (sample metadata) direction else Inr ()) (\<lambda>_.
      rbind (rfold (\<lambda>bound _. validate_vertical_axis names (sample metadata) \<lparr>m_axis_name = bound_name bound\<rparr>)
        slicebounds ()) (\<lambda>_.
      rbind (constrain metadata slicebounds (make_SubCube metadata)) (\<lambda>bounds.
      rbind (direction_coordinate_system direction) (\<lambda>system.
      rbind (set_slice axis lineno system bounds) (\<lambda>bounds'.
      rbind (subcube_buffer_size datahandle bounds') (\<lambda>bytes.
      rbind (new_char_array bytes) (\<lambda>data.
      rbind (read_subcube datahandle data bytes bounds') (\<lambda>data'.
      Inr (to_response data' bytes))))))))))))"

section \<open>fence\<close>

definition transform_coordinate :: "CoordinateTransformer \<Rightarrow> coordinate_system \<Rightarrow> real \<Rightarrow> real \<Rightarrow> dvec3 result" where
  "transform_coordinate transformer system x y = (case system of
       INDEX \<Rightarrow> Inr (IJKPositionToAnnotation transformer (Vec3 x y 0))
     | ANNOTATION \<Rightarrow> Inr (Vec3 x y 0)
     | CDP \<Rightarrow> Inr (WorldToAnnotation transformer (Vec3 x y 0))
     | _ \<Rightarrow> Inl (std_exception ''Unhandled coordinate system''))"

definition coordinate_string :: "real \<Rightarrow> real \<Rightarrow> string" where
  "coordinate_string x y = ''('' @ to_string_with_precision x 6 @ '','' @ to_string_with_precision y 6 @ '')''"

text \<open>The lambda \<^verbatim>\<open>validate_boundary\<close> of one coordinate; \<open>fillValue\<close> is \<open>None\<close> for the null pointer.\<close>

definition validate_boundary ::
  "fp option \<Rightarrow> real \<Rightarrow> real \<Rightarrow> nat \<Rightarrow> int \<Rightarrow> nat \<Rightarrow> real \<Rightarrow> Axis \<Rightarrow> nat list \<Rightarrow> nat list result" where
  "validate_boundary fillValue x y i nsamples voxel coordinate axis noval_indicies =
     (if \<not> axis_inrange_with_margin axis (f32 coordinate) then
        (case fillValue of
           None \<Rightarrow> Inl (bad_request (''Coordinate '' @ coordinate_string x y @ '' is out of boundaries '' @
             ''in dimension '' @ to_string (int voxel) @ ''.''))
         | Some _ \<Rightarrow> Inr (noval_indicies @ [wrap64 (i * to_size_t nsamples)]))
      else Inr noval_indicies)"

definition read_coordinate :: "real list \<Rightarrow> nat \<Rightarrow> real result" where
  "read_coordinate coordinates i = (if i < length coordinates then Inr (coordinates ! i)
     else Inl (undefined_behaviour ''read outside the coordinates''))"

text \<open>One point: its voxel and the samples to overwrite with the fill value.\<close>

definition fence_point :: "openvds \<Rightarrow> MetadataHandle \<Rightarrow> coordinate_system \<Rightarrow> real list \<Rightarrow> fp option \<Rightarrow> nat \<Rightarrow>
    voxel list \<times> nat list \<Rightarrow> (voxel list \<times> nat list) result" where
  "fence_point v metadata system coordinates fillValue i st =
     (let (coords, noval_indicies) = st;
          inline_axis = iline metadata; crossline_axis = xline metadata; nsamples = m_nsamples (sample metadata)
      in
      rbind (read_coordinate coordinates (2 * i)) (\<lambda>x.
      rbind (read_coordinate coordinates (2 * i + 1)) (\<lambda>y.
      rbind (transform_coordinate (metadata_transformer metadata) system x y) (\<lambda>coordinate.
      rbind (validate_boundary fillValue x y i nsamples 0 (vnth coordinate 0) inline_axis noval_indicies) (\<lambda>novals.
      rbind (validate_boundary fillValue x y i nsamples 1 (vnth coordinate 1) crossline_axis novals) (\<lambda>novals'.
      Inr (coords[i := (coords ! i)
        [m_dimension inline_axis := axis_to_sample_position v inline_axis (f32 (vnth coordinate 0)),
         m_dimension crossline_axis := axis_to_sample_position v crossline_axis (f32 (vnth coordinate 1))]],
        novals')))))))"

definition fence :: "openvds \<Rightarrow> DataHandle \<Rightarrow> coordinate_system \<Rightarrow> real list \<Rightarrow> nat \<Rightarrow> interpolation_method \<Rightarrow>
    fp option \<Rightarrow> buffer response result" where
  "fence v datahandle system coordinates npoints interpolation fillValue =
     (let metadata = get_metadata datahandle in
      rbind (rfold (fence_point v metadata system coordinates fillValue) [0..<npoints]
        (replicate npoints (replicate Dimensionality_Max 0), [])) (\<lambda>(coords, noval_indicies).
      rbind (traces_buffer_size datahandle npoints) (\<lambda>bytes.
      rbind (new_char_array bytes) (\<lambda>data.
      rbind (read_traces datahandle data bytes coords npoints interpolation) (\<lambda>data'.
      rbind (if noval_indicies \<noteq> [] then
          (case fillValue of
             Some fill \<Rightarrow> write_fillvalue data' noval_indicies (to_size_t (m_nsamples (sample metadata))) fill
           | None \<Rightarrow> Inl (undefined_behaviour ''null pointer''))
        else Inr data') (\<lambda>data''.
      Inr (to_response data'' bytes)))))))"

section \<open>fetch_subvolume\<close>

text \<open>
  The samples of one segment. The state is the array of positions and the number written.
  Both loops count with an \<^verbatim>\<open>int\<close>, whose conversion and increment are defined below \<open>2 ^ 31\<close> only.
\<close>

definition sample_step :: "MetadataHandle \<Rightarrow> real \<Rightarrow> real \<Rightarrow> real \<Rightarrow> nat \<Rightarrow> voxel list \<times> nat \<Rightarrow> (voxel list \<times> nat) result" where
  "sample_step metadata i_pos j_pos k idx st =
     (let (samples, cur) = st in
      if cur < length samples then
        Inr (samples[cur := (samples ! cur)
          [m_dimension (iline metadata) := f32 i_pos,
           m_dimension (xline metadata) := f32 j_pos,
           m_dimension (sample metadata) := f32 (f64 (k + real idx))]], cur + 1)
      else Inl (undefined_behaviour ''write outside the samples''))"

definition segment_step :: "openvds \<Rightarrow> MetadataHandle \<Rightarrow> SurfaceBoundedSubVolume \<Rightarrow> nat \<Rightarrow>
    voxel list \<times> nat \<Rightarrow> (voxel list \<times> nat) result" where
  "segment_step v metadata subvolume i st =
     rbind (is_empty subvolume i) (\<lambda>empty.
     if empty then Inr st
     else
       rbind (vertical_segment subvolume i) (\<lambda>segment.
       rbind (to_cdp (horizontal_grid subvolume) i) (\<lambda>cdp.
       rbind (guard (int (raw_segment_size segment) < 2 ^ 31) (undefined_behaviour ''int overflow'')) (\<lambda>_.
       let ij = WorldToAnnotation (metadata_transformer metadata) (Vec3 (pt_x cdp) (pt_y cdp) 0);
           ij0 = axis_to_sample_position v (iline metadata) (f32 (vnth ij 0));
           ij1 = axis_to_sample_position v (xline metadata) (f32 (vnth ij 1));
           k = axis_to_sample_position v (sample metadata) (raw_segment_top_sample_position segment)
       in rfold (sample_step metadata ij0 ij1 k) [0..<raw_segment_size segment] st))))"

definition fetch_subvolume :: "openvds \<Rightarrow> DataHandle \<Rightarrow> SurfaceBoundedSubVolume \<Rightarrow> interpolation_method \<Rightarrow>
    nat \<Rightarrow> nat \<Rightarrow> SurfaceBoundedSubVolume result" where
  "fetch_subvolume v datahandle subvolume interpolation from_index to_index =
     rbind (guard (\<not> to_index > grid_size (horizontal_grid subvolume))
       (std_exception (CHR 0x27 # ''to'' @ CHR 0x27 # '' must be less than surface size''))) (\<lambda>_.
     let metadata = get_metadata datahandle in
     rbind (sv_nsamples subvolume from_index to_index) (\<lambda>nsamples.
     if nsamples = 0 then Inr subvolume
     else
       rbind (guard (int from_index < 2 ^ 31 \<and> int to_index < 2 ^ 31) (undefined_behaviour ''int overflow'')) (\<lambda>_.
       rbind (rfold (segment_step v metadata subvolume) [from_index..<to_index]
         (replicate nsamples (replicate Dimensionality_Max 0), 0)) (\<lambda>(samples, cur).
       rbind (guard (cur = nsamples) (std_exception (''calculated nsamples '' @ to_string (int nsamples) @
         '' and actual samples '' @ to_string (int cur) @ '' differ''))) (\<lambda>_.
       rbind (samples_buffer_size datahandle nsamples) (\<lambda>bytes.
       rbind (offset_at subvolume from_index) (\<lambda>offset.
       rbind (read_samples datahandle (drop offset (sv_data subvolume)) bytes samples nsamples interpolation) (\<lambda>data.
       Inr (subvolume\<lparr>sv_data := take offset (sv_data subvolume) @ data\<rparr>)))))))))"

section \<open>attributes\<close>

text \<open>One attribute map per requested attribute, each with its own buffer.\<close>

definition append_attribute :: "nat \<Rightarrow> attribute \<times> fp list \<Rightarrow> AttributeMap list \<Rightarrow> AttributeMap list result" where
  "append_attribute bytes request attrs =
     (case fst request of
        other_attribute _ \<Rightarrow> Inl (std_exception ''Attribute not implemented'')
      | k \<Rightarrow> Inr (attrs @ [\<lparr>am_class = k, am_dst = snd request, am_size = bytes\<rparr>]))"

definition attributes :: "openvds \<Rightarrow> SurfaceBoundedSubVolume \<Rightarrow> ResampledSegmentBlueprint \<Rightarrow> attribute list \<Rightarrow>
    nat \<Rightarrow> nat \<Rightarrow> fp list list \<Rightarrow> fp list list result" where
  "attributes v src_subvolume dst_segment_blueprint attribute_list from_index to_index out =
     (let bytes = wrap64 (grid_size (horizontal_grid src_subvolume) * 4) in
      rbind (rfold (append_attribute bytes) (zip attribute_list out) []) (\<lambda>attrs.
      rbind (calc_attributes v src_subvolume dst_segment_blueprint attrs from_index to_index) (\<lambda>attrs'.
      Inr (map am_dst attrs'))))"

section \<open>align_surfaces\<close>

record SurfacesCrossoverValidator =
  primary_is_top :: bool
  primary_is_bottom :: bool

definition have_crossed :: "real \<Rightarrow> real \<Rightarrow> SurfacesCrossoverValidator \<Rightarrow> bool \<times> SurfacesCrossoverValidator" where
  "have_crossed primary secondary s =
     (if primary > secondary then
        let s' = s\<lparr>primary_is_bottom := True\<rparr> in (primary_is_top s' = primary_is_bottom s', s')
      else if primary < secondary then
        let s' = s\<lparr>primary_is_top := True\<rparr> in (primary_is_top s' = primary_is_bottom s', s')
      else (False, s))"

text \<open>
  The position on the secondary grid may be out of bounds, also negative. The comparison
  with the number of rows is one of unsigned values, after the sign has been checked, which
  is that of the integers for every value that a \<^verbatim>\<open>long\<close> holds.
\<close>

definition align_step :: "RegularSurface \<Rightarrow> RegularSurface \<Rightarrow> nat \<Rightarrow> RegularSurface \<times> SurfacesCrossoverValidator \<Rightarrow>
    (RegularSurface \<times> SurfacesCrossoverValidator) result" where
  "align_step primary secondary i st =
     (let (aligned, surfaces) = st;
          skip = rbind (surface_set aligned i (m_fillvalue aligned)) (\<lambda>aligned'. Inr (aligned', surfaces))
      in
      rbind (surface_get primary i) (\<lambda>primary_value.
      if m_fillvalue primary = primary_value then skip
      else
        rbind (to_cdp (m_grid primary) i) (\<lambda>cdp.
        case from_cdp (m_grid secondary) cdp of
          None \<Rightarrow> Inl (undefined_behaviour ''lround of a value that is not finite'')
        | Some secondary_pos \<Rightarrow>
            let secondary_row = lround (pt_x secondary_pos); secondary_col = lround (pt_y secondary_pos) in
            if secondary_row < 0 \<or> secondary_row \<ge> int (m_nrows (m_grid secondary)) \<or>
               secondary_col < 0 \<or> secondary_col \<ge> int (m_ncols (m_grid secondary)) then skip
            else
              rbind (surface_get_pair secondary (as_pair (nat secondary_row) (nat secondary_col))) (\<lambda>secondary_value.
              if m_fillvalue secondary = secondary_value then skip
              else
                rbind (surface_set aligned i secondary_value) (\<lambda>aligned'.
                let (crossed, surfaces') = have_crossed primary_value secondary_value surfaces in
                if crossed then
                  rbind (grid_row (m_grid primary) i) (\<lambda>row.
                  rbind (grid_col (m_grid primary) i) (\<lambda>col.
                  Inl (bad_request (''Surfaces intersect at primary surface point ('' @ to_string (int row) @ '', '' @
                    to_string (int col) @ '')''))))
                else Inr (aligned', surfaces'))))))"

definition align_surfaces :: "RegularSurface \<Rightarrow> RegularSurface \<Rightarrow> RegularSurface \<Rightarrow> (RegularSurface \<times> bool) result" where
  "align_surfaces primary secondary aligned =
     rbind (guard (bounded_grid_eq (m_grid primary) (m_grid aligned))
       (std_exception ''Expected primary and aligned surfaces to differ in data only.'')) (\<lambda>_.
     rbind (rfold (align_step primary secondary) [0..<surface_size primary]
       (aligned, \<lparr>primary_is_top = False, primary_is_bottom = False\<rparr>)) (\<lambda>(aligned', surfaces).
     Inr (aligned', primary_is_top surfaces)))"

section \<open>Lemmas on slices\<close>

lemma rfold_unit_ok: "(\<And>x. x \<in> set xs \<Longrightarrow> f x () = Inr ()) \<Longrightarrow> rfold f xs () = Inr ()"
  by (induction xs) simp_all

lemma within_volume_box:
  assumes "within_volume m sc" and "nonempty_box sc"
  shows "box_in (sc_upper (make_SubCube m)) (sc_lower sc) (sc_upper sc)"
  using assms by (auto simp: within_volume_def nonempty_box_def box_in_def list_all_iff)

text \<open>The checks that come before the box is computed.\<close>

definition vertical_ok :: "vds_names \<Rightarrow> MetadataHandle \<Rightarrow> Direction \<Rightarrow> Bound list \<Rightarrow> bool" where
  "vertical_ok names m direction bounds \<longleftrightarrow>
     validate_vertical_axis names (sample m) direction = Inr () \<and>
     list_all (\<lambda>b. validate_vertical_axis names (sample m) \<lparr>m_axis_name = bound_name b\<rparr> = Inr ()) bounds"

lemma slice_reads_box:
  fixes h :: DataHandle
  defines "m \<equiv> get_metadata h"
  assumes "holds_cube h c" and "box_in (cube_extents c) (sc_lower sc) (sc_upper sc)"
    and "int (length (subcube_voxels sc)) < 2 ^ 61"
    and "vertical_ok (known_names v) m direction bounds"
    and "direction_axis_type direction = Inr t" and "m_axes_map m t = Some a"
    and "direction_coordinate_system direction = Inr system"
    and "constrain m bounds (make_SubCube m) = Inr sc0" and "set_slice a lineno system sc0 = Inr sc"
  shows "slice v h direction lineno bounds = Inr \<lparr>response_data = Some (map (\<lambda>p. Some (cube_voxel c p)) (subcube_voxels sc)),
    response_size = 4 * length (subcube_voxels sc)\<rparr>"
proof -
  have axis: "get_axis m direction = Inr a" using assms(6,7) by (simp add: get_axis_def map_at_def)
  have sample: "\<exists>b. is_sample direction = Inr b" using assms(6) by (auto simp: is_sample_def)
  have bounds_ok: "rfold (\<lambda>bound _. validate_vertical_axis (known_names v) (sample m) \<lparr>m_axis_name = bound_name bound\<rparr>) bounds () = Inr ()"
    using assms(5) by (intro rfold_unit_ok) (simp add: vertical_ok_def list_all_iff)
  have n: "to_size_t (4 * int (length (subcube_voxels sc))) = 4 * length (subcube_voxels sc)"
    using assms(4) by (subst to_size_t_nonneg) simp_all
  show ?thesis
    unfolding slice_def Let_def m_def[symmetric]
    using sample assms(5,8-10) reader.read_new_subset[OF assms(2-4), of "\<lambda>buf bytes. Inr (to_response buf bytes)"]
    by (auto simp: axis bounds_ok vertical_ok_def to_response_def n comp_def)
qed

lemma example_slice:
  "single_get_metadata example_data = SingleMetadata example_single"
  "cube_extents example_cube = sc_upper (make_SubCube (SingleMetadata example_single))"
  by (simp add: single_get_metadata_def example_data_def) code_simp

section \<open>Properties of slices\<close>

text \<open>C14: A slice request. When its direction, line number and bounds are accepted, the response
  holds the samples of the box they describe and nothing else, one four-byte float per
  voxel; the box is within the volume and one line thick in the direction of the slice.\<close>

theorem slice_response:
  fixes h :: DataHandle
  defines "m \<equiv> get_metadata h"
  assumes "wf_metadata m" and "float_metadata m" and "holds_cube h c" and "cube_extents c = sc_upper (make_SubCube m)"
    and "vertical_ok (known_names v) m direction bounds" and "list_all (\<lambda>b. bound_lower b \<le> bound_upper b) bounds"
    and "direction_axis_type direction = Inr t" and "m_axes_map m t = Some a"
    and "direction_coordinate_system direction = Inr system"
    and "constrain m bounds (make_SubCube m) = Inr sc0" and "to_voxel a lineno system = Inr line"
  defines "sc \<equiv> set_bounds (m_dimension a) line (line + 1) sc0"
  assumes "int (length (subcube_voxels sc)) < 2 ^ 61"
  shows "slice v h direction lineno bounds = Inr \<lparr>response_data = Some (map (\<lambda>p. Some (cube_voxel c p)) (subcube_voxels sc)),
      response_size = 4 * length (subcube_voxels sc)\<rparr> \<and> within_volume m sc"
proof -
  note init = within_volume_initial[OF assms(2)]
  have set: "set_slice a lineno system sc0 = Inr sc" using assms(12) by (simp add: set_slice_def sc_def)
  have "within_volume m sc0" "nonempty_box sc0"
    using constrain_within[OF assms(2,3) conjunct1[OF init] assms(11)] init assms(7) by (simp_all add: list_all_iff)
  then have sc: "within_volume m sc" "nonempty_box sc" using set_slice_within[OF assms(2,3,9) _ set] by simp_all
  have box: "box_in (cube_extents c) (sc_lower sc) (sc_upper sc)" using within_volume_box[OF sc] by (simp add: assms(5))
  note r = slice_reads_box[OF assms(4) box assms(14), folded m_def, OF assms(6,8-11) set]
  show ?thesis using r sc(1) by simp
qed

theorem slice_response_witness:
  "slice example_vds (SingleData example_data) \<lparr>m_axis_name = INLINE\<rparr> 3
     [\<lparr>bound_lower = 1, bound_upper = 5, bound_name = INLINE\<rparr>, \<lparr>bound_lower = 10, bound_upper = 10, bound_name = CROSSLINE\<rparr>] =
   Inr \<lparr>response_data = Some [Some (Fin 1), Some (Fin 1), Some (Fin 1), Some (Fin 1)], response_size = 16\<rparr>"
proof -
  define sc where "sc = set_bounds (m_dimension (make_Axis 1 5 3 ''Inline'' ''unitless'' 2)) 1 (1 + 1)
    \<lparr>sc_lower = [0, 0, 0, 0, 0, 0], sc_upper = [4, 1, 3, 1, 1, 1]\<rparr>"
  have vox: "subcube_voxels sc = [[0, 0, 1, 0, 0, 0], [1, 0, 1, 0, 0, 0], [2, 0, 1, 0, 0, 0], [3, 0, 1, 0, 0, 0]]"
    unfolding sc_def by code_simp
  have "slice example_vds (SingleData example_data) \<lparr>m_axis_name = INLINE\<rparr> 3
     [\<lparr>bound_lower = 1, bound_upper = 5, bound_name = INLINE\<rparr>, \<lparr>bound_lower = 10, bound_upper = 10, bound_name = CROSSLINE\<rparr>] =
   Inr \<lparr>response_data = Some (map (\<lambda>p. Some (cube_voxel example_cube p)) (subcube_voxels sc)),
     response_size = 4 * length (subcube_voxels sc)\<rparr>"
    unfolding sc_def
  proof (rule conjunct1[OF slice_response[where t = AxisType_ILINE and system = ANNOTATION]])
    show "to_voxel (make_Axis 1 5 3 ''Inline'' ''unitless'' 2) 3 ANNOTATION = Inr 1" by code_simp
    show "int (length (subcube_voxels (set_bounds (m_dimension (make_Axis 1 5 3 ''Inline'' ''unitless'' 2)) 1 (1 + 1)
        \<lparr>sc_lower = [0, 0, 0, 0, 0, 0], sc_upper = [4, 1, 3, 1, 1, 1]\<rparr>))) < 2 ^ 61"
      using vox by (simp add: sc_def)
  qed (simp_all add: example_slice example_data_holds example_wf(1,2) example_wf(3)[unfolded m_axes_map.simps] example_request validate_vertical_axis_def vertical_ok_def direction_name_def
      direction_axis_type_def direction_coordinate_system_def Let_def)
  then show ?thesis by (simp add: vox example_cube_def)
qed

text \<open>The table of vertical axes. A request for depth or time is accepted exactly when the label
  and the unit of the vertical axis of the file are those the table lists; any other
  request is accepted whatever the axis; a refusal is always a bad request.\<close>

theorem vertical_axis_table:
  "validate_vertical_axis names a d =
    (if direction_name d = DEPTH \<and> m_name a \<notin> {Names_Depth names, Names_Sample names} then
       Inl (bad_request (''Cannot fetch depth slice for VDS file with vertical axis label: '' @ m_name a))
     else if direction_name d = DEPTH \<and> m_unit a \<notin> {Units_Meter names, Units_Foot names, Units_USSurveyFoot names} then
       Inl (bad_request (''Cannot fetch depth slice for VDS file with vertical axis unit: '' @ m_unit a))
     else if direction_name d = TIME \<and> m_name a \<notin> {Names_Time names, Names_Sample names} then
       Inl (bad_request (''Cannot fetch time slice for VDS file with vertical axis label: '' @ m_name a))
     else if direction_name d = TIME \<and> m_unit a \<notin> {Units_Millisecond names, Units_Second names} then
       Inl (bad_request (''Cannot fetch time slice for VDS file with vertical axis unit: '' @ m_unit a))
     else Inr ())"
proof -
  have rbind_if: "rbind (if c then x else y) f = (if c then rbind x f else rbind y f)" for c and x y :: "unit result" and f :: "unit \<Rightarrow> unit result"
    by simp
  show ?thesis
    unfolding validate_vertical_axis_def equal_def Let_def rbind_if rbind_Inr rbind_Inl insert_iff empty_iff de_Morgan_disj
    by (cases "direction_name d = DEPTH"; cases "direction_name d = TIME"; simp only: axis_name.distinct if_False if_True simp_thms)
qed

section \<open>Lemmas on fences\<close>

text \<open>Writing whole rows of a buffer of equally long rows.\<close>

lemma concat_update:
  assumes "\<And>r. r \<in> set rows \<Longrightarrow> length r = n" and "i < length rows" and "length r = n"
  shows "take (i * n) (concat rows) @ r @ drop (i * n + n) (concat rows) = concat (rows[i := r])"
proof -
  have "concat rows = concat (take i rows @ rows ! i # drop (Suc i) rows)" using assms(2) by (simp only: id_take_nth_drop[symmetric])
  then have c: "concat rows = concat (take i rows) @ rows ! i @ concat (drop (Suc i) rows)" by simp
  have "length (concat (take i rows)) = n * length (take i rows)"
    using assms(1) by (intro length_concat_uniform) (auto dest: in_set_takeD)
  then have l: "length (concat (take i rows)) = i * n" using assms(2) by simp
  have "length (rows ! i) = n" using assms(1,2) by simp
  then show ?thesis using assms(2) l by (simp add: c upd_conv_take_nth_drop)
qed

lemma memcpy_row:
  assumes "\<And>r. r \<in> set rows \<Longrightarrow> length r = n" and "i < length rows"
  shows "memcpy (concat rows) (int (i * n)) (replicate n x) 0 (int n) = Inr (concat (rows[i := replicate n x]))"
proof -
  have "i * n + 0 + n \<le> n * length rows" by (rule row_end[OF assms(2)]) simp
  then have "i * n + n \<le> length (concat rows)" using length_concat_uniform[OF assms(1)] by simp
  then show ?thesis
    using memcpy_nat[of "i * n" n "concat rows" 0 "replicate n x"] concat_update[OF assms, of "replicate n x"] by simp
qed

lemma write_rows:
  assumes "\<And>r. r \<in> set rows \<Longrightarrow> length r = n" and "\<And>i. i \<in> set is \<Longrightarrow> i < length rows"
  shows "write_fillvalue (concat rows) (map (\<lambda>i. i * n) is) n x =
    Inr (concat (map (\<lambda>i. if i \<in> set is then replicate n (Some x) else rows ! i) [0..<length rows]))"
  using assms
proof (induction "is" arbitrary: rows)
  case Nil
  then show ?case by (simp add: write_fillvalue_def map_nth)
next
  case (Cons j js)
  define rows' where "rows' = rows[j := replicate n (Some x)]"
  have j: "j < length rows" using Cons.prems(2) by simp
  have rows': "\<And>r. r \<in> set rows' \<Longrightarrow> length r = n"
    unfolding rows'_def using Cons.prems(1) set_update_subset_insert[of rows j] by fastforce
  have "write_fillvalue (concat rows) (map (\<lambda>i. i * n) (j # js)) n x = write_fillvalue (concat rows') (map (\<lambda>i. i * n) js) n x"
    using memcpy_row[OF Cons.prems(1) j, of "Some x"] by (simp add: write_fillvalue_def rows'_def)
  also have "\<dots> = Inr (concat (map (\<lambda>i. if i \<in> set js then replicate n (Some x) else rows' ! i) [0..<length rows']))"
    using rows' Cons.prems(2) by (intro Cons.IH) (simp_all add: rows'_def)
  also have "map (\<lambda>i. if i \<in> set js then replicate n (Some x) else rows' ! i) [0..<length rows'] =
      map (\<lambda>i. if i \<in> set (j # js) then replicate n (Some x) else rows ! i) [0..<length rows]"
    using j by (intro nth_equalityI) (auto simp: rows'_def)
  finally show ?case .
qed

text \<open>What a point contributes: its voxel, and how often it is recorded as outside.\<close>

definition fence_voxel :: "openvds \<Rightarrow> MetadataHandle \<Rightarrow> dvec3 \<Rightarrow> voxel" where
  "fence_voxel v m coordinate = (replicate 6 0)
     [m_dimension (iline m) := axis_to_sample_position v (iline m) (f32 (vnth coordinate 0)),
      m_dimension (xline m) := axis_to_sample_position v (xline m) (f32 (vnth coordinate 1))]"

definition misses :: "MetadataHandle \<Rightarrow> dvec3 \<Rightarrow> nat list" where
  "misses m coordinate = filter (\<lambda>d. \<not> axis_inrange_with_margin (if d = 0 then iline m else xline m) (f32 (vnth coordinate d))) [0, 1]"

definition outside :: "MetadataHandle \<Rightarrow> dvec3 \<Rightarrow> bool" where
  "outside m coordinate \<longleftrightarrow> \<not> axis_inrange_with_margin (iline m) (f32 (vnth coordinate 0)) \<or>
     \<not> axis_inrange_with_margin (xline m) (f32 (vnth coordinate 1))"

lemma outside_misses: "outside m c \<longleftrightarrow> misses m c \<noteq> []"
  by (simp add: outside_def misses_def)

lemma fence_point_ok:
  assumes "i < length coords" and "2 * i + 1 < length coordinates"
    and "transform_coordinate (metadata_transformer m) system (coordinates ! (2 * i)) (coordinates ! (2 * i + 1)) = Inr c"
    and "fill \<noteq> None \<or> \<not> outside m c" and "coords ! i = replicate 6 0"
  shows "fence_point v m system coordinates fill i (coords, novals) =
    Inr (coords[i := fence_voxel v m c], novals @ map (\<lambda>_. wrap64 (i * to_size_t (m_nsamples (sample m)))) (misses m c))"
  using assms unfolding fence_point_def read_coordinate_def
  by (auto simp: validate_boundary_def misses_def outside_def fence_voxel_def Let_def)

lemma fence_points_ok:
  fixes cs :: "nat \<Rightarrow> dvec3"
  assumes "2 * n \<le> length coordinates" and "k \<le> n"
    and "\<And>i. i < k \<Longrightarrow>
      transform_coordinate (metadata_transformer m) system (coordinates ! (2 * i)) (coordinates ! (2 * i + 1)) = Inr (cs i)"
    and "\<And>i. i < k \<Longrightarrow> fill \<noteq> None \<or> \<not> outside m (cs i)"
  shows "rfold (fence_point v m system coordinates fill) [0..<k] (replicate n (replicate 6 0), []) =
    Inr (map (\<lambda>i. fence_voxel v m (cs i)) [0..<k] @ replicate (n - k) (replicate 6 0),
      concat (map (\<lambda>i. map (\<lambda>_. wrap64 (i * to_size_t (m_nsamples (sample m)))) (misses m (cs i))) [0..<k]))"
  using assms(2-)
proof (induction k)
  case (Suc k)
  let ?coords = "map (\<lambda>i. fence_voxel v m (cs i)) [0..<k] @ replicate (n - k) (replicate 6 0)"
  have "n - k = Suc (n - Suc k)" using Suc.prems by simp
  then have "?coords[k := fence_voxel v m (cs k)] =
      map (\<lambda>i. fence_voxel v m (cs i)) [0..<Suc k] @ replicate (n - Suc k) (replicate 6 0)"
    by (simp add: list_update_append)
  moreover have "fence_point v m system coordinates fill k (?coords, novals) =
      Inr (?coords[k := fence_voxel v m (cs k)],
        novals @ map (\<lambda>_. wrap64 (k * to_size_t (m_nsamples (sample m)))) (misses m (cs k)))" for novals
    using Suc.prems(1) assms(1) Suc.prems(2,3)[of k] by (intro fence_point_ok) (simp_all add: nth_append)
  ultimately show ?case using Suc by (simp add: rfold_snoc)
qed simp

lemma wrap64_int: "int q < 2 ^ 31 \<Longrightarrow> wrap64 q = q"
  by (simp add: wrap64_def)

lemma fence_loop:
  fixes h :: DataHandle and cs :: "nat \<Rightarrow> dvec3"
  defines "m \<equiv> get_metadata h"
  assumes "holds_cube h c" and "2 * n \<le> length coordinates" and "longest_trace h * int n < 2 ^ 31" and "0 < n"
    and "\<And>i. i < n \<Longrightarrow>
      transform_coordinate (metadata_transformer m) system (coordinates ! (2 * i)) (coordinates ! (2 * i + 1)) = Inr (cs i)"
    and "\<And>i. i < n \<Longrightarrow> fill \<noteq> None \<or> \<not> outside m (cs i)"
  obtains missed where "rfold (fence_point v m system coordinates fill) [0..<n] (replicate n (replicate 6 0), []) =
      Inr (map (\<lambda>i. fence_voxel v m (cs i)) [0..<n], map (\<lambda>i. i * nat (m_nsamples (sample m))) missed)"
    and "set missed = {i. i < n \<and> outside m (cs i)}" and "to_size_t (m_nsamples (sample m)) = nat (m_nsamples (sample m))"
proof
  let ?ns = "nat (m_nsamples (sample m))"
  define missed where "missed = concat (map (\<lambda>i. map (\<lambda>_. i) (misses m (cs i))) [0..<n])"
  have ns: "0 < m_nsamples (sample m)" "m_nsamples (sample m) \<le> longest_trace h"
    using reader.longest[OF assms(2)] by (simp_all add: m_def)
  have "longest_trace h * 1 \<le> longest_trace h * int n" using ns assms(5) by (intro mult_left_mono) simp_all
  then have small: "m_nsamples (sample m) < 2 ^ 31" using ns assms(4) by linarith
  then show size: "to_size_t (m_nsamples (sample m)) = ?ns" using ns by (intro to_size_t_nonneg) simp_all
  have "wrap64 (i * ?ns) = i * ?ns" if "i < n" for i
  proof -
    have "int (i * ?ns) \<le> int n * longest_trace h" using that ns unfolding of_nat_mult by (intro mult_mono) simp_all
    then have "int (i * ?ns) < 2 ^ 31" using assms(4) by (simp add: mult.commute)
    then show ?thesis by (rule wrap64_int)
  qed
  then have "concat (map (\<lambda>i. map (\<lambda>_. wrap64 (i * ?ns)) (misses m (cs i))) [0..<n]) = map (\<lambda>i. i * ?ns) missed"
    by (auto simp: missed_def map_concat intro!: arg_cong[of _ _ concat])
  then show "rfold (fence_point v m system coordinates fill) [0..<n] (replicate n (replicate 6 0), []) =
      Inr (map (\<lambda>i. fence_voxel v m (cs i)) [0..<n], map (\<lambda>i. i * ?ns) missed)"
    using fence_points_ok[OF assms(3) order_refl assms(6,7)] by (simp add: size)
  show "set missed = {i. i < n \<and> outside m (cs i)}"
    by (auto simp: missed_def outside_misses image_constant_conv split: if_splits)
qed

lemma fence_trace_positions:
  assumes "wf_metadata m" and "0 < n"
  shows "trace_positions m (map (\<lambda>i. fence_voxel v m (cs i)) [0..<n])"
  using wf_metadata_axes(4-7)[OF assms(1)] assms(2)
  by (auto simp: trace_positions_def list_all_iff fence_voxel_def)

lemma write_missed:
  assumes "\<And>r. r \<in> set rows \<Longrightarrow> length r = k" and "length rows = n" and "set missed = {i. i < n \<and> out i}"
    and "\<And>i. i < n \<Longrightarrow> fill \<noteq> None \<or> \<not> out i"
  shows "(if map (\<lambda>i. i * k) missed \<noteq> [] then
        (case fill of Some x \<Rightarrow> write_fillvalue (concat rows) (map (\<lambda>i. i * k) missed) k x
         | None \<Rightarrow> Inl (undefined_behaviour ''null pointer''))
      else Inr (concat rows)) =
    Inr (concat (map (\<lambda>i. if out i then replicate k fill else rows ! i) [0..<n]))"
proof (cases fill)
  case None
  then have none: "\<not> out i" if "i < n" for i using assms(4)[OF that] by simp
  then have "set missed = {}" using assms(3) by auto
  then have "missed = []" by simp
  moreover have "map (\<lambda>i. if out i then replicate k fill else rows ! i) [0..<n] = map ((!) rows) [0..<length rows]"
    using none assms(2) by simp
  ultimately show ?thesis by (simp only: map_nth list.map if_False simp_thms)
next
  case (Some x)
  have "write_fillvalue (concat rows) (map (\<lambda>i. i * k) missed) k x =
    Inr (concat (map (\<lambda>i. if i \<in> set missed then replicate k (Some x) else rows ! i) [0..<length rows]))"
    using assms by (intro write_rows) auto
  moreover have "map (\<lambda>i. if i \<in> set missed then replicate k (Some x) else rows ! i) [0..<length rows] =
      map (\<lambda>i. if out i then replicate k fill else rows ! i) [0..<n]"
    using assms(2,3) Some by simp
  moreover have "concat rows = concat (map ((!) rows) [0..<length rows])" by (simp only: map_nth)
  ultimately show ?thesis using assms(3) Some by (cases missed) auto
qed

lemma example_misses:
  "misses (SingleMetadata example_single) (Vec3 1 10 0) = []" "misses (SingleMetadata example_single) (Vec3 7 10 0) = [0]"
proof -
  have axes: "iline (SingleMetadata example_single) = make_Axis 1 5 3 ''Inline'' ''unitless'' 2"
    "xline (SingleMetadata example_single) = make_Axis 10 11 2 ''Crossline'' ''unitless'' 1"
    by (simp_all add: iline_def xline_def example_single_def example_axes_def)
  have halves: "f64 (1 / 2) = 1 / 2" "f64 (21 / 2) = 21 / 2" "f64 (19 / 2) = 19 / 2" "f64 (23 / 2) = 23 / 2"
    by (intro double.half, simp)+
  show "misses (SingleMetadata example_single) (Vec3 1 10 0) = []" "misses (SingleMetadata example_single) (Vec3 7 10 0) = [0]"
    by (simp_all add: misses_def axes axis_inrange_with_margin_def axis_stepsize_def make_Axis_def halves)
qed

section \<open>Properties of fences\<close>

text \<open>C15: A fence request with a fill value, or with all points inside. The response has one row per
  point, as long as the vertical axis: the fill value for a point more than half a step
  outside the inlines or the crosslines, the trace through the point for every other; the
  size is that of the rows.\<close>

theorem fence_response:
  fixes h :: DataHandle and cs :: "nat \<Rightarrow> dvec3"
  defines "m \<equiv> get_metadata h"
  assumes "holds_cube h c" and "wf_metadata m" and "2 * n \<le> length coordinates" and "longest_trace h * int n < 2 ^ 31" and "0 < n"
    and "\<And>i. i < n \<Longrightarrow>
      transform_coordinate (metadata_transformer m) system (coordinates ! (2 * i)) (coordinates ! (2 * i + 1)) = Inr (cs i)"
    and "\<And>i. i < n \<Longrightarrow> fill \<noteq> None \<or> \<not> outside m (cs i)" and "to_interpolation ip = Inr method"
  shows "fence v h system coordinates n ip fill = Inr \<lparr>
    response_data = Some (concat (map (\<lambda>i. if outside m (cs i) then replicate (nat (m_nsamples (sample m))) fill
      else map Some (cube_trace c (fence_voxel v m (cs i)) method)) [0..<n])),
    response_size = 4 * (nat (m_nsamples (sample m)) * n)\<rparr>"
proof -
  let ?ns = "nat (m_nsamples (sample m))"
  obtain missed where loop: "rfold (fence_point v m system coordinates fill) [0..<n] (replicate n (replicate 6 0), []) =
      Inr (map (\<lambda>i. fence_voxel v m (cs i)) [0..<n], map (\<lambda>i. i * ?ns) missed)"
    and missed: "set missed = {i. i < n \<and> outside m (cs i)}" and size: "to_size_t (m_nsamples (sample m)) = ?ns"
    by (rule fence_loop[OF assms(2,4-6), folded m_def, OF assms(7,8)])
  define rows where "rows = map (\<lambda>i. map Some (cube_trace c (fence_voxel v m (cs i)) method)) [0..<n]"
  have rows: "length r = ?ns" if "r \<in> set rows" for r
    using that reader.trace_length[OF assms(2)] by (auto simp: rows_def m_def)
  have ns: "0 < m_nsamples (sample m)" "m_nsamples (sample m) \<le> longest_trace h"
    using reader.longest[OF assms(2)] by (simp_all add: m_def)
  have "m_nsamples (sample m) * int n \<le> longest_trace h * int n" using ns by (intro mult_right_mono) simp_all
  then have "int n * m_nsamples (sample m) < 2 ^ 31" using assms(5) by (simp add: mult.commute)
  then have bytes: "to_size_t (4 * (m_nsamples (sample m) * int n)) = 4 * (?ns * n)"
    using ns by (subst to_size_t_nonneg) (simp_all add: nat_mult_distrib mult.commute)
  have filled: "(if map (\<lambda>i. i * ?ns) missed \<noteq> [] then
        (case fill of Some x \<Rightarrow> write_fillvalue (concat rows) (map (\<lambda>i. i * ?ns) missed) ?ns x
         | None \<Rightarrow> Inl (undefined_behaviour ''null pointer''))
      else Inr (concat rows)) =
    Inr (concat (map (\<lambda>i. if outside m (cs i) then replicate ?ns fill else rows ! i) [0..<n]))"
    using rows missed assms(8) by (intro write_missed) (simp_all add: rows_def)
  have out: "map (\<lambda>i. if outside m (cs i) then replicate ?ns fill else rows ! i) [0..<n] =
      map (\<lambda>i. if outside m (cs i) then replicate ?ns fill else map Some (cube_trace c (fence_voxel v m (cs i)) method)) [0..<n]"
    by (intro map_cong) (simp_all add: rows_def)
  note pos = fence_trace_positions[OF assms(3,6), of v cs]
  note read = reader.read_new_traces[OF assms(2), folded m_def, OF pos _ assms(9), simplified length_map length_upt diff_zero, OF assms(5)]
  have "map Some (concat (map (\<lambda>p. cube_trace c p method) (map (\<lambda>i. fence_voxel v m (cs i)) [0..<n]))) = concat rows"
    by (simp add: rows_def map_concat comp_def)
  note read' = read[unfolded this]
  show ?thesis
    unfolding fence_def Let_def m_def[symmetric] loop rbind_Inr prod.case size read' filled out
    by (simp add: to_response_def bytes)
qed

theorem fence_response_witness:
  "fence example_vds (SingleData example_data) ANNOTATION [1, 10, 7, 10] 2 LINEAR (Some (Fin (- 1))) =
    Inr \<lparr>response_data = Some (replicate 4 (Some (Fin 1)) @ replicate 4 (Some (Fin (- 1)))), response_size = 32\<rparr>"
proof -
  define cs where "cs = (\<lambda>i :: nat. if i = 0 then Vec3 1 10 0 else Vec3 7 10 (0 :: real))"
  let ?m = "SingleMetadata example_single"
  have ns: "m_nsamples (sample ?m) = 4" by code_simp
  have out: "outside ?m (cs 0) = False" "outside ?m (cs 1) = True"
    using example_misses by (simp_all add: cs_def outside_misses)
  have ix: "i = 0 \<or> i = 1" if "i < 2" for i :: nat using that by auto
  have "fence example_vds (SingleData example_data) ANNOTATION [1, 10, 7, 10] 2 LINEAR (Some (Fin (- 1))) =
    Inr \<lparr>response_data = Some (concat (map (\<lambda>i. if outside (get_metadata (SingleData example_data)) (cs i)
        then replicate (nat (m_nsamples (sample (get_metadata (SingleData example_data))))) (Some (Fin (- 1)))
        else map Some (cube_trace example_cube (fence_voxel example_vds (get_metadata (SingleData example_data)) (cs i)) Linear)) [0..<2])),
      response_size = 4 * (nat (m_nsamples (sample (get_metadata (SingleData example_data)))) * 2)\<rparr>"
    by (rule fence_response)
      (auto dest!: ix simp: example_slice example_data_holds example_wf(1) transform_coordinate_def cs_def to_interpolation_def single_longest_def ns)
  moreover have "[0..<2] = [0, 1 :: nat]" by (simp add: upt_rec)
  ultimately show ?thesis using out by (simp add: example_slice ns example_cube_def)
qed

text \<open>C16: A fence request without a fill value is refused at the first point that lies outside, before
  anything is read; the message names the point and the first dimension in which it is out.\<close>

theorem fence_refuses:
  fixes h :: DataHandle and cs :: "nat \<Rightarrow> dvec3"
  defines "m \<equiv> get_metadata h"
  assumes "2 * n \<le> length coordinates" and "i < n"
    and "\<And>j. j \<le> i \<Longrightarrow>
      transform_coordinate (metadata_transformer m) system (coordinates ! (2 * j)) (coordinates ! (2 * j + 1)) = Inr (cs j)"
    and "\<And>j. j < i \<Longrightarrow> \<not> outside m (cs j)" and "outside m (cs i)"
  shows "fence v h system coordinates n ip None = Inl (bad_request (''Coordinate '' @
    coordinate_string (coordinates ! (2 * i)) (coordinates ! (2 * i + 1)) @ '' is out of boundaries '' @ ''in dimension '' @
    to_string (int (hd (misses m (cs i)))) @ ''.''))"
proof -
  have split: "[0..<n] = [0..<i] @ i # [Suc i..<n]"
    using assms(3) upt_add_eq_append[of 0 i "n - i"] by (simp add: upt_conv_Cons)
  have "rfold (fence_point v m system coordinates None) [0..<i] (replicate n (replicate 6 0), []) =
      Inr (map (\<lambda>i. fence_voxel v m (cs i)) [0..<i] @ replicate (n - i) (replicate 6 0),
        concat (map (\<lambda>i. map (\<lambda>_. wrap64 (i * to_size_t (m_nsamples (sample m)))) (misses m (cs i))) [0..<i]))"
    using assms(2-5) by (intro fence_points_ok) simp_all
  moreover have "fence_point v m system coordinates None i st = Inl (bad_request (''Coordinate '' @
    coordinate_string (coordinates ! (2 * i)) (coordinates ! (2 * i + 1)) @ '' is out of boundaries '' @ ''in dimension '' @
    to_string (int (hd (misses m (cs i)))) @ ''.''))" for st
    using assms(2,3) assms(4)[of i] assms(6) unfolding fence_point_def read_coordinate_def validate_boundary_def Let_def misses_def outside_def
    by (cases st) (simp del: append_Cons append_assoc)
  ultimately show ?thesis unfolding fence_def Let_def m_def[symmetric] split by (simp add: rfold_append del: append_Cons)
qed

theorem fence_refuses_witness:
  "fence example_vds (SingleData example_data) ANNOTATION [1, 10, 7, 10] 2 LINEAR None =
    Inl (bad_request (''Coordinate '' @ coordinate_string 7 10 @ '' is out of boundaries in dimension 0.''))"
proof -
  define cs where "cs = (\<lambda>i :: nat. if i = 0 then Vec3 1 10 0 else Vec3 7 10 (0 :: real))"
  have out: "\<not> outside (SingleMetadata example_single) (cs 0)" "outside (SingleMetadata example_single) (cs 1)"
    "hd (misses (SingleMetadata example_single) (cs 1)) = 0"
    using example_misses by (simp_all add: cs_def outside_misses)
  have str: "to_string 0 = ''0''" by code_simp
  have ix: "j = 0 \<or> j = 1" if "j \<le> 1" for j :: nat using that by auto
  have "fence example_vds (SingleData example_data) ANNOTATION [1, 10, 7, 10] 2 LINEAR None =
    Inl (bad_request (''Coordinate '' @ coordinate_string ([1, 10, 7, 10] ! (2 * 1)) ([1, 10, 7, 10] ! (2 * 1 + 1)) @
      '' is out of boundaries '' @ ''in dimension '' @ to_string (int (hd (misses (get_metadata (SingleData example_data)) (cs 1)))) @ ''.''))"
    by (rule fence_refuses)
      (use out in \<open>auto dest!: ix simp: example_slice transform_coordinate_def cs_def\<close>)
  then show ?thesis using out by (simp add: example_slice str numeral_3_eq_3)
qed

section \<open>Lemmas on subvolumes\<close>

text \<open>The positions at which the data of a segment are read.\<close>

definition sample_voxel :: "MetadataHandle \<Rightarrow> real \<Rightarrow> real \<Rightarrow> real \<Rightarrow> nat \<Rightarrow> voxel" where
  "sample_voxel m i_pos j_pos k idx = (replicate 6 0)
     [m_dimension (iline m) := f32 i_pos, m_dimension (xline m) := f32 j_pos, m_dimension (sample m) := f32 (f64 (k + real idx))]"

definition segment_voxels :: "openvds \<Rightarrow> MetadataHandle \<Rightarrow> SurfaceBoundedSubVolume \<Rightarrow> nat \<Rightarrow> voxel list" where
  "segment_voxels v m sv i =
     (let cdp = projr (to_cdp (horizontal_grid sv) i);
          ij = WorldToAnnotation (metadata_transformer m) (Vec3 (pt_x cdp) (pt_y cdp) 0);
          first = raw_top_sample_position (m_segment_blueprint sv) (m_data (m_top sv) ! i) (top_margin sv i)
      in map (sample_voxel m (axis_to_sample_position v (iline m) (f32 (vnth ij 0)))
           (axis_to_sample_position v (xline m) (f32 (vnth ij 1))) (axis_to_sample_position v (sample m) first))
         [0..<m_segment_offsets sv ! (i + 1) - m_segment_offsets sv ! i])"

lemma length_segment_voxels [simp]:
  "length (segment_voxels v m sv i) = m_segment_offsets sv ! (i + 1) - m_segment_offsets sv ! i"
  by (simp add: segment_voxels_def Let_def)

lemma wf_subvolume_offsets:
  assumes "wf_subvolume a sv" and "i \<le> j" and "j \<le> surface_size (m_ref sv)"
  shows "m_segment_offsets sv ! i \<le> m_segment_offsets sv ! j" and "m_segment_offsets sv ! j \<le> length (sv_data sv)"
    and "offset_at sv j = Inr (m_segment_offsets sv ! j)"
  using assms sorted_nth_mono[of "m_segment_offsets sv" i j] sorted_nth_mono[of "m_segment_offsets sv" j "surface_size (m_ref sv)"]
  by (simp_all add: wf_subvolume_def offset_at_def)

lemma wf_subvolume_segment:
  assumes wf: "wf_subvolume a sv" and i: "i < surface_size (m_ref sv)"
  obtains seg where "vertical_segment sv i = Inr seg"
    and "raw_segment_size seg = m_segment_offsets sv ! (i + 1) - m_segment_offsets sv ! i"
    and "raw_segment_top_sample_position seg =
      raw_top_sample_position (m_segment_blueprint sv) (m_data (m_top sv) ! i) (top_margin sv i)"
    and "reinitialize_raw sv i (make_RawSegment 0 0 0 0 [] (m_segment_blueprint sv)) = Inr seg"
    and "rs_view seg = view sv (m_segment_offsets sv ! i) (m_segment_offsets sv ! (i + 1))"
proof -
  have sizes: "surface_size (m_top sv) = surface_size (m_ref sv)" "surface_size (m_bottom sv) = surface_size (m_ref sv)"
    using wf bounded_grid_eq_size[of "m_grid (m_ref sv)" "m_grid (m_top sv)"]
      bounded_grid_eq_size[of "m_grid (m_ref sv)" "m_grid (m_bottom sv)"] by (simp_all add: wf_subvolume_def surface_size_def)
  have get: "surface_get (m_ref sv) i = Inr (m_data (m_ref sv) ! i)" "surface_get (m_top sv) i = Inr (m_data (m_top sv) ! i)"
    "surface_get (m_bottom sv) i = Inr (m_data (m_bottom sv) ! i)"
    using wf i sizes by (simp_all add: wf_subvolume_def surface_get_eq)
  have off: "offset_at sv i = Inr (m_segment_offsets sv ! i)" "offset_at sv (Suc i) = Inr (m_segment_offsets sv ! Suc i)"
    using wf_subvolume_offsets(3)[OF wf order_refl] i by simp_all
  note bounds = wf_subvolume_offsets(1,2)[OF wf, of i "i + 1"]
  show ?thesis
    using bounds i
    by (intro that[of "make_RawSegment (m_data (m_ref sv) ! i) (m_data (m_top sv) ! i) (m_data (m_bottom sv) ! i) (top_margin sv i)
        (view sv (m_segment_offsets sv ! i) (m_segment_offsets sv ! (i + 1))) (m_segment_blueprint sv)"])
      (simp_all add: vertical_segment_def reinitialize_raw_def get off noexcept_def make_RawSegment_def raw_segment_reinitialize_def
        segment_reinitialize_def raw_segment_size_def view_def raw_segment_top_sample_position_def)
qed

lemma sample_loop:
  assumes "n \<le> r"
  shows "rfold (sample_step m x y k) [0..<n] (pre @ replicate r (replicate 6 0), length pre) =
    Inr (pre @ map (sample_voxel m x y k) [0..<n] @ replicate (r - n) (replicate 6 0), length pre + n)"
  using assms
proof (induction n)
  case (Suc n)
  have r: "r - n = Suc (r - Suc n)" using Suc.prems by simp
  show ?case using Suc by (simp add: rfold_snoc sample_step_def nth_append list_update_append r sample_voxel_def)
qed simp

lemma segment_step_ok:
  assumes wf: "wf_subvolume a sv" and i: "i < surface_size (m_ref sv)"
    and r: "m_segment_offsets sv ! (i + 1) - m_segment_offsets sv ! i \<le> r"
    and int: "int (m_segment_offsets sv ! (i + 1)) < 2 ^ 31"
  shows "segment_step v m sv i (pre @ replicate r (replicate 6 0), length pre) =
    Inr (pre @ segment_voxels v m sv i @ replicate (r - (m_segment_offsets sv ! (i + 1) - m_segment_offsets sv ! i)) (replicate 6 0),
      length pre + (m_segment_offsets sv ! (i + 1) - m_segment_offsets sv ! i))"
proof -
  have off: "offset_at sv i = Inr (m_segment_offsets sv ! i)" "offset_at sv (Suc i) = Inr (m_segment_offsets sv ! Suc i)"
    using wf_subvolume_offsets(3)[OF wf order_refl] i by simp_all
  obtain seg where seg: "vertical_segment sv i = Inr seg"
    "raw_segment_size seg = m_segment_offsets sv ! (i + 1) - m_segment_offsets sv ! i"
    "raw_segment_top_sample_position seg = raw_top_sample_position (m_segment_blueprint sv) (m_data (m_top sv) ! i) (top_margin sv i)"
    by (rule wf_subvolume_segment[OF wf i])
  have "wf_surface (m_ref sv)" using wf by (simp add: wf_subvolume_def)
  then obtain cdp where cdp: "to_cdp (horizontal_grid sv) i = Inr cdp"
    using to_cdp_total[OF _ i] by (auto simp: horizontal_grid_def)
  show ?thesis
    using r seg cdp less_imp_diff_less[OF int[unfolded of_nat_less_numeral_power_cancel_iff], of "m_segment_offsets sv ! i"]
    by (simp add: segment_step_def guard_def is_empty_def off Let_def sample_loop segment_voxels_def)
qed

lemma length_segments:
  assumes wf: "wf_subvolume a sv" and "j \<le> surface_size (m_ref sv)" and "l \<le> j"
  shows "length (concat (map (segment_voxels v m sv) [l..<j])) = m_segment_offsets sv ! j - m_segment_offsets sv ! l"
  using assms(3,2)
proof (induction j rule: dec_induct)
  case (step j)
  then show ?case using wf_subvolume_offsets(1)[OF wf, of l j] wf_subvolume_offsets(1)[OF wf, of j "Suc j"] by simp
qed simp

lemma segment_loop:
  assumes wf: "wf_subvolume a sv" and to: "j \<le> surface_size (m_ref sv)" and "l \<le> j"
    and n: "m_segment_offsets sv ! j - m_segment_offsets sv ! l \<le> n" and int: "int (m_segment_offsets sv ! j) < 2 ^ 31"
  shows "rfold (segment_step v m sv) [l..<j] (replicate n (replicate 6 0), 0) =
    Inr (concat (map (segment_voxels v m sv) [l..<j]) @
        replicate (n - (m_segment_offsets sv ! j - m_segment_offsets sv ! l)) (replicate 6 0),
      m_segment_offsets sv ! j - m_segment_offsets sv ! l)"
  using assms(3) to n int
proof (induction j rule: dec_induct)
  case (step j)
  let ?o = "(!) (m_segment_offsets sv)"
  have j: "j < surface_size (m_ref sv)" using step.prems by simp
  note mono = wf_subvolume_offsets(1)[OF wf, of l j] wf_subvolume_offsets(1)[OF wf, of j "Suc j"]
  have le: "?o l \<le> ?o j" "?o j \<le> ?o (Suc j)" using mono step j by simp_all
  have int: "int (?o j) < 2 ^ 31" "int (?o (j + 1)) < 2 ^ 31" using step.prems(3) le by simp_all
  let ?pre = "concat (map (segment_voxels v m sv) [l..<j])" and ?r = "n - (?o j - ?o l)"
  have len: "length ?pre = ?o j - ?o l" using length_segments[OF wf _ step.hyps(1)] j by simp
  have IH: "rfold (segment_step v m sv) [l..<j] (replicate n (replicate 6 0), 0) =
      Inr (?pre @ replicate ?r (replicate 6 0), length ?pre)"
    using step.IH step.prems le j int len by simp
  have "segment_step v m sv j (?pre @ replicate ?r (replicate 6 0), length ?pre) =
      Inr (?pre @ segment_voxels v m sv j @ replicate (?r - (?o (Suc j) - ?o j)) (replicate 6 0), length ?pre + (?o (Suc j) - ?o j))"
    using segment_step_ok[OF wf j _ int(2), where v = v and m = m and pre = ?pre and r = ?r] step.prems le by simp
  moreover have "length ?pre + (?o (Suc j) - ?o j) = ?o (Suc j) - ?o l" "?r - (?o (Suc j) - ?o j) = n - (?o (Suc j) - ?o l)"
    using len le by simp_all
  ultimately show ?case using step.hyps IH le by (simp add: rfold_snoc)
qed simp

lemma fetch_fills:
  fixes h :: DataHandle and sv :: SurfaceBoundedSubVolume
  defines "m \<equiv> get_metadata h"
  assumes h: "holds_cube h c" and wf: "wf_subvolume a sv" and le: "l \<le> n" "n \<le> surface_size (m_ref sv)"
    and ip: "to_interpolation ip = Inr method" and small: "6 * int (m_segment_offsets sv ! n) < 2 ^ 31" and idx: "int n < 2 ^ 31"
  shows "fetch_subvolume v h sv ip l n = Inr (sv\<lparr>sv_data := take (m_segment_offsets sv ! l) (sv_data sv) @
      map (\<lambda>p. Some (cube_sample c p method)) (concat (map (segment_voxels v m sv) [l..<n])) @
      drop (m_segment_offsets sv ! n) (sv_data sv)\<rparr>)"
proof -
  let ?o = "(!) (m_segment_offsets sv)" and ?vs = "concat (map (segment_voxels v m sv) [l..<n])"
  have mono: "?o l \<le> ?o n" "?o n \<le> length (sv_data sv)" and off: "offset_at sv l = Inr (?o l)" "offset_at sv n = Inr (?o n)"
    using wf_subvolume_offsets[OF wf le] wf_subvolume_offsets(3)[OF wf order_refl, of l] le by auto
  have count: "sv_nsamples sv l n = Inr (?o n - ?o l)"
    using mono small off by (simp add: sv_nsamples_def to_size_t_nonneg flip: of_nat_diff)
  have size: "grid_size (horizontal_grid sv) = surface_size (m_ref sv)" by (simp add: horizontal_grid_def surface_size_def)
  have int: "int (?o n) < 2 ^ 31" using small by simp
  note loop = segment_loop[OF wf le(2,1) order_refl int, of v m] length_segments[OF wf le(2,1), of v m]
  show ?thesis
  proof (cases "?o n = ?o l")
    case True
    then have "length ?vs = 0" using loop(2) by simp
    then have "?vs = []" by (simp only: length_0_conv)
    then show ?thesis using True le count by (simp add: fetch_subvolume_def size del: concat_eq_Nil_conv)
  next
    case False
    have small': "6 * int (length ?vs) < 2 ^ 31" using loop(2) small by simp
    have rd: "read_samples h (drop (?o l) (sv_data sv)) (4 * int (length ?vs)) ?vs (length ?vs) ip =
        Inr (map Some (map (\<lambda>p. cube_sample c p method) ?vs) @ drop (length ?vs) (drop (?o l) (sv_data sv)))"
      using mono loop(2) by (intro reader.read_sample[OF h small' ip]) simp
    have sb: "samples_buffer_size h (length ?vs) = Inr (4 * int (length ?vs))" by (rule reader.sample_bytes[OF h])
    have "\<not> surface_size (m_ref sv) < n" using le by simp
    then show ?thesis
      unfolding fetch_subvolume_def Let_def m_def[symmetric] size count rbind_Inr
      using False mono loop(1) rd[unfolded loop(2)] sb[unfolded loop(2)] off(1) idx le by (simp add: guard_def comp_def)
  qed
qed

text \<open>The data of one segment after that.\<close>

lemma fetched_view:
  assumes wf: "wf_subvolume a sv" and le: "l \<le> i" "i < n" "n \<le> surface_size (m_ref sv)"
    and data: "sv_data sv' = take (m_segment_offsets sv ! l) (sv_data sv) @
      map f (concat (map (segment_voxels v m sv) [l..<n])) @ drop (m_segment_offsets sv ! n) (sv_data sv)"
  shows "view sv' (m_segment_offsets sv ! i) (m_segment_offsets sv ! (i + 1)) = map f (segment_voxels v m sv i)"
proof -
  let ?o = "(!) (m_segment_offsets sv)" and ?g = "segment_voxels v m sv"
  have mono: "?o l \<le> ?o i" "?o i \<le> length (sv_data sv)" using wf_subvolume_offsets[OF wf, of l i] le by auto
  have "[l..<n] = [l..<i] @ i # [Suc i..<n]"
    using le upt_add_eq_append[of l i "n - i"] by (simp add: upt_conv_Cons)
  then have split: "concat (map ?g [l..<n]) = concat (map ?g [l..<i]) @ ?g i @ concat (map ?g [Suc i..<n])" by simp
  have pre: "length (concat (map ?g [l..<i])) = ?o i - ?o l" using length_segments[OF wf _ le(1)] le by simp
  have "drop (?o i) (sv_data sv') = map f (?g i) @ map f (concat (map ?g [Suc i..<n])) @ drop (?o n) (sv_data sv)"
    unfolding data split using mono pre by simp
  then show ?thesis by (simp add: view_def)
qed

lemma wf_subvolume_data:
  assumes "wf_subvolume a sv" and "length d = length (sv_data sv)"
  shows "wf_subvolume a (sv\<lparr>sv_data := d\<rparr>)"
proof -
  have "top_margin (sv\<lparr>sv_data := d\<rparr>) i = top_margin sv i" for i
    by (cases "m_segment_top_margins sv i") (simp_all add: top_margin_def)
  then have "segment_ok a (sv\<lparr>sv_data := d\<rparr>) = segment_ok a sv" by (intro ext) (simp add: segment_ok_def)
  then show ?thesis using assms by (simp add: wf_subvolume_def)
qed

lemma resampled_at_wf:
  assumes "wf_subvolume a sv" and "i < surface_size (m_ref sv)"
    and "view sv (m_segment_offsets sv ! i) (m_segment_offsets sv ! (i + 1)) = map Some xs"
  obtains src dst where "vertical_segment sv i = Inr src"
    and "m_reference dst = m_data (m_ref sv) ! i" "m_top_boundary dst = m_data (m_top sv) ! i"
      "m_bottom_boundary dst = m_data (m_bottom sv) ! i" "ds_blueprint dst = b"
    and "resampled_at v sv b i = rbind (makima v (raw_segment_sample_positions src) xs) (\<lambda>spline.
      rbind (rmap spline (resampled_segment_sample_positions dst)) (\<lambda>vals. Inr (dst\<lparr>ds_data := vals\<rparr>)))"
proof -
  obtain src where src: "vertical_segment sv i = Inr src"
    "reinitialize_raw sv i (make_RawSegment 0 0 0 0 [] (m_segment_blueprint sv)) = Inr src"
    "rs_view src = view sv (m_segment_offsets sv ! i) (m_segment_offsets sv ! (i + 1))"
    by (rule wf_subvolume_segment[OF assms(1,2)])
  define dst where "dst = resampled_segment_reinitialize (m_data (m_ref sv) ! i) (m_data (m_top sv) ! i) (m_data (m_bottom sv) ! i)
    (make_ResampledSegment 0 0 0 b)"
  have sizes: "surface_size (m_top sv) = surface_size (m_ref sv)" "surface_size (m_bottom sv) = surface_size (m_ref sv)"
    using assms(1) bounded_grid_eq_size[of "m_grid (m_ref sv)" "m_grid (m_top sv)"]
      bounded_grid_eq_size[of "m_grid (m_ref sv)" "m_grid (m_bottom sv)"] by (simp_all add: wf_subvolume_def surface_size_def)
  have "reinitialize_resampled sv i (make_ResampledSegment 0 0 0 b) = Inr dst"
    using assms(1,2) sizes by (simp add: reinitialize_resampled_def wf_subvolume_def surface_get_eq dst_def)
  moreover have "rmap read_sample (rs_view src) = Inr xs"
    unfolding src(3) assms(3) by (induction xs) (simp_all add: read_sample_def)
  moreover have "wf_resampled dst" by (simp add: dst_def wf_resampled_reinitialize)
  ultimately have "resampled_at v sv b i = rbind (makima v (raw_segment_sample_positions src) xs) (\<lambda>spline.
      rbind (rmap spline (resampled_segment_sample_positions dst)) (\<lambda>vals. Inr (dst\<lparr>ds_data := vals\<rparr>)))"
    using src(2) by (simp add: resampled_at_def resample_overwrites)
  with src(1) show ?thesis
    by (intro that[of src dst]) (simp_all add: dst_def resampled_segment_fields make_ResampledSegment_def Let_def)
qed

lemma example_subvolume_wf:
  obtains sv where "make_subvolume (SingleMetadata example_single) (example_surface [8, - 999, 9, 16])
      (example_surface [8, 5, 5, 16]) (example_surface [8, 10, 15, 16]) = Inr sv"
    and "wf_subvolume (make_Axis 4 16 4 ''Sample'' ''ms'' 0) sv" "sv_data sv = replicate 12 None"
      "surface_size (m_ref sv) = 4" "m_segment_offsets sv = [0, 4, 4, 8, 12]"
proof -
  obtain sv where sv: "make_subvolume (SingleMetadata example_single) (example_surface [8, - 999, 9, 16])
      (example_surface [8, 5, 5, 16]) (example_surface [8, 10, 15, 16]) = Inr sv"
    and o: "m_segment_offsets sv = [0, 4, 4, 8, 12]"
    by (rule example_subvolume)
  note wf = make_subvolume_wf[OF example_sample_axis(2) _ example_surfaces_wf(1) example_surfaces_wf(1) example_surfaces_wf(1) _ sv]
  have w: "wf_subvolume (make_Axis 4 16 4 ''Sample'' ''ms'' 0) sv" "sv_data sv = replicate (length (sv_data sv)) None"
    "surface_size (m_ref sv) = 4"
    using wf by (simp_all add: example_sample_axis(1) example_surfaces_wf)
  then have "length (sv_data sv) = 12" by (simp add: wf_subvolume_def o)
  with sv w o show ?thesis by (intro that[of sv]) simp_all
qed

section \<open>Properties of subvolumes\<close>

text \<open>Fetching the data of a range of segments. The storage of exactly those segments is
  overwritten, each sample with the value of the VDS at its position on the segment, in
  order; the number of samples always agrees with the layout; nothing else changes.\<close>

theorem fetch_subvolume_data:
  fixes h :: DataHandle and sv :: SurfaceBoundedSubVolume
  defines "m \<equiv> get_metadata h"
  assumes "holds_cube h c" and "wf_subvolume a sv" and "l \<le> n" and "n \<le> surface_size (m_ref sv)"
    and "to_interpolation ip = Inr method" and "6 * int (m_segment_offsets sv ! n) < 2 ^ 31" and "int n < 2 ^ 31"
  shows "fetch_subvolume v h sv ip l n = Inr (sv\<lparr>sv_data := take (m_segment_offsets sv ! l) (sv_data sv) @
      map (\<lambda>p. Some (cube_sample c p method)) (concat (map (segment_voxels v m sv) [l..<n])) @
      drop (m_segment_offsets sv ! n) (sv_data sv)\<rparr>)"
  unfolding m_def by (rule fetch_fills[OF assms(2-)])

theorem fetch_subvolume_data_witness:
  "\<exists>sv sv'. make_subvolume (SingleMetadata example_single) (example_surface [8, - 999, 9, 16])
      (example_surface [8, 5, 5, 16]) (example_surface [8, 10, 15, 16]) = Inr sv \<and>
    fetch_subvolume example_vds (SingleData example_data) sv NEAREST 2 3 = Inr sv' \<and>
    sv_data sv' = replicate 4 None @ replicate 4 (Some (Fin 1)) @ replicate 4 None"
proof -
  obtain sv where sv: "make_subvolume (SingleMetadata example_single) (example_surface [8, - 999, 9, 16])
      (example_surface [8, 5, 5, 16]) (example_surface [8, 10, 15, 16]) = Inr sv"
    and w: "wf_subvolume (make_Axis 4 16 4 ''Sample'' ''ms'' 0) sv" "sv_data sv = replicate 12 None"
      "surface_size (m_ref sv) = 4" "m_segment_offsets sv = [0, 4, 4, 8, 12]"
    by (rule example_subvolume_wf)
  have "fetch_subvolume example_vds (SingleData example_data) sv NEAREST 2 3 =
      Inr (sv\<lparr>sv_data := take (m_segment_offsets sv ! 2) (sv_data sv) @ map (\<lambda>p. Some (cube_sample example_cube p Nearest))
        (concat (map (segment_voxels example_vds (get_metadata (SingleData example_data)) sv) [2..<3])) @
        drop (m_segment_offsets sv ! 3) (sv_data sv)\<rparr>)"
    by (rule fetch_subvolume_data[OF _ w(1)]) (simp_all add: example_data_holds to_interpolation_def w)
  moreover have "[2..<3] = [2 :: nat]" by (simp add: upt_rec)
  moreover have "map (\<lambda>p. Some (Fin 1)) (segment_voxels example_vds (get_metadata (SingleData example_data)) sv 2) = replicate 4 (Some (Fin 1))"
    by (simp add: map_replicate_const w)
  ultimately have "fetch_subvolume example_vds (SingleData example_data) sv NEAREST 2 3 =
      Inr (sv\<lparr>sv_data := replicate 4 None @ replicate 4 (Some (Fin 1)) @ replicate 4 None\<rparr>)"
    by (simp add: w example_cube_def)
  with sv show ?thesis by simp
qed

text \<open>C17: The attributes of a segment are computed from the samples that were fetched for it: after the
  data of a range of segments has been fetched, the resampling of each of them interpolates
  between the values of the VDS at the positions of the segment, and never touches storage
  that was not written.\<close>

theorem attributes_use_fetched_samples:
  fixes h :: DataHandle and sv :: SurfaceBoundedSubVolume
  defines "m \<equiv> get_metadata h"
  assumes "holds_cube h c" and "wf_subvolume a sv" and "l \<le> i" and "i < n" and "n \<le> surface_size (m_ref sv)"
    and "to_interpolation ip = Inr method" and "6 * int (m_segment_offsets sv ! n) < 2 ^ 31" and "int n < 2 ^ 31"
    and "fetch_subvolume v h sv ip l n = Inr sv'"
  shows "\<exists>src dst. vertical_segment sv' i = Inr src \<and> m_reference dst = m_data (m_ref sv) ! i \<and> ds_blueprint dst = b \<and>
    resampled_at v sv' b i =
      rbind (makima v (raw_segment_sample_positions src) (map (\<lambda>p. cube_sample c p method) (segment_voxels v m sv i))) (\<lambda>spline.
      rbind (rmap spline (resampled_segment_sample_positions dst)) (\<lambda>vals. Inr (dst\<lparr>ds_data := vals\<rparr>)))"
proof -
  define d where "d = take (m_segment_offsets sv ! l) (sv_data sv) @
      map (\<lambda>p. Some (cube_sample c p method)) (concat (map (segment_voxels v m sv) [l..<n])) @
      drop (m_segment_offsets sv ! n) (sv_data sv)"
  have sv': "sv' = sv\<lparr>sv_data := d\<rparr>"
    using fetch_fills[OF assms(2,3) _ assms(6-9), of l v] assms(4,5,10) by (simp add: m_def d_def)
  have "length d = length (sv_data sv)"
    using wf_subvolume_offsets[OF assms(3), of l n] length_segments[OF assms(3,6), of l v m] assms(4-6) by (simp add: d_def)
  then have wf': "wf_subvolume a sv'" using assms(3) by (simp add: sv' wf_subvolume_data)
  have vw: "view sv' (m_segment_offsets sv' ! i) (m_segment_offsets sv' ! (i + 1)) = map Some (map (\<lambda>p. cube_sample c p method) (segment_voxels v m sv i))"
    using fetched_view[OF assms(3-6), of sv' "\<lambda>p. Some (cube_sample c p method)" v m] by (simp add: sv' d_def comp_def)
  have i: "i < surface_size (m_ref sv')" using assms(5,6) by (simp add: sv')
  obtain src dst where "vertical_segment sv' i = Inr src" "m_reference dst = m_data (m_ref sv') ! i" "ds_blueprint dst = b"
    "resampled_at v sv' b i = rbind (makima v (raw_segment_sample_positions src) (map (\<lambda>p. cube_sample c p method) (segment_voxels v m sv i)))
      (\<lambda>spline. rbind (rmap spline (resampled_segment_sample_positions dst)) (\<lambda>vals. Inr (dst\<lparr>ds_data := vals\<rparr>)))"
    by (rule resampled_at_wf[OF wf' i vw, where b = b and v = v])
  then show ?thesis by (intro exI[of _ src] exI[of _ dst]) (simp add: sv')
qed

theorem attributes_use_fetched_samples_witness:
  "\<exists>sv sv' src dst. make_subvolume (SingleMetadata example_single) (example_surface [8, - 999, 9, 16])
      (example_surface [8, 5, 5, 16]) (example_surface [8, 10, 15, 16]) = Inr sv \<and>
    fetch_subvolume example_vds (SingleData example_data) sv NEAREST 2 3 = Inr sv' \<and> vertical_segment sv' 2 = Inr src \<and>
    resampled_at example_vds sv' \<lparr>m_stepsize = 4\<rparr> 2 =
      rbind (makima example_vds (raw_segment_sample_positions src) (replicate 4 (Fin 1))) (\<lambda>spline.
      rbind (rmap spline (resampled_segment_sample_positions dst)) (\<lambda>vals. Inr (dst\<lparr>ds_data := vals\<rparr>)))"
proof -
  obtain sv where sv: "make_subvolume (SingleMetadata example_single) (example_surface [8, - 999, 9, 16])
      (example_surface [8, 5, 5, 16]) (example_surface [8, 10, 15, 16]) = Inr sv"
    and w: "wf_subvolume (make_Axis 4 16 4 ''Sample'' ''ms'' 0) sv" "sv_data sv = replicate 12 None"
      "surface_size (m_ref sv) = 4" "m_segment_offsets sv = [0, 4, 4, 8, 12]"
    by (rule example_subvolume_wf)
  have h: "holds_cube (SingleData example_data) example_cube" by (simp add: example_data_holds)
  have ip: "to_interpolation NEAREST = Inr Nearest" by (simp add: to_interpolation_def)
  obtain sv' where sv': "fetch_subvolume example_vds (SingleData example_data) sv NEAREST 2 3 = Inr sv'"
    using fetch_fills[OF h w(1) _ _ ip, of 2 3 example_vds] by (simp add: w)
  have "map (\<lambda>p. cube_sample example_cube p Nearest) (segment_voxels example_vds (get_metadata (SingleData example_data)) sv 2) =
      replicate 4 (Fin 1)"
    by (simp add: map_replicate_const w example_cube_def)
  then show ?thesis
    using attributes_use_fetched_samples[OF h w(1) _ _ _ ip _ _ sv', of 2 "\<lparr>m_stepsize = 4\<rparr>"] sv sv' by (simp add: w) blast
qed

section \<open>Lemmas on attribute requests\<close>

lemma append_attributes:
  assumes "length ks = length out" and "list_all (\<lambda>k. \<forall>j. k \<noteq> other_attribute j) ks"
  shows "rfold (append_attribute bytes) (zip ks out) attrs =
    Inr (attrs @ map2 (\<lambda>k o'. \<lparr>am_class = k, am_dst = o', am_size = bytes\<rparr>) ks out)"
  using assms
proof (induction ks out arbitrary: attrs rule: list_induct2)
  case (Cons k ks d out)
  then show ?case by (cases k) (simp_all add: append_attribute_def)
qed simp

lemma append_attributes_unknown:
  assumes "length ks = length out" and "list_ex (\<lambda>k. \<exists>j. k = other_attribute j) ks"
  shows "rfold (append_attribute bytes) (zip ks out) attrs = Inl (std_exception ''Attribute not implemented'')"
  using assms
proof (induction ks out arbitrary: attrs rule: list_induct2)
  case (Cons k ks d out)
  then show ?case by (cases k) (simp_all add: append_attribute_def)
qed simp

lemma filled_nth:
  assumes "filled v sv b l n a a'"
  shows "length (am_dst a') = length (am_dst a)"
    and "j < length (am_dst a) \<Longrightarrow> l \<le> j \<Longrightarrow> j < n \<Longrightarrow> attribute_value v sv b (am_class a) j = Inr (am_dst a' ! j)"
    and "j < length (am_dst a) \<Longrightarrow> \<not> (l \<le> j \<and> j < n) \<Longrightarrow> am_dst a' ! j = am_dst a ! j"
  using assms unfolding filled_def by metis+

text \<open>C18: The buffers of an attribute request. For every requested attribute and every grid point of the
  range the buffer holds the attribute of that point, in the order of the request, and at the
  other points what it held before; one attribute that is not known fails the request.\<close>

theorem attributes_buffers:
  assumes "length ks = length out" and "list_all (\<lambda>d. length d = grid_size (horizontal_grid sv)) out"
    and "grid_size (horizontal_grid sv) < 2 ^ 62" and "l \<le> n" and "n < 2 ^ 62"
  shows "if list_ex (\<lambda>k. \<exists>j. k = other_attribute j) ks then
      attributes v sv b ks l n out = Inl (std_exception ''Attribute not implemented'')
    else attributes v sv b ks l n out = Inr out' \<longrightarrow> length out' = length ks \<and>
      list_all (\<lambda>k. length (out' ! k) = length (out ! k) \<and>
        list_all (\<lambda>j. if l \<le> j \<and> j < n then attribute_value v sv b (ks ! k) j = Inr (out' ! k ! j)
          else out' ! k ! j = out ! k ! j) [0..<grid_size (horizontal_grid sv)]) [0..<length ks]"
proof (cases "list_ex (\<lambda>k. \<exists>j. k = other_attribute j) ks")
  case True
  then show ?thesis using append_attributes_unknown[OF assms(1)] by (simp add: attributes_def Let_def)
next
  case False
  define g where "g = grid_size (horizontal_grid sv)"
  define attrs where "attrs = map2 (\<lambda>k o'. \<lparr>am_class = k, am_dst = o', am_size = wrap64 (g * 4)\<rparr>) ks out"
  have attrs: "rfold (append_attribute (wrap64 (g * 4))) (zip ks out) [] = Inr attrs"
    using False append_attributes[OF assms(1), of _ "[]"] by (simp add: attrs_def list_ex_iff list_all_iff)
  have nth: "attrs ! k = \<lparr>am_class = ks ! k, am_dst = out ! k, am_size = 4 * g\<rparr>" "length (out ! k) = g" if "k < length ks" for k
    using that assms(1-3) by (simp_all add: attrs_def g_def wrap64_def list_all_iff)
  have len: "length attrs = length ks" using assms(1) by (simp add: attrs_def)
  have sized: "list_all sized attrs" using nth len by (simp add: list_all_length sized_def)
  have "length out' = length ks \<and>
      list_all (\<lambda>k. length (out' ! k) = length (out ! k) \<and>
        list_all (\<lambda>j. if l \<le> j \<and> j < n then attribute_value v sv b (ks ! k) j = Inr (out' ! k ! j)
          else out' ! k ! j = out ! k ! j) [0..<g]) [0..<length ks]"
    if "attributes v sv b ks l n out = Inr out'"
  proof -
    have "rbind (calc_attributes v sv b attrs l n) (\<lambda>a. Inr (map am_dst a)) = Inr out'"
      using that attrs by (simp add: attributes_def g_def)
    then obtain attrs' where "calc_attributes v sv b attrs l n = Inr attrs'" and out': "out' = map am_dst attrs'" by auto
    then have f: "list_all2 (filled v sv b l n) attrs attrs'"
      using sized assms(4,5) by (intro attributes_loop_filled) (auto simp: calc_attributes_fresh)
    then have "length attrs' = length ks" using len by (simp add: list_all2_lengthD)
    moreover have "filled v sv b l n \<lparr>am_class = ks ! k, am_dst = out ! k, am_size = 4 * g\<rparr> (attrs' ! k)" if "k < length ks" for k
      using list_all2_nthD[OF f, of k] that nth(1) len by simp
    note k = filled_nth[OF this, simplified]
    ultimately show ?thesis using k nth(2) by (simp add: out' list_all_iff)
  qed
  with False show ?thesis by (simp add: g_def)
qed

theorem attributes_buffers_witness:
  "attributes example_vds example_filled \<lparr>m_stepsize = 4\<rparr> [attribute.MAX] 0 2 [[NaN, NaN, NaN, NaN]] =
    Inr [[Fin 4, Fin (- 999), NaN, NaN]] \<and>
   attribute_value example_vds example_filled \<lparr>m_stepsize = 4\<rparr> attribute.MAX 0 = Inr (Fin 4)"
proof -
  have size: "grid_size (horizontal_grid example_filled) = 4"
    by (simp add: horizontal_grid_def example_filled_def grid_size_def example_surface_def make_RegularSurface_def)
  then have r: "attributes example_vds example_filled \<lparr>m_stepsize = 4\<rparr> [attribute.MAX] 0 2 [[NaN, NaN, NaN, NaN]] =
      Inr [[Fin 4, Fin (- 999), NaN, NaN]]"
    using example_maximum by (simp add: attributes_def append_attribute_def wrap64_def)
  have "[0..<4] = [0, 1, 2, 3 :: nat]" by (simp add: upt_rec)
  then have "attribute_value example_vds example_filled \<lparr>m_stepsize = 4\<rparr> attribute.MAX 0 = Inr (Fin 4)"
    using attributes_buffers[of "[attribute.MAX]" "[[NaN, NaN, NaN, NaN]]" example_filled 0 2 example_vds "\<lparr>m_stepsize = 4\<rparr>"] r
    by (simp add: size)
  with r show ?thesis by simp
qed

section \<open>Lemmas on alignment\<close>

text \<open>The point of the secondary grid next to a point of the primary grid, and the value there.\<close>

definition nearest :: "BoundedGrid \<Rightarrow> BoundedGrid \<Rightarrow> nat \<Rightarrow> (nat \<times> nat) option" where
  "nearest g g' i = (case to_cdp g i of
       Inl _ \<Rightarrow> None
     | Inr cdp \<Rightarrow> (case from_cdp g' cdp of
         None \<Rightarrow> None
       | Some p \<Rightarrow> if 0 \<le> lround (pt_x p) \<and> lround (pt_x p) < int (m_nrows g') \<and> 0 \<le> lround (pt_y p) \<and> lround (pt_y p) < int (m_ncols g')
           then Some (nat (lround (pt_x p)), nat (lround (pt_y p))) else None))"

definition aligned_value :: "RegularSurface \<Rightarrow> RegularSurface \<Rightarrow> nat \<Rightarrow> real option" where
  "aligned_value primary secondary i =
     (if m_data primary ! i = m_fillvalue primary then None
      else case nearest (m_grid primary) (m_grid secondary) i of
        None \<Rightarrow> None
      | Some (r, c) \<Rightarrow> let x = m_data secondary ! (r * m_ncols (m_grid secondary) + c)
          in if x = m_fillvalue secondary then None else Some x)"

definition invertible :: "RegularSurface \<Rightarrow> bool" where
  "invertible s \<longleftrightarrow> m_inverse_transformation (bg_grid (m_grid s)) \<noteq> None"

lemma surface_get_pair_eq:
  assumes "wf_surface s" and "r < m_nrows (m_grid s)" and "c < m_ncols (m_grid s)"
  shows "surface_get_pair s (as_pair r c) = Inr (m_data s ! (r * m_ncols (m_grid s) + c))"
proof -
  have "r * m_ncols (m_grid s) + c + 1 \<le> m_ncols (m_grid s) * m_nrows (m_grid s)"
    using row_end[OF assms(2), of c 1 "m_ncols (m_grid s)"] assms(3) by simp
  then show ?thesis using assms by (simp add: surface_get_pair_def as_pair_def element_def wf_surface_def wrap64_def)
qed

lemma align_step_eq:
  assumes wf: "wf_surface primary" "wf_surface secondary" "invertible secondary" and i: "i < surface_size primary"
    and al: "bounded_grid_eq (m_grid primary) (m_grid al)" "length (m_data al) = surface_size primary"
  shows "align_step primary secondary i (al, st) = (case aligned_value primary secondary i of
      None \<Rightarrow> Inr (al\<lparr>m_data := (m_data al)[i := m_fillvalue al]\<rparr>, st)
    | Some x \<Rightarrow> let (crossed, st') = have_crossed (m_data primary ! i) x st in
        if crossed then Inl (bad_request (''Surfaces intersect at primary surface point ('' @
          to_string (int (i div m_ncols (m_grid primary))) @ '', '' @ to_string (int (i mod m_ncols (m_grid primary))) @ '')''))
        else Inr (al\<lparr>m_data := (m_data al)[i := x]\<rparr>, st'))"
proof -
  have get: "surface_get primary i = Inr (m_data primary ! i)" using wf(1) i by (simp add: surface_get_eq)
  have set: "surface_set al i x = Inr (al\<lparr>m_data := (m_data al)[i := x]\<rparr>)" for x
    using al i bounded_grid_eq_size[OF al(1)] by (simp add: surface_set_def surface_ref_def surface_size_def)
  have rc: "grid_row (m_grid primary) i = Inr (i div m_ncols (m_grid primary))" "grid_col (m_grid primary) i = Inr (i mod m_ncols (m_grid primary))"
    using i by (simp_all add: grid_row_def grid_col_def surface_size_def)
  obtain cdp where cdp: "to_cdp (m_grid primary) i = Inr cdp" using to_cdp_total[OF wf(1) i] by blast
  obtain p where p: "from_cdp (m_grid secondary) cdp = Some p" using wf(3) by (auto simp: invertible_def from_cdp_def)
  show ?thesis
  proof (cases "0 \<le> lround (pt_x p) \<and> lround (pt_x p) < int (m_nrows (m_grid secondary)) \<and> 0 \<le> lround (pt_y p) \<and>
      lround (pt_y p) < int (m_ncols (m_grid secondary))")
    case True
    then have "surface_get_pair secondary (as_pair (nat (lround (pt_x p))) (nat (lround (pt_y p)))) =
        Inr (m_data secondary ! (nat (lround (pt_x p)) * m_ncols (m_grid secondary) + nat (lround (pt_y p))))"
      by (intro surface_get_pair_eq[OF wf(2)]) auto
    with True show ?thesis
      by (auto simp: align_step_def get set cdp p rc aligned_value_def nearest_def Let_def split: prod.splits)
  next
    case False
    then show ?thesis by (auto simp: align_step_def get set cdp p aligned_value_def nearest_def Let_def)
  qed
qed

text \<open>Whether one of the first points has the primary surface above, or below, the aligned value.\<close>

definition above :: "RegularSurface \<Rightarrow> RegularSurface \<Rightarrow> nat \<Rightarrow> bool" where
  "above primary secondary n \<longleftrightarrow> list_ex (\<lambda>i. case aligned_value primary secondary i of None \<Rightarrow> False | Some x \<Rightarrow> m_data primary ! i < x) [0..<n]"

definition below :: "RegularSurface \<Rightarrow> RegularSurface \<Rightarrow> nat \<Rightarrow> bool" where
  "below primary secondary n \<longleftrightarrow> list_ex (\<lambda>i. case aligned_value primary secondary i of None \<Rightarrow> False | Some x \<Rightarrow> x < m_data primary ! i) [0..<n]"

definition aligned_data :: "RegularSurface \<Rightarrow> RegularSurface \<Rightarrow> RegularSurface \<Rightarrow> nat \<Rightarrow> real" where
  "aligned_data primary secondary al i = (case aligned_value primary secondary i of None \<Rightarrow> m_fillvalue al | Some x \<Rightarrow> x)"

lemma above_below_Suc:
  "above primary secondary (Suc n) \<longleftrightarrow> above primary secondary n \<or>
    (case aligned_value primary secondary n of None \<Rightarrow> False | Some x \<Rightarrow> m_data primary ! n < x)"
  "below primary secondary (Suc n) \<longleftrightarrow> below primary secondary n \<or>
    (case aligned_value primary secondary n of None \<Rightarrow> False | Some x \<Rightarrow> x < m_data primary ! n)"
  by (auto simp: above_def below_def)

lemma align_prefix:
  assumes wf: "wf_surface primary" "wf_surface secondary" "invertible secondary"
    and al: "bounded_grid_eq (m_grid primary) (m_grid al)" "length (m_data al) = surface_size primary"
    and n: "n \<le> surface_size primary" and ok: "\<not> (above primary secondary n \<and> below primary secondary n)"
  shows "rfold (align_step primary secondary) [0..<n] (al, \<lparr>primary_is_top = False, primary_is_bottom = False\<rparr>) =
    Inr (al\<lparr>m_data := map (aligned_data primary secondary al) [0..<n] @ drop n (m_data al)\<rparr>,
      \<lparr>primary_is_top = above primary secondary n, primary_is_bottom = below primary secondary n\<rparr>)"
  using n ok
proof (induction n)
  case 0
  then show ?case by (simp add: above_def below_def)
next
  case (Suc n)
  have ok: "\<not> (above primary secondary n \<and> below primary secondary n)" using Suc.prems by (auto simp: above_below_Suc)
  let ?al = "al\<lparr>m_data := map (aligned_data primary secondary al) [0..<n] @ drop n (m_data al)\<rparr>"
  let ?st = "\<lparr>primary_is_top = above primary secondary n, primary_is_bottom = below primary secondary n\<rparr>"
  have n: "n < surface_size primary" using Suc.prems by simp
  have d: "drop n (m_data al) = m_data al ! n # drop (Suc n) (m_data al)" using n al(2) by (simp add: Cons_nth_drop_Suc)
  have upd: "(map (aligned_data primary secondary al) [0..<n] @ drop n (m_data al))[n := x] =
      map (aligned_data primary secondary al) [0..<n] @ x # drop (Suc n) (m_data al)" for x
    by (simp add: d list_update_append)
  have "align_step primary secondary n (?al, ?st) = Inr (al\<lparr>m_data := map (aligned_data primary secondary al) [0..<Suc n] @ drop (Suc n) (m_data al)\<rparr>,
      \<lparr>primary_is_top = above primary secondary (Suc n), primary_is_bottom = below primary secondary (Suc n)\<rparr>)"
  proof (cases "aligned_value primary secondary n")
    case None
    then show ?thesis
      using align_step_eq[OF wf n, of ?al ?st] al n upd by (simp add: above_below_Suc aligned_data_def)
  next
    case (Some x)
    then show ?thesis
      using align_step_eq[OF wf n, of ?al ?st] al n upd Suc.prems(2) ok
      by (auto simp: above_below_Suc aligned_data_def have_crossed_def Let_def split: if_splits)
  qed
  then show ?case using Suc ok by (simp add: rfold_snoc)
qed

lemma first_crossing:
  assumes "P n" and "\<not> P (0 :: nat)"
  obtains i where "i < n" "\<not> P i" "P (Suc i)"
proof -
  define k where "k = (LEAST k. P k)"
  have k: "P k" "k \<le> n" using assms(1) by (auto simp: k_def intro: LeastI Least_le)
  then have "k \<noteq> 0" using assms(2) by metis
  then obtain i where i: "k = Suc i" by (cases k) auto
  have "\<not> P i" using not_less_Least[of i P] i by (simp add: k_def)
  with k i show ?thesis by (intro that[of i]) simp_all
qed

lemma align_result:
  assumes "wf_surface primary" and "wf_surface secondary" and "invertible secondary" and "wf_surface al"
    and "bounded_grid_eq (m_grid primary) (m_grid al)"
  defines "n \<equiv> surface_size primary"
  defines "crossed \<equiv> \<lambda>k. above primary secondary k \<and> below primary secondary k"
  shows "if crossed n then \<exists>i < n. \<not> crossed i \<and> crossed (Suc i) \<and>
      align_surfaces primary secondary al = Inl (bad_request (''Surfaces intersect at primary surface point ('' @
        to_string (int (i div m_ncols (m_grid primary))) @ '', '' @ to_string (int (i mod m_ncols (m_grid primary))) @ '')''))
    else align_surfaces primary secondary al =
      Inr (al\<lparr>m_data := map (aligned_data primary secondary al) [0..<n]\<rparr>, above primary secondary n)"
proof -
  have len: "length (m_data al) = surface_size primary"
    using assms(4) bounded_grid_eq_size[OF assms(5)] by (simp add: surface_size_def grid_size_def wf_surface_def)
  note prefix = align_prefix[OF assms(1-3,5) len]
  show ?thesis
  proof (cases "crossed n")
    case True
    have "\<not> crossed 0" by (simp add: crossed_def above_def)
    with True obtain i where i: "i < n" "\<not> crossed i" "crossed (Suc i)" by (rule first_crossing)
    have split: "[0..<n] = [0..<i] @ i # [Suc i..<n]"
      using i(1) upt_add_eq_append[of 0 i "n - i"] by (simp add: upt_conv_Cons)
    let ?al = "al\<lparr>m_data := map (aligned_data primary secondary al) [0..<i] @ drop i (m_data al)\<rparr>"
    let ?st = "\<lparr>primary_is_top = above primary secondary i, primary_is_bottom = below primary secondary i\<rparr>"
    have p: "rfold (align_step primary secondary) [0..<i] (al, \<lparr>primary_is_top = False, primary_is_bottom = False\<rparr>) = Inr (?al, ?st)"
      using i by (intro prefix) (simp_all add: n_def crossed_def)
    obtain x where x: "aligned_value primary secondary i = Some x"
      using i by (cases "aligned_value primary secondary i") (simp_all add: crossed_def above_below_Suc)
    have "align_step primary secondary i (?al, ?st) = Inl (bad_request (''Surfaces intersect at primary surface point ('' @
        to_string (int (i div m_ncols (m_grid primary))) @ '', '' @ to_string (int (i mod m_ncols (m_grid primary))) @ '')''))"
      using align_step_eq[OF assms(1-3), of i ?al ?st] assms(5) len i x
      by (auto simp: n_def crossed_def above_below_Suc have_crossed_def Let_def)
    then have "align_surfaces primary secondary al = Inl (bad_request (''Surfaces intersect at primary surface point ('' @
        to_string (int (i div m_ncols (m_grid primary))) @ '', '' @ to_string (int (i mod m_ncols (m_grid primary))) @ '')''))"
      using assms(5) p unfolding align_surfaces_def n_def[symmetric] split by (simp add: rfold_append guard_def)
    with True i show ?thesis by auto
  next
    case False
    then show ?thesis
      using prefix[of n] assms(5) len unfolding align_surfaces_def n_def[symmetric] by (simp add: n_def crossed_def guard_def)
  qed
qed

lemma same_grid_nearest:
  assumes "bg_grid g = make_Grid xori yori xinc yinc rot" and "xinc \<noteq> 0" and "yinc \<noteq> 0"
    and "\<bar>xinc\<bar> * real (m_nrows g) + \<bar>yinc\<bar> * real (m_ncols g) + \<bar>xori\<bar> + \<bar>yori\<bar> \<le> 2 ^ 43 * min \<bar>xinc\<bar> \<bar>yinc\<bar>"
    and "i < grid_size g"
  shows "nearest g g i = Some (i div m_ncols g, i mod m_ncols g)"
proof -
  have "grid_size g \<le> m_ncols g * m_nrows g" by (simp add: grid_size_def wrap64_def)
  then have i: "i < m_ncols g * m_nrows g" using assms(5) by simp
  note rc = flat_index_split[OF i]
  have "m_ncols g \<noteq> 0" using i by (cases "m_ncols g") simp_all
  then show ?thesis
    using bounded_grid_round_trip[OF assms(1-4) rc(1,2)] rc(1,2) by (auto simp: nearest_def to_cdp_def)
qed

lemma same_grid_value:
  assumes "wf_surface secondary" and "m_grid primary = m_grid secondary"
    and "bg_grid (m_grid secondary) = make_Grid xori yori xinc yinc rot" and "xinc \<noteq> 0" and "yinc \<noteq> 0"
    and "\<bar>xinc\<bar> * real (m_nrows (m_grid secondary)) + \<bar>yinc\<bar> * real (m_ncols (m_grid secondary)) + \<bar>xori\<bar> + \<bar>yori\<bar>
      \<le> 2 ^ 43 * min \<bar>xinc\<bar> \<bar>yinc\<bar>"
    and "i < surface_size secondary"
  shows "aligned_value primary secondary i =
    (if m_data primary ! i = m_fillvalue primary \<or> m_data secondary ! i = m_fillvalue secondary then None else Some (m_data secondary ! i))"
  using same_grid_nearest[OF assms(3-6)] assms(2,7) by (simp add: aligned_value_def surface_size_def)

lemma example_alignment:
  assumes "length data = 4" and "length data' = 4" and "i < 4"
  shows "aligned_value (example_surface data) (example_surface data') i =
    (if data ! i = - 999 \<or> data' ! i = - 999 then None else Some (data' ! i))"
  using same_grid_value[OF example_surfaces_wf(1)[OF assms(2)], of "example_surface data" 1 10 2 1 0 i] assms(3)
  by (simp add: example_surface_def make_RegularSurface_def example_grid_def surface_size_def grid_size_def)

lemma example_crossing:
  assumes "length data = 4" and "length data' = 4" and "k \<le> 4"
  shows "above (example_surface data) (example_surface data') k \<longleftrightarrow>
      list_ex (\<lambda>i. data ! i \<noteq> - 999 \<and> data' ! i \<noteq> - 999 \<and> data ! i < data' ! i) [0..<k]"
    and "below (example_surface data) (example_surface data') k \<longleftrightarrow>
      list_ex (\<lambda>i. data ! i \<noteq> - 999 \<and> data' ! i \<noteq> - 999 \<and> data' ! i < data ! i) [0..<k]"
proof -
  have v: "aligned_value (example_surface data) (example_surface data') i =
    (if data ! i = - 999 \<or> data' ! i = - 999 then None else Some (data' ! i))" if "i < k" for i
    using example_alignment[OF assms(1,2)] that assms(3) by simp
  have d: "m_data (example_surface data) = data" by (simp add: example_surface_def make_RegularSurface_def)
  show "above (example_surface data) (example_surface data') k \<longleftrightarrow>
      list_ex (\<lambda>i. data ! i \<noteq> - 999 \<and> data' ! i \<noteq> - 999 \<and> data ! i < data' ! i) [0..<k]"
    unfolding above_def d by (intro list_ex_cong refl) (simp add: v)
  show "below (example_surface data) (example_surface data') k \<longleftrightarrow>
      list_ex (\<lambda>i. data ! i \<noteq> - 999 \<and> data' ! i \<noteq> - 999 \<and> data' ! i < data ! i) [0..<k]"
    unfolding below_def d by (intro list_ex_cong refl) (simp add: v)
qed

section \<open>Properties of alignment\<close>

text \<open>C19: Aligning a surface with another. If the surfaces do not cross, the aligned surface has at
  every point the value of the secondary surface at the nearest point of its grid, or its own
  fill value where either surface has none, and the flag says whether the primary surface is
  above it anywhere; if they cross, the request is refused at the first point where they are
  known to.\<close>

theorem align_surfaces_result:
  assumes "wf_surface primary" and "wf_surface secondary" and "invertible secondary" and "wf_surface al"
    and "bounded_grid_eq (m_grid primary) (m_grid al)"
  defines "n \<equiv> surface_size primary"
  defines "crossed \<equiv> \<lambda>k. above primary secondary k \<and> below primary secondary k"
  shows "if crossed n then \<exists>i < n. \<not> crossed i \<and> crossed (Suc i) \<and>
      align_surfaces primary secondary al = Inl (bad_request (''Surfaces intersect at primary surface point ('' @
        to_string (int (i div m_ncols (m_grid primary))) @ '', '' @ to_string (int (i mod m_ncols (m_grid primary))) @ '')''))
    else align_surfaces primary secondary al =
      Inr (al\<lparr>m_data := map (aligned_data primary secondary al) [0..<n]\<rparr>, above primary secondary n)"
  unfolding n_def crossed_def by (rule align_result[OF assms(1-5)])

theorem align_surfaces_result_witness:
  "\<exists>i < 4. align_surfaces (example_surface [1, 2, 3, - 999]) (example_surface [5, 1, - 999, 8]) (example_surface [0, 0, 0, 0]) =
    Inl (bad_request (''Surfaces intersect at primary surface point ('' @ to_string (int (i div 2)) @ '', '' @ to_string (int (i mod 2)) @ '')''))"
proof -
  let ?p = "example_surface [1, 2, 3, - 999]" and ?s = "example_surface [5, 1, - 999, 8]"
  have inv: "invertible ?s" by (simp add: invertible_def example_surface_def make_RegularSurface_def example_grid_eq)
  have "above ?p ?s 4 \<and> below ?p ?s 4" by (simp add: example_crossing upt_rec)
  moreover have "m_ncols (m_grid ?p) = 2" by (simp add: example_surface_def make_RegularSurface_def)
  ultimately show ?thesis
    using align_surfaces_result[OF example_surfaces_wf(1) example_surfaces_wf(1) inv example_surfaces_wf(1) example_surfaces_wf(3),
        of "[1, 2, 3, - 999]" "[0, 0, 0, 0]"]
    by (auto simp: example_surfaces_wf)
qed

text \<open>Aligning a surface with one on the same grid copies it: away from the points where one of the
  two has no value, the aligned surface is the secondary surface, for every rotation and
  every grid within the bound of the round trip through world coordinates.\<close>

theorem align_same_grid:
  assumes "wf_surface primary" and "wf_surface secondary" and "wf_surface al" and "m_grid primary = m_grid secondary"
    and "bounded_grid_eq (m_grid primary) (m_grid al)"
    and "bg_grid (m_grid secondary) = make_Grid xori yori xinc yinc rot" and "xinc \<noteq> 0" and "yinc \<noteq> 0"
    and "\<bar>xinc\<bar> * real (m_nrows (m_grid secondary)) + \<bar>yinc\<bar> * real (m_ncols (m_grid secondary)) + \<bar>xori\<bar> + \<bar>yori\<bar>
      \<le> 2 ^ 43 * min \<bar>xinc\<bar> \<bar>yinc\<bar>"
    and "\<not> (above primary secondary (surface_size primary) \<and> below primary secondary (surface_size primary))"
  shows "align_surfaces primary secondary al = Inr (al\<lparr>m_data := map (\<lambda>i.
      if m_data primary ! i = m_fillvalue primary \<or> m_data secondary ! i = m_fillvalue secondary then m_fillvalue al
      else m_data secondary ! i) [0..<surface_size primary]\<rparr>, above primary secondary (surface_size primary))"
proof -
  have inv: "invertible secondary" using assms(6-8) by (simp add: invertible_def make_Grid_def inverse_from_rotation_def Let_def)
  have size: "surface_size primary = surface_size secondary" by (simp add: surface_size_def assms(4))
  have "map (aligned_data primary secondary al) [0..<surface_size primary] = map (\<lambda>i.
      if m_data primary ! i = m_fillvalue primary \<or> m_data secondary ! i = m_fillvalue secondary then m_fillvalue al
      else m_data secondary ! i) [0..<surface_size primary]"
    using same_grid_value[OF assms(2,4,6-9)] by (intro map_cong) (auto simp: size aligned_data_def)
  then show ?thesis using align_result[OF assms(1,2) inv assms(3,5)] assms(10) by simp
qed

theorem align_same_grid_witness:
  "align_surfaces (example_surface [1, 2, 3, - 999]) (example_surface [5, 2, - 999, 8]) (example_surface [0, 0, 0, 0]) =
    Inr (example_surface [5, 2, - 999, - 999], True)"
proof -
  let ?p = "example_surface [1, 2, 3, - 999]" and ?s = "example_surface [5, 2, - 999, 8]"
  have c: "above ?p ?s 4" "\<not> below ?p ?s 4" by (simp_all add: example_crossing upt_rec)
  show ?thesis
    using align_same_grid[OF example_surfaces_wf(1) example_surfaces_wf(1) example_surfaces_wf(1) _ example_surfaces_wf(3),
        of "[1, 2, 3, - 999]" "[5, 2, - 999, 8]" "[0, 0, 0, 0]" 1 10 2 1 0] c
    by (simp add: example_surfaces_wf) (simp add: example_surface_def make_RegularSurface_def example_grid_def upt_rec)
qed

end
