(* ===== verification/Dtoa.thy ===== *)
theory Dtoa
  imports Floating
begin

text \<open>
  The decimal text of a \<^verbatim>\<open>double\<close> (\<^verbatim>\<open>nlohmann/json.hpp\<close>, namespace \<^verbatim>\<open>dtoa_impl\<close>): the Grisu2
  algorithm, which finds a short decimal between the two neighbours of the number with 64-bit
  integer arithmetic, and the formatting of its digits. The assertions of the source are
  guards; their failure is \<open>undefined_behaviour\<close>.
\<close>

section \<open>diyfp\<close>

text \<open>The value \<open>f * 2 ^ e\<close>. The significand is an unsigned 64-bit value, so shifts to the left wrap.\<close>

record diyfp =
  fp_f :: nat
  fp_e :: int

definition assertion :: "bool \<Rightarrow> unit result" where
  "assertion c = guard c (undefined_behaviour ''assertion'')"

definition diyfp_sub :: "diyfp \<Rightarrow> diyfp \<Rightarrow> diyfp result" where
  "diyfp_sub x y =
     rbind (assertion (fp_e x = fp_e y)) (\<lambda>_.
     rbind (assertion (fp_f x \<ge> fp_f y)) (\<lambda>_.
     Inr \<lparr>fp_f = fp_f x - fp_f y, fp_e = fp_e x\<rparr>))"

text \<open>
  The upper half of the product, from the four products of the 32-bit halves, rounded. Masking
  with \<^verbatim>\<open>0xFFFFFFFF\<close> is the remainder by \<open>2 ^ 32\<close> and the shift by 32 the quotient.
\<close>

definition diyfp_mul :: "diyfp \<Rightarrow> diyfp \<Rightarrow> diyfp" where
  "diyfp_mul x y =
     (let u_lo = fp_f x mod 2 ^ 32; u_hi = fp_f x div 2 ^ 32;
          v_lo = fp_f y mod 2 ^ 32; v_hi = fp_f y div 2 ^ 32;
          p0 = wrap64 (u_lo * v_lo); p1 = wrap64 (u_lo * v_hi); p2 = wrap64 (u_hi * v_lo); p3 = wrap64 (u_hi * v_hi);
          p0_hi = p0 div 2 ^ 32; p1_lo = p1 mod 2 ^ 32; p1_hi = p1 div 2 ^ 32; p2_lo = p2 mod 2 ^ 32; p2_hi = p2 div 2 ^ 32;
          Q = wrap64 (p0_hi + p1_lo + p2_lo);
          Q = wrap64 (Q + 2 ^ (64 - 32 - 1));
          h = wrap64 (p3 + p2_hi + p1_hi + Q div 2 ^ 32)
      in \<lparr>fp_f = h, fp_e = fp_e x + fp_e y + 64\<rparr>)"

text \<open>The loop of \<^verbatim>\<open>normalize\<close>; a significand of zero is ruled out before it starts.\<close>

function normalize_loop :: "diyfp \<Rightarrow> diyfp" where
  "normalize_loop x = (if 0 < fp_f x \<and> fp_f x < 2 ^ 63 then normalize_loop \<lparr>fp_f = fp_f x * 2, fp_e = fp_e x - 1\<rparr> else x)"
  by auto
termination
  by (relation "measure (\<lambda>x. 2 ^ 63 - fp_f x)") auto

definition diyfp_normalize :: "diyfp \<Rightarrow> diyfp result" where
  "diyfp_normalize x = rbind (assertion (fp_f x \<noteq> 0)) (\<lambda>_. Inr (normalize_loop x))"

definition diyfp_normalize_to :: "diyfp \<Rightarrow> int \<Rightarrow> diyfp result" where
  "diyfp_normalize_to x target_exponent =
     (let delta = fp_e x - target_exponent in
      rbind (assertion (delta \<ge> 0)) (\<lambda>_.
      let f = wrap64 (fp_f x * 2 ^ nat delta) in
      rbind (assertion (f div 2 ^ nat delta = fp_f x)) (\<lambda>_.
      Inr \<lparr>fp_f = f, fp_e = target_exponent\<rparr>)))"

section \<open>Boundaries\<close>

record boundaries =
  bd_w :: diyfp
  bd_minus :: diyfp
  bd_plus :: diyfp

text \<open>The exponent and fraction bits of a positive \<^verbatim>\<open>double\<close>.\<close>

definition double_E :: "real \<Rightarrow> nat" where
  "double_E x = nat (expo x + 1023)"

definition double_F :: "real \<Rightarrow> nat" where
  "double_F x = (if double_E x = 0 then nat \<lfloor>x * 2 ^ 1074\<rfloor> else nat \<lfloor>x * 2 powi (52 - expo x)\<rfloor> - 2 ^ 52)"

definition compute_boundaries :: "real \<Rightarrow> boundaries result" where
  "compute_boundaries val =
     rbind (assertion (val > 0)) (\<lambda>_.
     let kBias = 1075; kMinExp = 1 - kBias; kHiddenBit = 2 ^ 52;
         E = double_E val; F = double_F val;
         v = (if E = 0 then \<lparr>fp_f = F, fp_e = kMinExp\<rparr> else \<lparr>fp_f = F + kHiddenBit, fp_e = int E - kBias\<rparr>);
         lower_boundary_is_closer = (F = 0 \<and> E > 1);
         m_plus = \<lparr>fp_f = 2 * fp_f v + 1, fp_e = fp_e v - 1\<rparr>;
         m_minus = (if lower_boundary_is_closer then \<lparr>fp_f = 4 * fp_f v - 1, fp_e = fp_e v - 2\<rparr>
                    else \<lparr>fp_f = 2 * fp_f v - 1, fp_e = fp_e v - 1\<rparr>)
     in
     rbind (diyfp_normalize m_plus) (\<lambda>w_plus.
     rbind (diyfp_normalize_to m_minus (fp_e w_plus)) (\<lambda>w_minus.
     rbind (diyfp_normalize v) (\<lambda>w.
     Inr \<lparr>bd_w = w, bd_minus = w_minus, bd_plus = w_plus\<rparr>))))"

section \<open>Cached powers of ten\<close>

abbreviation (input) "kAlpha \<equiv> (- 60 :: int)"
abbreviation (input) "kGamma \<equiv> (- 32 :: int)"

text \<open>\<open>(f, e, k)\<close> with \<open>f * 2 ^ e\<close> close to \<open>10 ^ k\<close>.\<close>

definition kCachedPowers :: "(nat \<times> int \<times> int) list" where
  "kCachedPowers =
     [(0xAB70FE17C79AC6CA, - 1060, - 300), (0xFF77B1FCBEBCDC4F, - 1034, - 292),
      (0xBE5691EF416BD60C, - 1007, - 284), (0x8DD01FAD907FFC3C, - 980, - 276),
      (0xD3515C2831559A83, - 954, - 268), (0x9D71AC8FADA6C9B5, - 927, - 260),
      (0xEA9C227723EE8BCB, - 901, - 252), (0xAECC49914078536D, - 874, - 244),
      (0x823C12795DB6CE57, - 847, - 236), (0xC21094364DFB5637, - 821, - 228),
      (0x9096EA6F3848984F, - 794, - 220), (0xD77485CB25823AC7, - 768, - 212),
      (0xA086CFCD97BF97F4, - 741, - 204), (0xEF340A98172AACE5, - 715, - 196),
      (0xB23867FB2A35B28E, - 688, - 188), (0x84C8D4DFD2C63F3B, - 661, - 180),
      (0xC5DD44271AD3CDBA, - 635, - 172), (0x936B9FCEBB25C996, - 608, - 164),
      (0xDBAC6C247D62A584, - 582, - 156), (0xA3AB66580D5FDAF6, - 555, - 148),
      (0xF3E2F893DEC3F126, - 529, - 140), (0xB5B5ADA8AAFF80B8, - 502, - 132),
      (0x87625F056C7C4A8B, - 475, - 124), (0xC9BCFF6034C13053, - 449, - 116),
      (0x964E858C91BA2655, - 422, - 108), (0xDFF9772470297EBD, - 396, - 100),
      (0xA6DFBD9FB8E5B88F, - 369, - 92), (0xF8A95FCF88747D94, - 343, - 84),
      (0xB94470938FA89BCF, - 316, - 76), (0x8A08F0F8BF0F156B, - 289, - 68),
      (0xCDB02555653131B6, - 263, - 60), (0x993FE2C6D07B7FAC, - 236, - 52),
      (0xE45C10C42A2B3B06, - 210, - 44), (0xAA242499697392D3, - 183, - 36),
      (0xFD87B5F28300CA0E, - 157, - 28), (0xBCE5086492111AEB, - 130, - 20),
      (0x8CBCCC096F5088CC, - 103, - 12), (0xD1B71758E219652C, - 77, - 4),
      (0x9C40000000000000, - 50, 4), (0xE8D4A51000000000, - 24, 12),
      (0xAD78EBC5AC620000, 3, 20), (0x813F3978F8940984, 30, 28),
      (0xC097CE7BC90715B3, 56, 36), (0x8F7E32CE7BEA5C70, 83, 44),
      (0xD5D238A4ABE98068, 109, 52), (0x9F4F2726179A2245, 136, 60),
      (0xED63A231D4C4FB27, 162, 68), (0xB0DE65388CC8ADA8, 189, 76),
      (0x83C7088E1AAB65DB, 216, 84), (0xC45D1DF942711D9A, 242, 92),
      (0x924D692CA61BE758, 269, 100), (0xDA01EE641A708DEA, 295, 108),
      (0xA26DA3999AEF774A, 322, 116), (0xF209787BB47D6B85, 348, 124),
      (0xB454E4A179DD1877, 375, 132), (0x865B86925B9BC5C2, 402, 140),
      (0xC83553C5C8965D3D, 428, 148), (0x952AB45CFA97A0B3, 455, 156),
      (0xDE469FBD99A05FE3, 481, 164), (0xA59BC234DB398C25, 508, 172),
      (0xF6C69A72A3989F5C, 534, 180), (0xB7DCBF5354E9BECE, 561, 188),
      (0x88FCF317F22241E2, 588, 196), (0xCC20CE9BD35C78A5, 614, 204),
      (0x98165AF37B2153DF, 641, 212), (0xE2A0B5DC971F303A, 667, 220),
      (0xA8D9D1535CE3B396, 694, 228), (0xFB9B7CD9A4A7443C, 720, 236),
      (0xBB764C4CA7A44410, 747, 244), (0x8BAB8EEFB6409C1A, 774, 252),
      (0xD01FEF10A657842C, 800, 260), (0x9B10A4E5E9913129, 827, 268),
      (0xE7109BFBA19C0C9D, 853, 276), (0xAC2820D9623BF429, 880, 284),
      (0x80444B5E7AA7CF85, 907, 292), (0xBF21E44003ACDD2D, 933, 300),
      (0x8E679C2F5E44FF8F, 960, 308), (0xD433179D9C8CB841, 986, 316),
      (0x9E19DB92B4E31BA9, 1013, 324)]"

text \<open>Division of \<^verbatim>\<open>int\<close>s, which truncates.\<close>

definition int_div :: "int \<Rightarrow> int \<Rightarrow> int" where
  "int_div a b = (if a < 0 then - (- a div b) else a div b)"

definition get_cached_power_for_binary_exponent :: "int \<Rightarrow> (nat \<times> int \<times> int) result" where
  "get_cached_power_for_binary_exponent e =
     rbind (assertion (e \<ge> - 1500)) (\<lambda>_.
     rbind (assertion (e \<le> 1500)) (\<lambda>_.
     let f = kAlpha - e - 1;
         k = int_div (f * 78913) (2 ^ 18) + of_bool (f > 0);
         index = int_div (300 + k + (8 - 1)) 8
     in
     rbind (assertion (index \<ge> 0)) (\<lambda>_.
     rbind (assertion (index < 79)) (\<lambda>_.
     let cached = kCachedPowers ! nat index in
     rbind (assertion (kAlpha \<le> fst (snd cached) + e + 64)) (\<lambda>_.
     rbind (assertion (kGamma \<ge> fst (snd cached) + e + 64)) (\<lambda>_.
     Inr cached))))))"

section \<open>Digits\<close>

text \<open>The number of digits of \<open>n\<close> and the power of ten of the first.\<close>

definition find_largest_pow10 :: "nat \<Rightarrow> nat \<times> nat" where
  "find_largest_pow10 n =
     (if n \<ge> 1000000000 then (10, 1000000000)
      else if n \<ge> 100000000 then (9, 100000000)
      else if n \<ge> 10000000 then (8, 10000000)
      else if n \<ge> 1000000 then (7, 1000000)
      else if n \<ge> 100000 then (6, 100000)
      else if n \<ge> 10000 then (5, 10000)
      else if n \<ge> 1000 then (4, 1000)
      else if n \<ge> 100 then (3, 100)
      else if n \<ge> 10 then (2, 10)
      else (1, 1))"

text \<open>
  The digits written so far; the buffer has 64 characters, one of which may hold the sign.
\<close>

definition put_digit :: "nat \<Rightarrow> string \<Rightarrow> string result" where
  "put_digit d buf =
     rbind (assertion (d \<le> 9)) (\<lambda>_.
     rbind (guard (length buf < 63) (undefined_behaviour ''write outside number_buffer'')) (\<lambda>_.
     Inr (buf @ [digit_char d])))"

text \<open>
  The loop of \<^verbatim>\<open>grisu2_round\<close>, which decrements the last digit. The conditions are evaluated from
  left to right; with the assertions before the loop none of the sums and differences wraps.
\<close>

function round_loop :: "nat \<Rightarrow> nat \<Rightarrow> nat \<Rightarrow> nat \<Rightarrow> string \<Rightarrow> string result" where
  "round_loop distance delta rest ten_k buf =
     (if 0 < ten_k \<and> rest < distance \<and> delta - rest \<ge> ten_k \<and> (rest + ten_k < distance \<or> distance - rest > rest + ten_k - distance) then
        rbind (assertion (last buf \<noteq> CHR ''0'')) (\<lambda>_.
        round_loop distance delta (rest + ten_k) ten_k (butlast buf @ [char_of (of_char (last buf) - 1 :: nat)]))
      else Inr buf)"
  by auto
termination
  by (relation "measure (\<lambda>(distance, delta, rest, ten_k, buf). delta - rest)") auto

definition grisu2_round :: "string \<Rightarrow> nat \<Rightarrow> nat \<Rightarrow> nat \<Rightarrow> nat \<Rightarrow> string result" where
  "grisu2_round buf distance delta rest ten_k =
     rbind (assertion (length buf \<ge> 1)) (\<lambda>_.
     rbind (assertion (distance \<le> delta)) (\<lambda>_.
     rbind (assertion (rest \<le> delta)) (\<lambda>_.
     rbind (assertion (ten_k > 0)) (\<lambda>_.
     round_loop distance delta rest ten_k buf))))"

text \<open>
  The loop over the integral part: the digits so far, and the exponent and the digits when it
  stops early. \<open>s\<close> is \<^verbatim>\<open>-one.e\<close>.
\<close>

fun integral_digits :: "nat \<Rightarrow> nat \<Rightarrow> nat \<Rightarrow> nat \<Rightarrow> nat \<Rightarrow> nat \<Rightarrow> nat \<Rightarrow> string \<Rightarrow> (string \<times> nat option) result" where
  "integral_digits s delta distance p2 0 pow10 p1 buf = Inr (buf, None)"
| "integral_digits s delta distance p2 (Suc n) pow10 p1 buf =
     (let d = p1 div pow10; r = p1 mod pow10 in
      rbind (put_digit d buf) (\<lambda>buf.
      let rest = wrap64 (wrap64 (r * 2 ^ s) + p2) in
      if rest \<le> delta then
        let ten_n = wrap64 (pow10 * 2 ^ s) in
        rbind (grisu2_round buf distance delta rest ten_n) (\<lambda>buf.
        Inr (buf, Some n))
      else integral_digits s delta distance p2 n (pow10 div 10) r buf))"

text \<open>
  The loop over the fractional part: the digits and how many it added. It stops because \<open>delta\<close>
  grows tenfold while \<open>p2\<close> stays below \<open>2 ^ s\<close>; with \<open>delta = 0\<close> it would not, and run over the buffer.
\<close>

function fractional_digits :: "nat \<Rightarrow> nat \<Rightarrow> nat \<Rightarrow> nat \<Rightarrow> nat \<Rightarrow> string \<Rightarrow> (string \<times> nat) result" where
  "fractional_digits s delta distance p2 m buf =
     (if \<not> (p2 \<le> (2 ^ 64 - 1) div 10 \<and> 0 < delta \<and> delta < p2) then Inl (undefined_behaviour ''assertion'')
      else
        let p2 = p2 * 10; d = p2 div 2 ^ s; r = p2 mod 2 ^ s in
        rbind (put_digit d buf) (\<lambda>buf.
        let delta' = wrap64 (delta * 10); distance' = wrap64 (distance * 10) in
        if r \<le> delta' then
          rbind (grisu2_round buf distance' delta' r (2 ^ s)) (\<lambda>buf. Inr (buf, m + 1))
        else fractional_digits s delta' distance' r (m + 1) buf))"
  by auto
termination
proof (relation "measure (\<lambda>(s, delta, distance, p2, m, buf). 2 ^ s - delta)", goal_cases)
  case 1
  show ?case by simp
next
  case (2 s delta distance p2 m buf q d r buf' delta' distance')
  then have "delta * 10 < 2 ^ 64" by simp
  then have "delta' = delta * 10" using 2 by (simp add: wrap64_def)
  moreover have "r < 2 ^ s" using 2 by simp
  moreover have "delta' < r" "0 < delta" using 2 by simp_all
  ultimately have "2 ^ s - delta' < 2 ^ s - delta" by linarith
  then show ?case by simp
qed

text \<open>The digits and the decimal exponent added to the one given.\<close>

definition grisu2_digit_gen :: "int \<Rightarrow> diyfp \<Rightarrow> diyfp \<Rightarrow> diyfp \<Rightarrow> (string \<times> int) result" where
  "grisu2_digit_gen decimal_exponent M_minus w M_plus =
     rbind (assertion (fp_e M_plus \<ge> kAlpha)) (\<lambda>_.
     rbind (assertion (fp_e M_plus \<le> kGamma)) (\<lambda>_.
     rbind (diyfp_sub M_plus M_minus) (\<lambda>diff.
     rbind (diyfp_sub M_plus w) (\<lambda>diff_w.
     let delta = fp_f diff; distance = fp_f diff_w; s = nat (- fp_e M_plus);
         p1 = fp_f M_plus div 2 ^ s mod 2 ^ 32; p2 = fp_f M_plus mod 2 ^ s;
         (k, pow10) = find_largest_pow10 p1
     in
     rbind (assertion (p1 > 0)) (\<lambda>_.
     rbind (integral_digits s delta distance p2 k pow10 p1 []) (\<lambda>(buf, stopped).
     case stopped of
       Some n \<Rightarrow> Inr (buf, decimal_exponent + int n)
     | None \<Rightarrow>
         rbind (assertion (p2 > delta)) (\<lambda>_.
         rbind (fractional_digits s delta distance p2 0 buf) (\<lambda>(buf, m).
         Inr (buf, decimal_exponent - int m)))))))))"

definition grisu2 :: "real \<Rightarrow> (string \<times> int) result" where
  "grisu2 val =
     rbind (compute_boundaries val) (\<lambda>w.
     let m_minus = bd_minus w; v = bd_w w; m_plus = bd_plus w in
     rbind (assertion (fp_e m_plus = fp_e m_minus)) (\<lambda>_.
     rbind (assertion (fp_e m_plus = fp_e v)) (\<lambda>_.
     rbind (get_cached_power_for_binary_exponent (fp_e m_plus)) (\<lambda>(cached_f, cached_e, cached_k).
     let c_minus_k = \<lparr>fp_f = cached_f, fp_e = cached_e\<rparr>;
         w = diyfp_mul v c_minus_k; w_minus = diyfp_mul m_minus c_minus_k; w_plus = diyfp_mul m_plus c_minus_k;
         M_minus = \<lparr>fp_f = wrap64 (fp_f w_minus + 1), fp_e = fp_e w_minus\<rparr>;
         M_plus = \<lparr>fp_f = to_size_t (int (fp_f w_plus) - 1), fp_e = fp_e w_plus\<rparr>
     in grisu2_digit_gen (- cached_k) M_minus w M_plus))))"

section \<open>Formatting\<close>

definition append_exponent :: "int \<Rightarrow> string result" where
  "append_exponent e =
     rbind (assertion (e > - 1000)) (\<lambda>_.
     rbind (assertion (e < 1000)) (\<lambda>_.
     let k = nat \<bar>e\<bar> in
     Inr ((if e < 0 then ''-'' else ''+'') @
       (if k < 10 then [CHR ''0'', digit_char k]
        else if k < 100 then [digit_char (k div 10), digit_char (k mod 10)]
        else [digit_char (k div 100), digit_char (k mod 100 div 10), digit_char (k mod 100 mod 10)]))))"

text \<open>The text that is left in the buffer when the digits have been moved and filled in.\<close>

definition format_buffer :: "string \<Rightarrow> int \<Rightarrow> int \<Rightarrow> int \<Rightarrow> string result" where
  "format_buffer digits decimal_exponent min_exp max_exp =
     rbind (assertion (min_exp < 0)) (\<lambda>_.
     rbind (assertion (max_exp > 0)) (\<lambda>_.
     let k = int (length digits); n = k + decimal_exponent in
     if k \<le> n \<and> n \<le> max_exp then Inr (digits @ replicate (nat (n - k)) (CHR ''0'') @ ''.0'')
     else if 0 < n \<and> n \<le> max_exp then Inr (take (nat n) digits @ ''.'' @ drop (nat n) digits)
     else if min_exp < n \<and> n \<le> 0 then Inr (''0.'' @ replicate (nat (- n)) (CHR ''0'') @ digits)
     else
       rbind (append_exponent (n - 1)) (\<lambda>exponent.
       Inr ((if k = 1 then digits else take 1 digits @ ''.'' @ drop 1 digits) @ ''e'' @ exponent))))"

definition to_chars :: "real \<Rightarrow> string result" where
  "to_chars val =
     (let sign = (if val < 0 then ''-'' else []); val = \<bar>val\<bar> in
      if val = 0 then Inr (sign @ ''0.0'')
      else
        rbind (grisu2 val) (\<lambda>(digits, decimal_exponent).
        rbind (assertion (length digits \<le> 17)) (\<lambda>_.
        rbind (format_buffer digits decimal_exponent (- 4) 15) (\<lambda>txt.
        Inr (sign @ txt)))))"

end
