(* ===== verification/Json.thy ===== *)
theory Json
  imports Dtoa
begin

text \<open>
  The JSON documents the metadata requests build and the serializer that writes them
  (\<^verbatim>\<open>nlohmann/json.hpp\<close>): the values, the UTF-8 decoder, the escaping of strings
  through a buffer of fixed size, the integer printer that writes two digits at a time, and
  the compact \<^verbatim>\<open>dump\<close>.
\<close>

unbundle bit_operations_syntax

named_theorems json_simps \<open>evaluation of the serializer\<close>

section \<open>Values\<close>

text \<open>
  \<^verbatim>\<open>value_t\<close>. An object is a \<^verbatim>\<open>std::map\<close>, here its entries in the order of their keys. A
  number is signed, unsigned or a \<^verbatim>\<open>double\<close>. The value \<^verbatim>\<open>discarded\<close>, which only the parser
  creates, is left out.
\<close>

datatype json =
    json_null
  | json_object "(string \<times> json) list"
  | json_array "json list"
  | json_string string
  | json_boolean bool
  | json_integer int
  | json_unsigned nat
  | json_float fp

text \<open>\<^verbatim>\<open>std::less<std::string>\<close>, which compares the bytes as unsigned values.\<close>

fun string_less :: "string \<Rightarrow> string \<Rightarrow> bool" where
  "string_less _ [] \<longleftrightarrow> False"
| "string_less [] (_ # _) \<longleftrightarrow> True"
| "string_less (a # as) (b # bs) \<longleftrightarrow>
     (if a = b then string_less as bs else (of_char a :: nat) < of_char b)"

fun map_assign :: "string \<Rightarrow> json \<Rightarrow> (string \<times> json) list \<Rightarrow> (string \<times> json) list" where
  "map_assign k v [] = [(k, v)]"
| "map_assign k v ((k', v') # kvs) =
     (if k = k' then (k, v) # kvs
      else if string_less k k' then (k, v) # (k', v') # kvs
      else (k', v') # map_assign k v kvs)"

text \<open>\<^verbatim>\<open>doc[key] = v\<close>: null becomes an object first; only an object has members.\<close>

fun json_assign :: "string \<Rightarrow> json \<Rightarrow> json \<Rightarrow> json result" where
  "json_assign k v json_null = Inr (json_object [(k, v)])"
| "json_assign k v (json_object kvs) = Inr (json_object (map_assign k v kvs))"
| "json_assign k v _ = Inl (std_exception
     ''[json.exception.type_error.305] cannot use operator[] with a string argument'')"

text \<open>\<^verbatim>\<open>doc[key].push_back(v)\<close> on a member that is absent or an array.\<close>

fun json_push_back :: "json \<Rightarrow> json \<Rightarrow> json result" where
  "json_push_back v json_null = Inr (json_array [v])"
| "json_push_back v (json_array vs) = Inr (json_array (vs @ [v]))"
| "json_push_back v _ = Inl (std_exception ''[json.exception.type_error.308] cannot use push_back()'')"

fun json_member :: "string \<Rightarrow> json \<Rightarrow> json option" where
  "json_member k (json_object kvs) = map_of kvs k"
| "json_member k _ = None"

section \<open>UTF-8\<close>

text \<open>The states of the decoder that the serializer tells apart.\<close>

abbreviation (input) "UTF8_ACCEPT \<equiv> (0 :: nat)"
abbreviation (input) "UTF8_REJECT \<equiv> (1 :: nat)"

text \<open>The classes of the 256 bytes, then for each of the nine states the state after each class.\<close>

definition utf8d :: "nat list" where
  "utf8d =
     replicate 128 0 @ replicate 16 1 @ replicate 16 9 @ replicate 32 7 @ [8, 8] @ replicate 30 2 @
     [10, 3, 3, 3, 3, 3, 3, 3, 3, 3, 3, 3, 3, 4, 3, 3] @
     [11, 6, 6, 6, 5, 8, 8, 8, 8, 8, 8, 8, 8, 8, 8, 8] @
     [0, 1, 2, 3, 5, 8, 7, 1, 1, 1, 4, 6, 1, 1, 1, 1] @
     [1, 1, 1, 1, 1, 1, 1, 1, 1, 1, 1, 1, 1, 1, 1, 1, 1, 0, 1, 1, 1, 1, 1, 0, 1, 0, 1, 1, 1, 1, 1, 1] @
     [1, 2, 1, 1, 1, 1, 1, 2, 1, 2, 1, 1, 1, 1, 1, 1, 1, 1, 1, 1, 1, 1, 1, 2, 1, 1, 1, 1, 1, 1, 1, 1] @
     [1, 2, 1, 1, 1, 1, 1, 1, 1, 2, 1, 1, 1, 1, 1, 1, 1, 1, 1, 1, 1, 1, 1, 3, 1, 3, 1, 1, 1, 1, 1, 1] @
     [1, 3, 1, 1, 1, 1, 1, 3, 1, 3, 1, 1, 1, 1, 1, 1, 1, 3, 1, 1, 1, 1, 1, 1, 1, 1, 1, 1, 1, 1, 1, 1]"

text \<open>
  \<^verbatim>\<open>decode\<close>: the new state and code point. The code point is a 32-bit value, so the shift drops
  the bits above.
\<close>

definition decode :: "nat \<Rightarrow> nat \<Rightarrow> nat \<Rightarrow> nat \<times> nat" where
  "decode state codep byte =
     (let type = utf8d ! byte;
          codep' = (if state \<noteq> UTF8_ACCEPT then (byte AND 0x3f) OR take_bit 32 (push_bit 6 codep)
                    else drop_bit type 0xff AND byte)
      in (utf8d ! (256 + state * 16 + type), codep'))"

section \<open>Escaping\<close>

datatype error_handler_t = strict | replace | ignore

text \<open>
  The state of \<^verbatim>\<open>dump_escaped\<close>. Of \<^verbatim>\<open>string_buffer\<close>, which has 512 bytes, the model keeps the
  bytes written so far, so \<^verbatim>\<open>bytes\<close> is its length; what has gone to the output is \<open>written\<close>.
\<close>

record escaping =
  codepoint :: nat
  utf8_state :: nat
  string_buffer :: string
  bytes_after_last_accept :: nat
  undumped_chars :: nat
  written :: string

definition put :: "string \<Rightarrow> escaping \<Rightarrow> escaping result" where
  "put cs st = (if length (string_buffer st) + length cs \<le> 512
     then Inr (st\<lparr>string_buffer := string_buffer st @ cs\<rparr>)
     else Inl (undefined_behaviour ''write outside string_buffer''))"

definition hex_digit :: "nat \<Rightarrow> char" where
  "hex_digit d = (if d < 10 then digit_char d else char_of (87 + d))"

definition hex4 :: "nat \<Rightarrow> string" where
  "hex4 n = [hex_digit (n div 4096 mod 16), hex_digit (n div 256 mod 16), hex_digit (n div 16 mod 16), hex_digit (n mod 16)]"

text \<open>\<^verbatim>\<open>snprintf\<close> into the buffer writes a terminating null byte after the text, which counts for the bound.\<close>

definition put_formatted :: "string \<Rightarrow> escaping \<Rightarrow> escaping result" where
  "put_formatted cs st = (if length (string_buffer st) + length cs + 1 \<le> 512
     then Inr (st\<lparr>string_buffer := string_buffer st @ cs\<rparr>)
     else Inl (undefined_behaviour ''write outside string_buffer''))"

definition backslash :: char where
  "backslash = CHR 0x5C"

definition dump_codepoint :: "bool \<Rightarrow> char \<Rightarrow> escaping \<Rightarrow> escaping result" where
  "dump_codepoint ensure_ascii c st =
     (let cp = codepoint st in
      if cp = 0x08 then put [backslash, CHR ''b''] st
      else if cp = 0x09 then put [backslash, CHR ''t''] st
      else if cp = 0x0A then put [backslash, CHR ''n''] st
      else if cp = 0x0C then put [backslash, CHR ''f''] st
      else if cp = 0x0D then put [backslash, CHR ''r''] st
      else if cp = 0x22 then put [backslash, CHR 0x22] st
      else if cp = 0x5C then put [backslash, backslash] st
      else if cp \<le> 0x1F \<or> ensure_ascii \<and> 0x7F \<le> cp then
        if cp \<le> 0xFFFF then put_formatted (backslash # CHR ''u'' # hex4 cp) st
        else put_formatted (backslash # CHR ''u'' # hex4 ((0xD7C0 + drop_bit 10 cp) mod 2 ^ 16) @
          backslash # CHR ''u'' # hex4 ((0xDC00 + (cp AND 0x3FF)) mod 2 ^ 16)) st
      else put [c] st)"

text \<open>The buffer is written out while thirteen bytes, the most one code point takes, are left.\<close>

definition write_full :: "escaping \<Rightarrow> escaping" where
  "write_full st = (if 512 - length (string_buffer st) < 13
     then st\<lparr>written := written st @ string_buffer st, string_buffer := []\<rparr> else st)"

definition hex2_upper :: "nat \<Rightarrow> string" where
  "hex2_upper n = (let digit = (\<lambda>d. if d < 10 then digit_char d else char_of (55 + d))
     in [digit (n div 16 mod 16), digit (n mod 16)])"

definition type_error_316 :: "string \<Rightarrow> failure" where
  "type_error_316 what = std_exception (''[json.exception.type_error.316] '' @ what)"

definition replacement :: "bool \<Rightarrow> string" where
  "replacement ensure_ascii = (if ensure_ascii then backslash # ''ufffd'' else [CHR 0xEF, CHR 0xBF, CHR 0xBD])"

text \<open>
  One byte: the state after it and the index of the next. A rejected byte that followed the
  start of a sequence is read again.
\<close>

definition escape_step :: "error_handler_t \<Rightarrow> bool \<Rightarrow> string \<Rightarrow> nat \<Rightarrow> escaping \<Rightarrow> (nat \<times> escaping) result" where
  "escape_step handler ensure_ascii s i st =
     (let byte = of_char (s ! i); (state', cp') = decode (utf8_state st) (codepoint st) byte;
          st = st\<lparr>codepoint := cp', utf8_state := state'\<rparr>
      in
      if state' = UTF8_ACCEPT then
        rbind (dump_codepoint ensure_ascii (s ! i) st) (\<lambda>st.
        let st = write_full st in
        Inr (i + 1, st\<lparr>bytes_after_last_accept := length (string_buffer st), undumped_chars := 0\<rparr>))
      else if state' = UTF8_REJECT then
        (case handler of
           strict \<Rightarrow> Inl (type_error_316 (''invalid UTF-8 byte at index '' @ to_string (int i) @ '': 0x'' @ hex2_upper byte))
         | _ \<Rightarrow>
             let next = (if undumped_chars st > 0 then i else i + 1);
                 st = st\<lparr>string_buffer := take (bytes_after_last_accept st) (string_buffer st)\<rparr>
             in
             rbind (if handler = replace then
                 rbind (put (replacement ensure_ascii) st) (\<lambda>st.
                 let st = write_full st in Inr (st\<lparr>bytes_after_last_accept := length (string_buffer st)\<rparr>))
               else Inr st) (\<lambda>st.
             Inr (next, st\<lparr>undumped_chars := 0, utf8_state := UTF8_ACCEPT\<rparr>)))
      else
        rbind (if \<not> ensure_ascii then put [s ! i] st else Inr st) (\<lambda>st.
        Inr (i + 1, st\<lparr>undumped_chars := undumped_chars st + 1\<rparr>)))"

lemma write_full_undumped [simp]: "undumped_chars (write_full st) = undumped_chars st"
  by (simp add: write_full_def)

text \<open>A step goes on to the next byte, or stays and leaves no pending bytes behind.\<close>

lemma escape_step_progress:
  assumes "escape_step handler ensure_ascii s i st = Inr (i', st')"
  shows "i' = i + 1 \<or> i' = i \<and> 0 < undumped_chars st \<and> undumped_chars st' = 0"
  using assms
  by (auto simp: escape_step_def Let_def split: prod.splits if_splits error_handler_t.splits)

function escape_loop :: "error_handler_t \<Rightarrow> bool \<Rightarrow> string \<Rightarrow> nat \<Rightarrow> escaping \<Rightarrow> escaping result" where
  "escape_loop handler ensure_ascii s i st =
     (if i < length s then
        rbind (escape_step handler ensure_ascii s i st) (\<lambda>next. escape_loop handler ensure_ascii s (fst next) (snd next))
      else Inr st)"
  by auto
termination
  by (relation "measure (\<lambda>(_, _, s, i, st). 2 * (length s - i) + (if undumped_chars st > 0 then 1 else 0))")
    (auto dest!: escape_step_progress)

definition dump_escaped :: "error_handler_t \<Rightarrow> bool \<Rightarrow> string \<Rightarrow> string result" where
  "dump_escaped handler ensure_ascii s =
     rbind (escape_loop handler ensure_ascii s 0 \<lparr>codepoint = 0, utf8_state = UTF8_ACCEPT, string_buffer = [],
       bytes_after_last_accept = 0, undumped_chars = 0, written = []\<rparr>) (\<lambda>st.
     if utf8_state st = UTF8_ACCEPT then Inr (written st @ string_buffer st)
     else case handler of
         strict \<Rightarrow> Inl (type_error_316 (''incomplete UTF-8 string; last byte: 0x'' @ hex2_upper (of_char (last s))))
       | ignore \<Rightarrow> Inr (written st @ take (bytes_after_last_accept st) (string_buffer st))
       | replace \<Rightarrow> Inr (written st @ take (bytes_after_last_accept st) (string_buffer st) @ replacement ensure_ascii))"

section \<open>Integers\<close>

fun count_digits :: "nat \<Rightarrow> nat" where
  "count_digits x =
     (if x < 10 then 1 else if x < 100 then 2 else if x < 1000 then 3 else if x < 10000 then 4
      else count_digits (x div 10000) + 4)"

definition digits_to_99 :: "(char \<times> char) list" where
  "digits_to_99 = map (\<lambda>i. (digit_char (i div 10), digit_char (i mod 10))) [0..<100]"

text \<open>\<^verbatim>\<open>number_buffer\<close> and the position in it that \<^verbatim>\<open>*(--buffer_ptr) = c\<close> moves down.\<close>

definition put_back :: "char \<Rightarrow> nat \<times> string \<Rightarrow> (nat \<times> string) result" where
  "put_back c pb = (case pb of (ptr, buf) \<Rightarrow>
     if 0 < ptr \<and> ptr \<le> length buf then Inr (ptr - 1, buf[ptr - 1 := c])
     else Inl (undefined_behaviour ''write outside number_buffer''))"

fun put_pairs :: "nat \<Rightarrow> nat \<times> string \<Rightarrow> (nat \<times> string) result" where
  "put_pairs abs_value pb =
     (if abs_value \<ge> 100 then
        rbind (put_back (snd (digits_to_99 ! (abs_value mod 100))) pb) (\<lambda>pb.
        rbind (put_back (fst (digits_to_99 ! (abs_value mod 100))) pb) (\<lambda>pb.
        put_pairs (abs_value div 100) pb))
      else if abs_value \<ge> 10 then
        rbind (put_back (snd (digits_to_99 ! abs_value)) pb) (put_back (fst (digits_to_99 ! abs_value)))
      else put_back (digit_char abs_value) pb)"

text \<open>
  The value is negative only in the instance for signed numbers. The assertion of the source is
  a guard: it aborts the program.
\<close>

definition dump_integer :: "int \<Rightarrow> string result" where
  "dump_integer x =
     (if x = 0 then Inr ''0''
      else
        let is_negative = x < 0;
            number_buffer = replicate 64 (CHR 0x00);
            buf = (if is_negative then number_buffer[0 := CHR ''-''] else number_buffer);
            abs_value = (if is_negative then wrap64 (to_size_t (- 1 - x) + 1) else to_size_t x);
            n_chars = (if is_negative then 1 + count_digits abs_value else count_digits abs_value)
        in
        rbind (guard (n_chars < 64 - 1) (undefined_behaviour ''assertion'')) (\<lambda>_.
        rbind (put_pairs abs_value (n_chars, buf)) (\<lambda>pb.
        Inr (take n_chars (snd pb)))))"

section \<open>The serializer\<close>

lemma rmap_cong [fundef_cong]: "xs = ys \<Longrightarrow> (\<And>x. x \<in> set ys \<Longrightarrow> f x = g x) \<Longrightarrow> rmap f xs = rmap g ys"
  by (induction ys arbitrary: xs) auto

text \<open>
  \<^verbatim>\<open>serializer::dump\<close> without indentation. The \<^verbatim>\<open>double\<close>s that are not finite are written as null.
\<close>

fun dump_float :: "fp \<Rightarrow> string result" where
  "dump_float (Fin x) = to_chars x"
| "dump_float _ = Inr ''null''"

fun join :: "string list \<Rightarrow> string" where
  "join [] = []"
| "join [x] = x"
| "join (x # y # zs) = x @ CHR '','' # join (y # zs)"

fun serialize :: "error_handler_t \<Rightarrow> bool \<Rightarrow> json \<Rightarrow> string result" where
  "serialize handler ensure_ascii (json_object kvs) =
     (if kvs = [] then Inr ''{}''
      else rbind (rmap (\<lambda>(k, v).
          rbind (dump_escaped handler ensure_ascii k) (\<lambda>key.
          rbind (serialize handler ensure_ascii v) (\<lambda>val.
          Inr (CHR 0x22 # key @ CHR 0x22 # CHR '':'' # val)))) kvs) (\<lambda>members.
        Inr (''{'' @ join members @ ''}'')))"
| "serialize handler ensure_ascii (json_array vs) =
     (if vs = [] then Inr ''[]''
      else rbind (rmap (serialize handler ensure_ascii) vs) (\<lambda>elements.
        Inr (''['' @ join elements @ '']'')))"
| "serialize handler ensure_ascii (json_string s) =
     rbind (dump_escaped handler ensure_ascii s) (\<lambda>t. Inr (CHR 0x22 # t @ [CHR 0x22]))"
| "serialize handler ensure_ascii (json_boolean b) = Inr (if b then ''true'' else ''false'')"
| "serialize handler ensure_ascii (json_integer i) = dump_integer i"
| "serialize handler ensure_ascii (json_unsigned n) = dump_integer (int n)"
| "serialize handler ensure_ascii (json_float x) = dump_float x"
| "serialize handler ensure_ascii json_null = Inr ''null''"

text \<open>\<^verbatim>\<open>basic_json::dump\<close> with its default arguments.\<close>

definition dump :: "json \<Rightarrow> string result" where
  "dump j = serialize strict False j"

section \<open>Lemmas on integers\<close>

declare nat_digits.simps [simp del] count_digits.simps [simp del] put_pairs.simps [simp del]

lemma nat_digits_split: "10 \<le> n \<Longrightarrow> nat_digits n = nat_digits (n div 10) @ [digit_char (n mod 10)]"
  by (subst nat_digits.simps) simp

lemma nat_digits_one: "n < 10 \<Longrightarrow> nat_digits n = [digit_char n]"
  by (subst nat_digits.simps) simp

lemma nat_digits_pair:
  assumes "100 \<le> n"
  shows "nat_digits n = nat_digits (n div 100) @ [digit_char (n mod 100 div 10), digit_char (n mod 100 mod 10)]"
proof -
  have "nat_digits (n div 10) = nat_digits (n div 10 div 10) @ [digit_char (n div 10 mod 10)]"
    using assms by (intro nat_digits_split) simp
  moreover have "n div 10 div 10 = n div 100" by (simp add: div_mult2_eq[symmetric])
  moreover have "n div 10 mod 10 = n mod 100 div 10" "n mod 10 = n mod 100 mod 10"
    by (simp_all add: mod_mult2_eq[of n 10 10, simplified])
  ultimately show ?thesis using assms nat_digits_split[of n] by simp
qed

lemma length_nat_digits_less: "n < 10 ^ k \<Longrightarrow> 0 < k \<Longrightarrow> length (nat_digits n) \<le> k"
proof (induction k arbitrary: n)
  case (Suc k)
  show ?case
  proof (cases "n < 10")
    case False
    then have "n div 10 < 10 ^ k" "0 < k" using Suc.prems by (auto simp: less_mult_imp_div_less intro: Nat.gr0I)
    then show ?thesis using Suc.IH[of "n div 10"] False by (simp add: nat_digits_split)
  qed (simp add: nat_digits_one)
qed simp

lemma count_digits_length: "count_digits x = length (nat_digits x)"
proof (induction x rule: count_digits.induct)
  case (1 x)
  have step: "length (nat_digits n) = Suc (length (nat_digits (n div 10)))" if "10 \<le> n" for n
    using that by (simp add: nat_digits_split)
  show ?case
  proof (cases "x < 10000")
    case True
    then show ?thesis by (simp add: count_digits.simps[of x] step nat_digits_one)
  next
    case False
    then have "length (nat_digits x) = 4 + length (nat_digits (x div 10 div 10 div 10 div 10))" by (simp add: step)
    then show ?thesis using 1 False by (simp add: count_digits.simps[of x] div_mult2_eq[symmetric])
  qed
qed

lemma put_back_ok:
  assumes "0 < ptr" and "ptr \<le> length buf"
  shows "put_back c (ptr, buf) = Inr (ptr - 1, take (ptr - 1) buf @ c # drop ptr buf)"
  using assms by (simp add: put_back_def upd_conv_take_nth_drop)

lemma put_pairs_ok:
  assumes "length (nat_digits v) \<le> ptr" and "ptr \<le> length buf"
  shows "put_pairs v (ptr, buf) =
    Inr (ptr - length (nat_digits v), take (ptr - length (nat_digits v)) buf @ nat_digits v @ drop ptr buf)"
  using assms
proof (induction v arbitrary: ptr buf rule: less_induct)
  case (less v)
  have pair: "put_back c (ptr, buf) = Inr (ptr - 1, take (ptr - 1) buf @ c # drop ptr buf)"
    "put_back d (ptr - 1, take (ptr - 1) buf @ c # drop ptr buf) = Inr (ptr - 2, take (ptr - 2) buf @ d # c # drop ptr buf)"
    "put_back d (ptr - Suc 0, take (ptr - Suc 0) buf @ c # drop ptr buf) = Inr (ptr - 2, take (ptr - 2) buf @ d # c # drop ptr buf)"
    if "2 \<le> ptr" for c d
    using that less.prems(2) by (simp_all add: put_back_ok numeral_2_eq_2)
  have tab: "digits_to_99 ! i = (digit_char (i div 10), digit_char (i mod 10))" if "i < 100" for i
    using that by (simp add: digits_to_99_def)
  consider "v < 10" | "10 \<le> v" "v < 100" | "100 \<le> v" by linarith
  then show ?case
  proof cases
    case 1
    then show ?thesis using less.prems by (simp add: put_pairs.simps[of v] nat_digits_one put_back_ok)
  next
    case 2
    then have "nat_digits v = [digit_char (v div 10), digit_char (v mod 10)]" by (simp add: nat_digits_split nat_digits_one)
    then show ?thesis using 2 less.prems by (simp add: put_pairs.simps[of v] tab pair numeral_2_eq_2[symmetric])
  next
    case 3
    note split = nat_digits_pair[OF 3]
    have "2 \<le> ptr" "v div 100 < v" using less.prems 3 split by simp_all
    then show ?thesis
      using less.IH[of "v div 100" "ptr - 2" "take (ptr - 2) buf @ digit_char (v mod 100 div 10) # digit_char (v mod 100 mod 10) # drop ptr buf"]
        less.prems 3 split by (simp add: put_pairs.simps[of v] tab pair numeral_2_eq_2)
  qed
qed

lemma digit_char_0: "digit_char 0 = CHR ''0''"
  by code_simp

lemma dump_integer_digits:
  assumes "- (2 ^ 63) \<le> x" and "x < 2 ^ 64"
  shows "dump_integer x = Inr (to_string x)"
proof -
  define v where "v = nat \<bar>x\<bar>"
  have small: "v < 2 ^ 64" using assms by (simp add: v_def)
  then have len: "length (nat_digits v) \<le> 20" by (intro length_nat_digits_less) simp_all
  have abs: "(if x < 0 then wrap64 (to_size_t (- 1 - x) + 1) else to_size_t x) = v"
    using assms by (auto simp: v_def to_size_t_nonneg wrap64_def nat_diff_distrib')
  have first: "take (Suc 0) ((replicate 64 (CHR 0x00))[0 := CHR ''-'']) = ''-''" by (simp add: take_Suc_conv_app_nth)
  show ?thesis
  proof (cases "x = 0")
    case False
    have "put_pairs v (1 + length (nat_digits v), (replicate 64 (CHR 0x00))[0 := CHR ''-'']) =
        Inr (1, take 1 ((replicate 64 (CHR 0x00))[0 := CHR ''-'']) @ nat_digits v @
          drop (1 + length (nat_digits v)) ((replicate 64 (CHR 0x00))[0 := CHR ''-'']))"
      using put_pairs_ok[of v "1 + length (nat_digits v)" "(replicate 64 (CHR 0x00))[0 := CHR ''-'']"] len by simp
    moreover have "put_pairs v (length (nat_digits v), replicate 64 (CHR 0x00)) =
        Inr (0, nat_digits v @ drop (length (nat_digits v)) (replicate 64 (CHR 0x00)))"
      using put_pairs_ok[of v "length (nat_digits v)" "replicate 64 (CHR 0x00)"] len by simp
    ultimately show ?thesis
      using False len unfolding dump_integer_def Let_def abs count_digits_length
      by (simp add: to_string_def v_def[symmetric] guard_def first)
  qed (simp add: dump_integer_def to_string_def nat_digits_one digit_char_0)
qed

section \<open>Lemmas on the decoder\<close>

text \<open>The classes as intervals of bytes, and the transitions between the states that occur.\<close>

definition byte_class :: "nat \<Rightarrow> nat" where
  "byte_class b =
     (if b < 0x80 then 0 else if b < 0x90 then 1 else if b < 0xA0 then 9 else if b < 0xC0 then 7
      else if b < 0xC2 then 8 else if b < 0xE0 then 2 else if b = 0xE0 then 10 else if b = 0xED then 4
      else if b < 0xF0 then 3 else if b = 0xF0 then 11 else if b < 0xF4 then 6 else if b = 0xF4 then 5 else 8)"

lemma utf8d_class_table: "take 256 utf8d = map byte_class [0..<256]"
  by code_simp

lemma utf8d_class: "b < 256 \<Longrightarrow> utf8d ! b = byte_class b"
  using arg_cong[OF utf8d_class_table, of "\<lambda>xs. xs ! b"] by simp

definition transition :: "nat \<Rightarrow> nat \<Rightarrow> nat" where
  "transition state cls =
     (if state = 0 then [0, 1, 2, 3, 5, 8, 7, 1, 1, 1, 4, 6] ! cls
      else if state = 2 \<and> cls \<in> {1, 7, 9} then 0
      else if state = 3 \<and> cls \<in> {1, 7, 9} then 2
      else if state = 4 \<and> cls = 7 then 2
      else if state = 5 \<and> cls \<in> {1, 9} then 2
      else if state = 6 \<and> cls \<in> {7, 9} then 3
      else if state = 7 \<and> cls \<in> {1, 7, 9} then 3
      else if state = 8 \<and> cls = 1 then 3
      else 1)"

lemma utf8d_transition_table:
  "list_all (\<lambda>state. take 12 (drop (256 + state * 16) utf8d) = map (transition state) [0..<12]) [0, 2, 3, 4, 5, 6, 7, 8]"
  by code_simp

lemma utf8d_transition:
  "state \<in> {0, 2, 3, 4, 5, 6, 7, 8} \<Longrightarrow> cls < 12 \<Longrightarrow> utf8d ! (256 + state * 16 + cls) = transition state cls"
proof -
  assume s: "state \<in> {0, 2, 3, 4, 5, 6, 7, 8}" and c: "cls < 12"
  have len: "length utf8d = 400" by (simp add: utf8d_def)
  have "take 12 (drop (256 + state * 16) utf8d) = map (transition state) [0..<12]"
    using utf8d_transition_table s by (auto simp: list_all_iff)
  from arg_cong[OF this, of "\<lambda>xs. xs ! cls"] show ?thesis using s c len by auto
qed

lemma or_high_bits: "a < 2 ^ n \<Longrightarrow> a OR c * 2 ^ n = a + c * 2 ^ n" for a c :: nat
proof (induction n arbitrary: a)
  case (Suc n)
  have "a OR c * 2 ^ Suc n = of_bool (odd a) + 2 * (a div 2 OR c * 2 ^ n)"
    by (subst or_nat_rec) (simp add: mult.left_commute)
  also have "a div 2 OR c * 2 ^ n = a div 2 + c * 2 ^ n" using Suc.prems by (intro Suc.IH) simp
  finally show ?case by (simp add: algebra_simps odd_iff_mod_2_eq_one flip: odd_two_times_div_two_succ) presburger
qed simp

lemma and_low_bits: "mask n AND b = b mod 2 ^ n" for b :: nat
  by (metis and.commute take_bit_eq_mask take_bit_eq_mod)

lemma byte_class_less: "byte_class b < 12"
  by (simp add: byte_class_def)

lemma decode_eq:
  assumes "state \<in> {0, 2, 3, 4, 5, 6, 7, 8}" and "b < 256" and "state \<noteq> 0 \<Longrightarrow> cp < 2 ^ 26"
  shows "decode state cp b = (transition state (byte_class b),
    if state = 0 then b mod 2 ^ (8 - byte_class b) else cp * 64 + b mod 64)"
proof -
  have "(b AND 0x3f) OR take_bit 32 (push_bit 6 cp) = cp * 64 + b mod 64" if "state \<noteq> 0"
  proof -
    have "take_bit 32 (push_bit 6 cp) = cp * 2 ^ 6"
      using assms(3)[OF that] by (simp add: push_bit_eq_mult take_bit_nat_eq_self)
    moreover have "b AND 0x3f = b mod 64" using and_low_bits[of 6 b] by (simp add: mask_eq_exp_minus_1 and.commute)
    ultimately show ?thesis using or_high_bits[of "b mod 64" 6 cp] by simp
  qed
  moreover have "drop_bit t 0xff AND b = b mod 2 ^ (8 - t)" for t
  proof -
    have "drop_bit t 0xff = (mask (8 - t) :: nat)"
      using drop_bit_mask_eq[of t 8, where 'a = nat] by (simp add: mask_eq_exp_minus_1)
    then show ?thesis by (simp only: and_low_bits)
  qed
  ultimately show ?thesis
    using assms by (simp add: decode_def Let_def utf8d_class utf8d_transition byte_class_less)
qed

text \<open>How many bytes a state waits for.\<close>

definition missing :: "nat \<Rightarrow> nat" where
  "missing state = (if state = 0 then 0 else if state = 2 then 1 else if state \<in> {3, 4, 5} then 2 else 3)"

lemma transition_missing:
  assumes "state \<in> {0, 2, 3, 4, 5, 6, 7, 8}" and "cls < 12" and "transition state cls \<noteq> 1"
  shows "transition state cls \<in> {0, 2, 3, 4, 5, 6, 7, 8}"
    and "state \<noteq> 0 \<Longrightarrow> missing state = Suc (missing (transition state cls))"
    and "state = 0 \<Longrightarrow> transition state cls \<noteq> 0 \<Longrightarrow> 2 \<le> cls"
    and "state = 0 \<Longrightarrow> transition state cls = 0 \<Longrightarrow> cls = 0"
proof -
  have "cls \<in> {0, 1, 2, 3, 4, 5, 6, 7, 8, 9, 10, 11}" using assms(2) by (simp, presburger)
  then show "transition state cls \<in> {0, 2, 3, 4, 5, 6, 7, 8}"
    "state = 0 \<Longrightarrow> transition state cls \<noteq> 0 \<Longrightarrow> 2 \<le> cls"
    "state = 0 \<Longrightarrow> transition state cls = 0 \<Longrightarrow> cls = 0"
    using assms(1,3) by (elim insertE emptyE; simp add: transition_def numeral_eq_Suc)+
  show "missing state = Suc (missing (transition state cls))" if "state \<noteq> 0"
    using assms(1,3) that by (auto simp: transition_def missing_def split: if_splits)
qed

section \<open>Lemmas on escaping\<close>

text \<open>
  What keeps the writes inside the buffer: at most the pending bytes of one sequence follow
  the last accepted byte, and thirteen bytes were free then.
\<close>

definition buffered :: "bool \<Rightarrow> escaping \<Rightarrow> bool" where
  "buffered ensure_ascii st \<longleftrightarrow>
     utf8_state st \<in> {0, 2, 3, 4, 5, 6, 7, 8} \<and>
     bytes_after_last_accept st \<le> 499 \<and>
     length (string_buffer st) \<le> bytes_after_last_accept st + (if ensure_ascii then 0 else undumped_chars st) \<and>
     undumped_chars st + missing (utf8_state st) \<le> 4 \<and>
     (utf8_state st = 0 \<longrightarrow> undumped_chars st = 0) \<and>
     (utf8_state st \<noteq> 0 \<longrightarrow> codepoint st < 64 ^ undumped_chars st)"

lemma write_full_fields [simp]:
  "utf8_state (write_full st) = utf8_state st" "codepoint (write_full st) = codepoint st"
  "written (write_full st) @ string_buffer (write_full st) = written st @ string_buffer st"
  by (simp_all add: write_full_def)

lemma write_full_room: "length (string_buffer (write_full st)) \<le> 499"
  unfolding write_full_def by simp linarith

lemma dump_codepoint_room:
  assumes "length (string_buffer st) \<le> 502" and "ensure_ascii \<Longrightarrow> length (string_buffer st) \<le> 499"
  shows "\<exists>t. dump_codepoint ensure_ascii c st = Inr (st\<lparr>string_buffer := string_buffer st @ t\<rparr>)"
  using assms by (auto simp: dump_codepoint_def put_def put_formatted_def hex4_def Let_def)

lemma escape_step_buffered:
  assumes inv: "buffered ensure_ascii st" and i: "i < length s"
  shows "case escape_step handler ensure_ascii s i st of
      Inr (i', st') \<Rightarrow> buffered ensure_ascii st'
    | Inl e \<Rightarrow> handler = strict \<and> (\<exists>m. e = type_error_316 m)"
proof -
  define b :: nat where "b = of_char (s ! i)"
  define state' where "state' = transition (utf8_state st) (byte_class b)"
  define cp' where "cp' = (if utf8_state st = 0 then b mod 2 ^ (8 - byte_class b) else codepoint st * 64 + b mod 64)"
  have b: "b < 256" by (simp add: b_def)
  have state: "utf8_state st \<in> {0, 2, 3, 4, 5, 6, 7, 8}" and len: "length (string_buffer st) \<le> bytes_after_last_accept st +
      (if ensure_ascii then 0 else undumped_chars st)" and room: "bytes_after_last_accept st \<le> 499"
    and pending: "undumped_chars st + missing (utf8_state st) \<le> 4" "utf8_state st = 0 \<Longrightarrow> undumped_chars st = 0"
    and cp: "utf8_state st \<noteq> 0 \<Longrightarrow> codepoint st < 64 ^ undumped_chars st"
    using inv by (auto simp: buffered_def)
  have undumped: "undumped_chars st \<le> 3" using pending state by (auto simp: missing_def split: if_splits)
  have "codepoint st < 2 ^ 26" if "utf8_state st \<noteq> 0"
    using cp[OF that] power_increasing[OF undumped, of "64 :: nat"] by simp
  then have dec: "decode (utf8_state st) (codepoint st) b = (state', cp')"
    using decode_eq[OF state b] by (simp add: state'_def cp'_def)
  note tr = transition_missing[OF state byte_class_less[of b], folded state'_def]
  let ?st = "st\<lparr>codepoint := cp', utf8_state := state'\<rparr>"
  consider "state' = 0" | "state' = 1" | "state' \<noteq> 0" "state' \<noteq> 1" by blast
  then show ?thesis
  proof cases
    case 1
    obtain t where t: "dump_codepoint ensure_ascii (s ! i) ?st = Inr (?st\<lparr>string_buffer := string_buffer ?st @ t\<rparr>)"
      using dump_codepoint_room[of ?st ensure_ascii "s ! i"] len room undumped by (auto split: if_splits)
    show ?thesis
      using write_full_room[of "?st\<lparr>string_buffer := string_buffer ?st @ t\<rparr>"] t dec 1
      by (simp add: escape_step_def Let_def b_def[symmetric] buffered_def missing_def)
  next
    case 2
    show ?thesis
      using dec 2 room write_full_room
      by (auto simp: escape_step_def Let_def b_def[symmetric] buffered_def missing_def put_def replacement_def
        split: error_handler_t.splits)
  next
    case 3
    have m: "undumped_chars st + 1 + missing state' \<le> 4"
      using tr(2) 3 pending by (cases "utf8_state st = 0") (auto simp: missing_def)
    have "cp' < 64 ^ (undumped_chars st + 1)"
    proof (cases "utf8_state st = 0")
      case True
      have "8 - byte_class b \<le> 6" using tr(3) 3 True by simp
      then have "(2 :: nat) ^ (8 - byte_class b) \<le> 2 ^ 6" by (rule power_increasing) simp
      then have "b mod 2 ^ (8 - byte_class b) < 64" by (intro less_le_trans[OF mod_less_divisor]) simp_all
      then show ?thesis using True pending by (simp add: cp'_def)
    next
      case False
      then show ?thesis using cp mod_less_divisor[of 64 b] by (simp add: cp'_def)
    qed
    then show ?thesis
      using dec 3 tr(1) m len room undumped
      by (auto simp: escape_step_def Let_def b_def[symmetric] buffered_def put_def)
  qed
qed

declare escape_loop.simps [simp del]

lemma escape_loop_buffered:
  assumes "buffered ensure_ascii st"
  shows "case escape_loop handler ensure_ascii s i st of
      Inr st' \<Rightarrow> buffered ensure_ascii st'
    | Inl e \<Rightarrow> handler = strict \<and> (\<exists>m. e = type_error_316 m)"
  using assms
proof (induction handler ensure_ascii s i st rule: escape_loop.induct)
  case (1 handler ensure_ascii s i st)
  show ?case
  proof (cases "i < length s")
    case True
    note step = escape_step_buffered[OF 1(2) True, of handler]
    show ?thesis
    proof (cases "escape_step handler ensure_ascii s i st")
      case (Inl e)
      then show ?thesis using step True by (simp add: escape_loop.simps[of _ _ s i])
    next
      case (Inr n)
      then have "buffered ensure_ascii (snd n)" using step by (simp split: prod.splits)
      then show ?thesis using 1(1)[OF True Inr] True Inr by (simp add: escape_loop.simps[of _ _ s i])
    qed
  qed (simp add: escape_loop.simps[of _ _ s i] 1(2))
qed

lemma buffered_initial: "buffered ensure_ascii \<lparr>codepoint = 0, utf8_state = 0, string_buffer = [],
    bytes_after_last_accept = 0, undumped_chars = 0, written = []\<rparr>"
  by (simp add: buffered_def missing_def)

section \<open>What strings are accepted, and how they are written\<close>

text \<open>The encoding of a Unicode scalar value.\<close>

definition scalar :: "nat \<Rightarrow> bool" where
  "scalar c \<longleftrightarrow> c < 0xD800 \<or> 0xE000 \<le> c \<and> c < 0x110000"

definition utf8_bytes :: "nat \<Rightarrow> nat list" where
  "utf8_bytes c =
     (if c < 0x80 then [c]
      else if c < 0x800 then [0xC0 + c div 64, 0x80 + c mod 64]
      else if c < 0x10000 then [0xE0 + c div 4096, 0x80 + c div 64 mod 64, 0x80 + c mod 64]
      else [0xF0 + c div 262144, 0x80 + c div 4096 mod 64, 0x80 + c div 64 mod 64, 0x80 + c mod 64])"

definition utf8 :: "nat \<Rightarrow> string" where
  "utf8 c = map char_of (utf8_bytes c)"

text \<open>The two-character escapes, and the six-character ones of the other control characters.\<close>

definition escape :: "nat \<Rightarrow> string option" where
  "escape c =
     (if c = 0x08 then Some [backslash, CHR ''b'']
      else if c = 0x09 then Some [backslash, CHR ''t'']
      else if c = 0x0A then Some [backslash, CHR ''n'']
      else if c = 0x0C then Some [backslash, CHR ''f'']
      else if c = 0x0D then Some [backslash, CHR ''r'']
      else if c = 0x22 then Some [backslash, CHR 0x22]
      else if c = 0x5C then Some [backslash, backslash]
      else if c \<le> 0x1F then Some (backslash # CHR ''u'' # hex4 c)
      else None)"

definition json_text :: "nat \<Rightarrow> string" where
  "json_text c = (case escape c of Some t \<Rightarrow> t | None \<Rightarrow> utf8 c)"

text \<open>The decoder and the escaping without the buffer.\<close>

fun escape_run :: "nat \<Rightarrow> nat \<Rightarrow> string \<Rightarrow> string option" where
  "escape_run state cp [] = (if state = 0 then Some [] else None)"
| "escape_run state cp (c # cs) =
     (let (state', cp') = decode state cp (of_char c) in
      if state' = 1 then None
      else map_option ((@) (if state' = 0 then (case escape cp' of Some t \<Rightarrow> t | None \<Rightarrow> [c]) else [c])) (escape_run state' cp' cs))"

lemma dump_codepoint_escape:
  assumes "length (string_buffer st) \<le> 502"
  shows "dump_codepoint False c st =
    Inr (st\<lparr>string_buffer := string_buffer st @ (case escape (codepoint st) of Some t \<Rightarrow> t | None \<Rightarrow> [c])\<rparr>)"
  using assms by (auto simp: dump_codepoint_def put_def put_formatted_def hex4_def Let_def escape_def)

lemma escape_loop_run:
  assumes "buffered False st" and "i \<le> length s"
  shows "case escape_run (utf8_state st) (codepoint st) (drop i s) of
      Some t \<Rightarrow> (\<exists>st'. escape_loop strict False s i st = Inr st' \<and> utf8_state st' = 0 \<and>
        written st' @ string_buffer st' = written st @ string_buffer st @ t)
    | None \<Rightarrow> (\<exists>e. escape_loop strict False s i st = Inl e) \<or>
        (\<exists>st'. escape_loop strict False s i st = Inr st' \<and> utf8_state st' \<noteq> 0)"
  using assms
proof (induction "length s - i" arbitrary: i st)
  case 0
  then show ?case by (simp add: escape_loop.simps[of _ _ s i])
next
  case (Suc n)
  then have i: "i < length s" by simp
  then have drop: "drop i s = s ! i # drop (Suc i) s" by (simp add: Cons_nth_drop_Suc)
  obtain state' cp' where dec: "decode (utf8_state st) (codepoint st) (of_char (s ! i)) = (state', cp')" by fastforce
  show ?case
  proof (cases "state' = 1")
    case True
    then have "\<exists>e. escape_loop strict False s i st = Inl e"
      using dec i by (simp add: escape_loop.simps[of _ _ s i] escape_step_def)
    then show ?thesis using dec True by (simp add: drop)
  next
    case False
    define t where "t = (if state' = 0 then (case escape cp' of Some t \<Rightarrow> t | None \<Rightarrow> [s ! i]) else [s ! i])"
    have len: "length (string_buffer st) \<le> 502"
      using Suc.prems(1) by (auto simp: buffered_def missing_def split: if_splits)
    obtain st1 where step: "escape_step strict False s i st = Inr (i + 1, st1)"
      and st1: "utf8_state st1 = state'" "codepoint st1 = cp'" "written st1 @ string_buffer st1 = written st @ string_buffer st @ t"
      using False dec len by (cases "state' = 0") (simp_all add: escape_step_def Let_def dump_codepoint_escape put_def t_def)
    have "buffered False st1" using escape_step_buffered[OF Suc.prems(1) i, of strict] step by simp
    then have IH: "case escape_run state' cp' (drop (Suc i) s) of
        Some u \<Rightarrow> (\<exists>st'. escape_loop strict False s (Suc i) st1 = Inr st' \<and> utf8_state st' = 0 \<and>
          written st' @ string_buffer st' = written st1 @ string_buffer st1 @ u)
      | None \<Rightarrow> (\<exists>e. escape_loop strict False s (Suc i) st1 = Inl e) \<or>
          (\<exists>st'. escape_loop strict False s (Suc i) st1 = Inr st' \<and> utf8_state st' \<noteq> 0)"
      using Suc.hyps(1)[of "Suc i" st1] Suc.hyps(2) i st1 by simp
    have "escape_loop strict False s i st = escape_loop strict False s (Suc i) st1"
      using i step by (simp add: escape_loop.simps[of _ _ s i])
    moreover have "escape_run (utf8_state st) (codepoint st) (drop i s) = map_option ((@) t) (escape_run state' cp' (drop (Suc i) s))"
      using False dec by (simp add: drop t_def)
    ultimately show ?thesis
      using IH st1(3) by (cases "escape_run state' cp' (drop (Suc i) s)") (auto simp flip: append_assoc)
  qed
qed

lemma dump_escaped_run:
  "(case dump_escaped strict False s of Inr t \<Rightarrow> Some t | Inl _ \<Rightarrow> None) = escape_run 0 0 s"
  using escape_loop_run[OF buffered_initial, of 0 s]
  by (cases "escape_run 0 0 s") (auto simp: dump_escaped_def)

text \<open>The code points that complete a sequence, as the decoder holds them before its last bytes.\<close>

fun continuation :: "nat \<Rightarrow> nat \<Rightarrow> nat list" where
  "continuation 0 v = []"
| "continuation (Suc k) v = (0x80 + v div 64 ^ k mod 64) # continuation k v"

definition next_range :: "nat \<Rightarrow> nat set" where
  "next_range state = (if state = 4 then {32..<64} else if state = 5 then {0..<32} else if state = 6 then {16..<64}
     else if state = 8 then {0..<16} else {0..<64})"

definition awaits :: "nat \<Rightarrow> nat \<Rightarrow> nat list \<Rightarrow> bool" where
  "awaits state cp bs \<longleftrightarrow> state \<noteq> 0 \<and> (\<forall>v < 64 ^ missing state. v div 64 ^ (missing state - 1) \<in> next_range state \<longrightarrow>
     (let c = cp * 64 ^ missing state + v in 0x80 \<le> c \<and> scalar c \<and> utf8_bytes c = bs @ continuation (missing state) v))"

lemma continuation_mod: "m \<le> n \<Longrightarrow> continuation m (x * 64 ^ n + v) = continuation m v"
proof (induction m)
  case (Suc m)
  then obtain k where n: "n = Suc (m + k)" using less_imp_Suc_add[of m n] by auto
  have "(x * 64 ^ n + v) div 64 ^ m = x * 64 ^ k * 64 + v div 64 ^ m"
    by (simp add: n power_add mult.assoc mult.left_commute[of _ "64 ^ m"])
  then show ?case using Suc by simp
qed simp

lemma byte_class_continuation:
  "byte_class b = Suc 0 \<longleftrightarrow> 0x80 \<le> b \<and> b < 0x90" "byte_class b = 9 \<longleftrightarrow> 0x90 \<le> b \<and> b < 0xA0"
  "byte_class b = 7 \<longleftrightarrow> 0xA0 \<le> b \<and> b < 0xC0"
  by (auto simp: byte_class_def)

lemma low_six: "0x80 \<le> b \<Longrightarrow> b < 0xC0 \<Longrightarrow> b mod 64 = b - 0x80" for b :: nat
  using mod_mult_self1[of "b - 0x80" 2 64] by simp

lemma awaits_step:
  assumes state: "state \<in> {2, 3, 4, 5, 6, 7, 8}" and "awaits state cp bs" and b: "b < 256"
    and t: "transition state (byte_class b) \<noteq> 1"
  shows "if transition state (byte_class b) = 0
    then let c = cp * 64 + b mod 64 in 0x80 \<le> c \<and> scalar c \<and> utf8_bytes c = bs @ [b]
    else awaits (transition state (byte_class b)) (cp * 64 + b mod 64) (bs @ [b])"
proof -
  let ?t = "transition state (byte_class b)"
  have range: "0x80 \<le> b" "b < 0xC0" "b mod 64 \<in> next_range state"
  proof -
    have "byte_class b \<in> (if state = 4 then {7} else if state = 5 then {1, 9} else if state = 6 then {7, 9}
        else if state = 8 then {1} else {1, 7, 9})"
      using state t by (elim insertE emptyE) (simp_all add: transition_def split: if_splits)
    then have "b \<in> (if state = 4 then {0xA0..<0xC0} else if state = 5 then {0x80..<0xA0} else if state = 6 then {0x90..<0xC0}
        else if state = 8 then {0x80..<0x90} else {0x80..<0xC0})"
      by (simp add: byte_class_continuation split: if_splits) linarith+
    note in_range = this
    show "0x80 \<le> b" "b < 0xC0" using in_range by (simp_all split: if_splits)
    then show "b mod 64 \<in> next_range state" using in_range by (auto simp: next_range_def low_six split: if_splits)
  qed
  have b': "0x80 + b mod 64 = b" using range(1,2) by (simp add: low_six)
  have m: "missing state = Suc (missing ?t)" using transition_missing(2)[OF _ byte_class_less t] state by auto
  define n where "n = missing ?t"
  note m = m[folded n_def]
  have main: "0x80 \<le> c \<and> scalar c \<and> utf8_bytes c = (bs @ [b]) @ continuation n v"
    if v: "v < 64 ^ n" and c: "c = (cp * 64 + b mod 64) * 64 ^ n + v" for v c
  proof -
    define w where "w = b mod 64 * 64 ^ n + v"
    have div: "w div 64 ^ n = b mod 64" using v by (simp add: w_def)
    have "w < 64 ^ missing state"
    proof -
      have "b mod 64 * 64 ^ n \<le> 63 * 64 ^ n" by (intro mult_right_mono) (simp_all add: less_Suc_eq_le[symmetric])
      then show ?thesis unfolding w_def m power_Suc using v by linarith
    qed
    moreover have "w div 64 ^ (missing state - 1) \<in> next_range state" using range(3) by (simp add: m div)
    moreover have "continuation (missing state) w = b # continuation n v"
      using continuation_mod[of n n "b mod 64" v] b' div by (simp add: m) (simp add: w_def)
    moreover have "cp * 64 ^ missing state + w = c" unfolding c w_def m by (simp add: distrib_right)
    ultimately show ?thesis using assms(2) unfolding awaits_def Let_def by (metis append_Cons append_Nil append_assoc)
  qed
  show ?thesis
  proof (cases "?t = 0")
    case True
    then have "n = 0" by (simp add: n_def missing_def)
    then show ?thesis using main[of 0 "cp * 64 + b mod 64"] True by (simp add: Let_def)
  next
    case False
    then show ?thesis using main unfolding awaits_def n_def Let_def by simp
  qed
qed

lemma utf8_two:
  assumes "2 \<le> d" and "d < 32" and "v < 64"
  shows "0x80 \<le> d * 64 + v \<and> scalar (d * 64 + v) \<and> utf8_bytes (d * 64 + v) = [0xC0 + d, 0x80 + v mod 64]"
proof -
  have "0x80 \<le> d * 64 + v" "d * 64 + v < 0x800" using assms by linarith+
  moreover have "(d * 64 + v) div 64 = d" "(d * 64 + v) mod 64 = v mod 64" using assms by simp_all
  ultimately show ?thesis by (simp add: scalar_def utf8_bytes_def)
qed

lemma utf8_three:
  assumes "d < 16" and "v < 4096" and "d = 0 \<Longrightarrow> 2048 \<le> v" and "d = 13 \<Longrightarrow> v < 2048"
  shows "0x80 \<le> d * 4096 + v \<and> scalar (d * 4096 + v) \<and>
    utf8_bytes (d * 4096 + v) = [0xE0 + d, 0x80 + v div 64 mod 64, 0x80 + v mod 64]"
proof -
  have "0x800 \<le> d * 4096 + v" "d * 4096 + v < 0x10000" using assms by (cases "d = 0"; linarith)+
  moreover have "d * 4096 + v < 0xD800 \<or> 0xE000 \<le> d * 4096 + v"
  proof -
    consider "d \<le> 12" | "d = 13" | "14 \<le> d" by linarith
    then show ?thesis using assms(2,4) by cases linarith+
  qed
  moreover have "(d * 4096 + v) div 4096 = d" using assms by simp
  moreover have "d * 4096 + v = d * 64 * 64 + v" by simp
  then have "(d * 4096 + v) div 64 = d * 64 + v div 64" "(d * 4096 + v) mod 64 = v mod 64"
    by (simp_all only: div_mult_self3 mod_mult_self3)
  ultimately show ?thesis by (simp add: scalar_def utf8_bytes_def)
qed

lemma utf8_four:
  assumes "d < 5" and "v < 262144" and "d = 0 \<Longrightarrow> 65536 \<le> v" and "d = 4 \<Longrightarrow> v < 65536"
  shows "0x80 \<le> d * 262144 + v \<and> scalar (d * 262144 + v) \<and>
    utf8_bytes (d * 262144 + v) = [0xF0 + d, 0x80 + v div 4096 mod 64, 0x80 + v div 64 mod 64, 0x80 + v mod 64]"
proof -
  have "0x10000 \<le> d * 262144 + v" using assms by (cases "d = 0"; linarith)
  moreover have "d * 262144 + v < 0x110000" using assms by (cases "d = 4"; linarith)
  moreover have "(d * 262144 + v) div 262144 = d" using assms by simp
  moreover have "(d * 262144 + v) div 4096 = d * 64 + v div 4096"
    using div_mult_self3[of 4096 "d * 64" v] by simp
  moreover have "(d * 262144 + v) div 64 = d * 4096 + v div 64" "(d * 262144 + v) mod 64 = v mod 64"
    using div_mult_self3[of 64 "d * 4096" v] mod_mult_self3[of "d * 4096" 64 v] by (simp_all add: mult.commute)
  moreover have "(d * 4096 + v div 64) mod 64 = v div 64 mod 64"
    using mod_mult_self3[of "d * 64" 64 "v div 64"] by (simp add: mult.commute)
  ultimately show ?thesis by (simp add: scalar_def utf8_bytes_def)
qed

text \<open>The first bytes of sequences of two, three and four bytes.\<close>

lemma lead_two:
  assumes "2 \<le> d" and "d < 32"
  shows "transition 0 (byte_class (0xC0 + d)) = 2" and "(0xC0 + d) mod 2 ^ (8 - byte_class (0xC0 + d)) = d"
proof -
  have cls: "byte_class (0xC0 + d) = 2" using assms by (simp add: byte_class_def)
  have "(0xC0 + d) mod 64 = d" using assms(2) by (simp add: mod_add_left_eq[of 192 64 d, symmetric])
  then show "transition 0 (byte_class (0xC0 + d)) = 2" "(0xC0 + d) mod 2 ^ (8 - byte_class (0xC0 + d)) = d"
    by (simp_all add: cls transition_def)
qed

lemma lead_three:
  assumes "d < 16"
  shows "transition 0 (byte_class (0xE0 + d)) = (if d = 0 then 4 else if d = 13 then 5 else 3)"
    and "(0xE0 + d) mod 2 ^ (8 - byte_class (0xE0 + d)) = d"
proof -
  have cls: "byte_class (0xE0 + d) = (if d = 0 then 10 else if d = 13 then 4 else 3)" using assms by (simp add: byte_class_def)
  have "(0xE0 + d) mod 32 = d" using assms by (simp add: mod_add_left_eq[of 224 32 d, symmetric])
  then show "transition 0 (byte_class (0xE0 + d)) = (if d = 0 then 4 else if d = 13 then 5 else 3)"
    "(0xE0 + d) mod 2 ^ (8 - byte_class (0xE0 + d)) = d"
    by (simp_all add: cls transition_def)
qed

lemma lead_four:
  assumes "d < 5"
  shows "transition 0 (byte_class (0xF0 + d)) = (if d = 0 then 6 else if d = 4 then 8 else 7)"
    and "(0xF0 + d) mod 2 ^ (8 - byte_class (0xF0 + d)) = d"
proof -
  have cls: "byte_class (0xF0 + d) = (if d = 0 then 11 else if d = 4 then 5 else 6)" using assms by (simp add: byte_class_def)
  have "d \<noteq> 4 \<Longrightarrow> (0xF0 + d) mod 4 = d" using assms by (simp add: mod_add_left_eq[of 240 4 d, symmetric])
  then show "transition 0 (byte_class (0xF0 + d)) = (if d = 0 then 6 else if d = 4 then 8 else 7)"
    "(0xF0 + d) mod 2 ^ (8 - byte_class (0xF0 + d)) = d"
    by (simp_all add: cls transition_def)
qed

lemma continuation_simps:
  "continuation (Suc 0) v = [0x80 + v mod 64]" "continuation (Suc (Suc 0)) v = [0x80 + v div 64 mod 64, 0x80 + v mod 64]"
  "continuation (Suc (Suc (Suc 0))) v = [0x80 + v div 4096 mod 64, 0x80 + v div 64 mod 64, 0x80 + v mod 64]"
  by simp_all

lemma awaits_lead:
  assumes b: "b < 256" and t: "transition 0 (byte_class b) \<notin> {0, 1}"
  shows "awaits (transition 0 (byte_class b)) (b mod 2 ^ (8 - byte_class b)) [b]"
proof -
  have "byte_class b \<notin> {0, 1, 7, 8, 9}" using t by (intro notI; elim insertE emptyE; simp add: transition_def)
  then have "0xC2 \<le> b" "b < 0xF5" using b by (simp_all add: byte_class_def split: if_splits)
  then consider d where "2 \<le> d" "d < 32" "b = 0xC0 + d" | d where "d < 16" "b = 0xE0 + d" | d where "d < 5" "b = 0xF0 + d"
    using that(1)[of "b - 0xC0"] that(2)[of "b - 0xE0"] that(3)[of "b - 0xF0"] by (cases "b < 0xE0"; cases "b < 0xF0"; simp)
  then show ?thesis
  proof cases
    case 1
    have "awaits 2 d [b]"
      unfolding awaits_def using utf8_two[OF 1(1,2)] 1(3) by (simp add: missing_def continuation_simps Let_def)
    then show ?thesis using lead_two[OF 1(1,2)] by (simp add: 1(3))
  next
    case 2
    have "awaits (if d = 0 then 4 else if d = 13 then 5 else 3) d [b]"
      unfolding awaits_def using utf8_three[OF 2(1)] 2
      by (auto simp: missing_def continuation_simps Let_def next_range_def numeral_2_eq_2)
    then show ?thesis using lead_three[OF 2(1)] by (simp only: 2(2))
  next
    case 3
    have "awaits (if d = 0 then 6 else if d = 4 then 8 else 7) d [b]"
      unfolding awaits_def using utf8_four[OF 3(1)] 3
      by (auto simp: missing_def continuation_simps Let_def next_range_def numeral_3_eq_3)
    then show ?thesis using lead_four[OF 3(1)] by (simp only: 3(2))
  qed
qed

lemma awaits_bound:
  assumes "state \<in> {2, 3, 4, 5, 6, 7, 8}" and "awaits state cp bs"
  shows "cp < 2 ^ 26"
proof -
  define v :: nat where "v = (if state = 4 then 32 else if state = 6 then 16 else 0) * 64 ^ (missing state - 1)"
  have "v < 64 ^ missing state" "v div 64 ^ (missing state - 1) \<in> next_range state"
    using assms(1) by (auto simp: v_def missing_def next_range_def)
  then have "cp * 64 ^ missing state + v < 0x110000"
    using assms(2) by (auto simp: awaits_def Let_def scalar_def)
  then have "cp * 64 ^ missing state < 0x110000" by linarith
  moreover have "cp * 1 \<le> cp * 64 ^ missing state" by (intro mult_le_mono2) simp
  ultimately have "cp < 0x110000" by linarith
  then show ?thesis by simp
qed

lemma escape_high: "0x80 \<le> c \<Longrightarrow> escape c = None"
  by (simp add: escape_def)

lemma escape_run_start: "escape_run 0 cp s = escape_run 0 0 s"
  by (cases s) (simp_all add: decode_def)

lemma escape_run_sound:
  assumes "escape_run state cp s = Some t"
    and "if state = 0 then bs = [] else state \<in> {2, 3, 4, 5, 6, 7, 8} \<and> awaits state cp bs"
  shows "\<exists>cs. list_all scalar cs \<and> map char_of bs @ s = concat (map utf8 cs) \<and> map char_of bs @ t = concat (map json_text cs)"
  using assms
proof (induction s arbitrary: state cp bs t)
  case Nil
  then show ?case by (intro exI[of _ "[]"]) (auto split: if_splits)
next
  case (Cons c s)
  define b :: nat where "b = of_char c"
  define state' where "state' = transition state (byte_class b)"
  define cp' where "cp' = (if state = 0 then b mod 2 ^ (8 - byte_class b) else cp * 64 + b mod 64)"
  have b: "b < 256" "char_of b = c" by (simp_all add: b_def)
  have state: "state \<in> {0, 2, 3, 4, 5, 6, 7, 8}" using Cons.prems(2) by (auto split: if_splits)
  have "cp < 2 ^ 26" if "state \<noteq> 0" using that awaits_bound[of state cp bs] Cons.prems(2) by simp
  then have "decode state cp b = (state', cp')"
    unfolding state'_def cp'_def by (rule decode_eq[OF state b(1)])
  then have run: "state' \<noteq> 1" "\<exists>u. escape_run state' cp' s = Some u \<and>
      t = (if state' = 0 then (case escape cp' of Some t \<Rightarrow> t | None \<Rightarrow> [c]) else [c]) @ u"
    using Cons.prems(1) by (auto simp: b_def[symmetric] split: if_splits)
  then obtain u where u: "escape_run state' cp' s = Some u"
    "t = (if state' = 0 then (case escape cp' of Some t \<Rightarrow> t | None \<Rightarrow> [c]) else [c]) @ u" by blast
  have state'_in: "state' \<in> {0, 2, 3, 4, 5, 6, 7, 8}"
    using transition_missing(1)[OF state byte_class_less[of b], folded state'_def] run(1) by blast
  show ?case
  proof (cases "state' = 0")
    case True
    have c: "scalar cp' \<and> utf8_bytes cp' = bs @ [b] \<and> (bs \<noteq> [] \<longrightarrow> 0x80 \<le> cp')"
    proof (cases "state = 0")
      case zero: True
      then have "byte_class b = 0" using transition_missing(4)[OF state byte_class_less[of b], folded state'_def] True by simp
      then have "b < 0x80" by (simp add: byte_class_def split: if_splits)
      then show ?thesis using zero Cons.prems(2) b by (simp add: cp'_def byte_class_def scalar_def utf8_bytes_def)
    next
      case False
      then show ?thesis
        using awaits_step[of state cp bs b] Cons.prems(2) b True by (auto simp: state'_def cp'_def Let_def)
    qed
    obtain cs where cs: "list_all scalar cs" "s = concat (map utf8 cs)" "u = concat (map json_text cs)"
      using Cons.IH[OF u(1), of "[]"] True by auto
    have target: "map char_of bs @ (case escape cp' of Some t \<Rightarrow> t | None \<Rightarrow> [c]) = json_text cp'"
      using c b(2) by (cases "bs = []") (auto simp: json_text_def utf8_def escape_high split: option.splits)
    have source: "map char_of bs @ [c] = utf8 cp'" using c b(2) by (simp add: utf8_def)
    have "map char_of bs @ c # s = utf8 cp' @ s" by (simp flip: source)
    moreover have "map char_of bs @ t = json_text cp' @ u" using True by (simp add: u(2) flip: target)
    ultimately show ?thesis using c cs by (intro exI[of _ "cp' # cs"]) simp
  next
    case False
    have "awaits state' cp' (bs @ [b])"
    proof (cases "state = 0")
      case True
      then show ?thesis
        using awaits_lead[OF b(1)] Cons.prems(2) False run(1) by (simp add: state'_def cp'_def)
    next
      case nz: False
      then show ?thesis
        using awaits_step[of state cp bs b] Cons.prems(2) b run(1) False by (auto simp: state'_def cp'_def Let_def split: if_splits)
    qed
    then show ?thesis
      using Cons.IH[OF u(1), of "bs @ [b]"] False state'_in u(2) b(2) by auto
  qed
qed

lemma transition_continuation:
  assumes "state \<in> {2, 3, 4, 5, 6, 7, 8}" and "x \<in> next_range state"
  shows "transition state (byte_class (0x80 + x)) \<noteq> 1"
proof -
  have "x < 64" using assms(2) by (auto simp: next_range_def split: if_splits)
  then have "byte_class (0x80 + x) = (if x < 16 then 1 else if x < 32 then 9 else 7)" by (simp add: byte_class_def)
  then show ?thesis using assms by (elim insertE emptyE; simp add: next_range_def transition_def)
qed

lemma transition_later:
  assumes "state \<in> {2, 3, 4, 5, 6, 7, 8}" and "transition state cls \<noteq> 1"
  shows "transition state cls \<in> {0, 2, 3}"
  using assms by (elim insertE emptyE) (simp_all add: transition_def split: if_splits)

text \<open>The last bytes of a sequence are copied, whatever comes after.\<close>

lemma escape_run_continuation:
  assumes "state \<in> {2, 3, 4, 5, 6, 7, 8}" and "v < 64 ^ missing state" and "v div 64 ^ (missing state - 1) \<in> next_range state"
    and "c = cp * 64 ^ missing state + v" and "0x80 \<le> c" and "c < 0x110000"
  shows "escape_run state cp (map char_of (continuation (missing state) v) @ s) =
    map_option ((@) (map char_of (continuation (missing state) v))) (escape_run 0 c s)"
  using assms
proof (induction "missing state" arbitrary: state cp v)
  case 0
  then show ?case by (auto simp: missing_def split: if_splits)
next
  case (Suc n)
  note m = Suc.hyps(2)[symmetric]
  define x where "x = v div 64 ^ n"
  define t where "t = transition state (byte_class (0x80 + x))"
  have x: "x \<in> next_range state" using Suc.prems(3) by (simp add: x_def m)
  have x64: "x < 64" using Suc.prems(2) unfolding x_def m by (intro less_mult_imp_div_less) simp
  have t: "t \<noteq> 1" unfolding t_def by (rule transition_continuation[OF Suc.prems(1) x])
  have "cp * 1 \<le> cp * 64 ^ missing state" by (intro mult_le_mono2) simp
  then have "cp < 0x110000" using Suc.prems(4,6) by linarith
  then have cp: "cp < 2 ^ 26" by simp
  have state: "state \<in> {0, 2, 3, 4, 5, 6, 7, 8}" "state \<noteq> 0" using Suc.prems(1) by auto
  have b: "0x80 + x < 256" "(0x80 + x) mod 64 = x" using x64 by (simp_all add: mod_add_left_eq[of 128 64 x, symmetric])
  have dec: "decode state cp (0x80 + x) = (t, cp * 64 + x)"
    using decode_eq[OF state(1) b(1) cp] b(2) state(2) by (simp add: t_def)
  have mt: "missing t = n" "t \<in> {0, 2, 3, 4, 5, 6, 7, 8}"
    using transition_missing(1,2)[OF state(1) byte_class_less t[unfolded t_def]] state(2) by (simp_all add: t_def m)
  have cont: "continuation (missing state) v = (0x80 + x) # continuation n v" using x64 by (simp add: x_def m)
  have run: "escape_run state cp (map char_of (continuation (missing state) v) @ s) =
      map_option ((@) (if t = 0 then (case escape (cp * 64 + x) of Some u \<Rightarrow> u | None \<Rightarrow> [char_of (0x80 + x)]) else [char_of (0x80 + x)]))
        (escape_run t (cp * 64 + x) (map char_of (continuation n v) @ s))"
    using b(1) dec t by (simp add: cont)
  show ?case
  proof (cases "n = 0")
    case True
    have "t = 0" using mt True by (auto simp: missing_def split: if_splits)
    moreover have "c = cp * 64 + x" using Suc.prems(4) True by (simp add: m x_def)
    ultimately show ?thesis using Suc.prems(5) unfolding run by (simp add: cont True escape_high)
  next
    case False
    define w where "w = v mod 64 ^ n"
    have v: "v = x * 64 ^ n + w" by (simp only: x_def w_def div_mult_mod_eq)
    have t0: "t \<noteq> 0" using mt(1) False by (auto simp: missing_def split: if_splits)
    have t': "next_range t = {0..<64}"
      using transition_later[OF Suc.prems(1) t[unfolded t_def]] by (auto simp: next_range_def t_def)
    have w: "w < 64 ^ n" by (simp add: w_def)
    moreover have "(64 :: nat) ^ n = 64 * 64 ^ (n - 1)" using False by (cases n) simp_all
    ultimately have "w div 64 ^ (n - 1) < 64" by (intro less_mult_imp_div_less) simp
    note w = w this
    have "escape_run t (cp * 64 + x) (map char_of (continuation n w) @ s) = map_option ((@) (map char_of (continuation n w))) (escape_run 0 c s)"
      using Suc.hyps(1)[of t w "cp * 64 + x"] mt t0 t' w Suc.prems(4-6) by (simp add: v m distrib_right)
    moreover have "continuation n v = continuation n w" unfolding v by (rule continuation_mod) simp
    ultimately show ?thesis unfolding run using t0 by (cases "escape_run 0 c s") (simp_all add: cont)
  qed
qed

lemma escape_run_scalar:
  assumes "scalar c"
  shows "escape_run 0 0 (utf8 c @ s) = map_option ((@) (json_text c)) (escape_run 0 0 s)"
proof (cases "c < 0x80")
  case True
  have "decode 0 0 c = (0, c)"
    using decode_eq[of 0 c 0] True by (simp add: byte_class_def transition_def)
  then show ?thesis
    using True by (simp add: utf8_def utf8_bytes_def json_text_def escape_run_start[of c] split: option.splits)
next
  case False
  have c: "0x80 \<le> c" "c < 0x110000" using False assms by (auto simp: scalar_def)
  obtain b state v where lead: "utf8_bytes c = b # continuation (missing state) v" "b < 256"
    and state: "state \<in> {2, 3, 4, 5, 6, 7, 8}" "transition 0 (byte_class b) = state"
    and v: "v < 64 ^ missing state" "v div 64 ^ (missing state - 1) \<in> next_range state"
      "c = b mod 2 ^ (8 - byte_class b) * 64 ^ missing state + v"
  proof -
    consider "c < 0x800" | "0x800 \<le> c" "c < 0x10000" | "0x10000 \<le> c" by linarith
    then show ?thesis
    proof cases
      case 1
      define d v where "d = c div 64" and "v = c mod 64"
      have d: "2 \<le> d" "d < 32" "c = d * 64 + v" "v < 64" using c(1) 1 by (simp_all add: d_def v_def less_mult_imp_div_less)
      show ?thesis
        using utf8_two[OF d(1,2,4)] lead_two[OF d(1,2)] d
        by (intro that[of "0xC0 + d" 2 v]) (simp_all add: missing_def continuation_simps next_range_def)
    next
      case 2
      define d v where "d = c div 4096" and "v = c mod 4096"
      have d: "d < 16" "c = d * 4096 + v" "v < 4096" using 2 by (simp_all add: d_def v_def less_mult_imp_div_less)
      have r: "d = 0 \<Longrightarrow> 2048 \<le> v" "d = 13 \<Longrightarrow> v < 2048" using 2 assms d by (auto simp: scalar_def)
      show ?thesis
        using utf8_three[OF d(1,3) r] lead_three[OF d(1)] d r
        by (intro that[of "0xE0 + d" "if d = 0 then 4 else if d = 13 then 5 else 3" v])
          (auto simp: missing_def continuation_simps next_range_def numeral_2_eq_2)
    next
      case 3
      define d v where "d = c div 262144" and "v = c mod 262144"
      have d: "d < 5" "c = d * 262144 + v" "v < 262144" using c by (simp_all add: d_def v_def less_mult_imp_div_less)
      have r: "d = 0 \<Longrightarrow> 65536 \<le> v" "d = 4 \<Longrightarrow> v < 65536" using 3 c d by auto
      show ?thesis
        using utf8_four[OF d(1,3) r] lead_four[OF d(1)] d r
        by (intro that[of "0xF0 + d" "if d = 0 then 6 else if d = 4 then 8 else 7" v])
          (auto simp: missing_def continuation_simps next_range_def numeral_3_eq_3)
    qed
  qed
  have dec: "decode 0 0 b = (state, b mod 2 ^ (8 - byte_class b))" using decode_eq[of 0 b 0] lead(2) state(2) by simp
  have "escape_run 0 0 (utf8 c @ s) = map_option ((@) [char_of b])
      (escape_run state (b mod 2 ^ (8 - byte_class b)) (map char_of (continuation (missing state) v) @ s))"
    using dec lead state(1) by (auto simp: utf8_def)
  also have "\<dots> = map_option ((@) (utf8 c)) (escape_run 0 c s)"
    unfolding escape_run_continuation[OF state(1) v c] by (cases "escape_run 0 c s") (simp_all add: utf8_def lead(1))
  finally show ?thesis using c by (simp add: json_text_def escape_high escape_run_start[of c])
qed

lemma escape_run_iff:
  "escape_run 0 0 s = Some t \<longleftrightarrow>
    (\<exists>cs. list_all scalar cs \<and> s = concat (map utf8 cs) \<and> t = concat (map json_text cs))"
proof
  show "\<exists>cs. list_all scalar cs \<and> s = concat (map utf8 cs) \<and> t = concat (map json_text cs)" if "escape_run 0 0 s = Some t"
    using escape_run_sound[OF that, of "[]"] by simp
  have "escape_run 0 0 (concat (map utf8 cs)) = Some (concat (map json_text cs))" if "list_all scalar cs" for cs
    using that by (induction cs) (simp_all add: escape_run_scalar)
  then show "escape_run 0 0 s = Some t" if "\<exists>cs. list_all scalar cs \<and> s = concat (map utf8 cs) \<and> t = concat (map json_text cs)"
    using that by blast
qed

section \<open>Properties\<close>

text \<open>C29: The integer printer, which counts the digits in steps of four and writes them backwards two
  at a time into a buffer of 64 characters, prints the decimal representation of every value
  of the two 64-bit integer types.\<close>

theorem dump_integer_decimal:
  assumes "- (2 ^ 63) \<le> x" and "x < 2 ^ 64"
  shows "dump_integer x = Inr ((if x < 0 then ''-'' else []) @ nat_digits (nat \<bar>x\<bar>))"
  using dump_integer_digits[OF assms] by (simp add: to_string_def)

theorem dump_integer_decimal_witness: "dump_integer (- 120) = Inr ''-120''"
proof -
  have "digit_char 1 = CHR ''1''" "digit_char 2 = CHR ''2''" "digit_char 0 = CHR ''0''" by code_simp+
  then show ?thesis using dump_integer_decimal[of "- 120"] by (simp add: nat_digits_split nat_digits_one)
qed

text \<open>C28: Escaping never writes outside its buffer of 512 bytes, for any string of bytes, any way of
  handling invalid bytes and with or without escaping of the characters outside ASCII; and it
  fails only with an exception, and only when invalid bytes are to be refused.\<close>

theorem dump_escaped_in_bounds:
  "case dump_escaped handler ensure_ascii s of
     Inr t \<Rightarrow> True
   | Inl e \<Rightarrow> handler = strict \<and> (\<exists>what. e = std_exception (''[json.exception.type_error.316] '' @ what))"
  using escape_loop_buffered[OF buffered_initial, of handler ensure_ascii s 0]
  by (auto simp: dump_escaped_def type_error_316_def split: sum.splits error_handler_t.splits)

text \<open>C27: The strings the serializer accepts are exactly the UTF-8 encodings of sequences of Unicode
  scalar values, and it writes them with the escapes JSON requires and every other character
  as it is.\<close>

theorem dump_escaped_utf8:
  "dump_escaped strict False s = Inr t \<longleftrightarrow>
    (\<exists>cs. list_all scalar cs \<and> s = concat (map utf8 cs) \<and> t = concat (map json_text cs))"
  unfolding escape_run_iff[symmetric] dump_escaped_run[symmetric] by (simp split: sum.splits)

end
