(* ===== verification/Cppapi_Metadata.thy ===== *)
theory Cppapi_Metadata
  imports Cppapi_Data Json
begin

text \<open>
  The requests for metadata (\<^verbatim>\<open>cppapi_metadata.cpp\<close>): the JSON documents that describe a slice, a
  fence, a volume and an attribute request, and their text. The theorems relate the documents to
  the data the corresponding requests of \<open>Cppapi_Data\<close> return.
\<close>

section \<open>Helpers\<close>

text \<open>\<^verbatim>\<open>OpenVDS::VolumeDataFormat\<close>, of which the program only uses one value.\<close>

datatype VolumeDataFormat = Format_R32 | other_format int

definition single_format :: VolumeDataFormat where
  "single_format = Format_R32"

definition fmtstr :: "VolumeDataFormat \<Rightarrow> string result" where
  "fmtstr format = (case format of
       Format_R32 \<Rightarrow> Inr ''<f4''
     | _ \<Rightarrow> Inl (std_exception ''unsupported VDS format type''))"

definition json_to_response :: "json \<Rightarrow> string response result" where
  "json_to_response metadata =
     rbind (dump metadata) (\<lambda>txt.
     Inr \<lparr>response_data = Some txt, response_size = length txt\<rparr>)"

text \<open>An object from a braced list of its members, whose keys differ.\<close>

definition json_members :: "(string \<times> json) list \<Rightarrow> json" where
  "json_members members = json_object (foldl (\<lambda>kvs (k, v). map_assign k v kvs) [] members)"

text \<open>The limits are \<^verbatim>\<open>float\<close> arithmetic, the bounds convert to \<^verbatim>\<open>float\<close>.\<close>

definition json_axis :: "Axis \<Rightarrow> SubCube \<Rightarrow> json" where
  "json_axis axis subcube =
     (let lower = sc_lower subcube; upper = sc_upper subcube; dim = m_dimension axis;
          min = f32 (m_min axis + f32 (axis_stepsize axis * f32 (of_int (lower ! dim))));
          max = f32 (m_min axis + f32 (axis_stepsize axis * f32 (of_int (upper ! dim - 1))));
          samples = to_size_t (upper ! dim - lower ! dim)
      in json_members
        [(''annotation'', json_string (m_name axis)),
         (''min'', json_float (Fin min)),
         (''max'', json_float (Fin max)),
         (''samples'', json_unsigned samples),
         (''stepsize'', json_float (Fin (axis_stepsize axis))),
         (''unit'', json_string (m_unit axis))])"

definition json_point :: "real \<times> real \<Rightarrow> json" where
  "json_point p = json_array [json_float (Fin (fst p)), json_float (Fin (snd p))]"

definition json_index :: "int \<times> int \<Rightarrow> json" where
  "json_index p = json_array [json_integer (fst p), json_integer (snd p)]"

definition json_slice_geospatial :: "MetadataHandle \<Rightarrow> Direction \<Rightarrow> SubCube \<Rightarrow> json result" where
  "json_slice_geospatial metadata direction bounds =
     (let transformer = metadata_transformer metadata;
          lower = VoxelIndexToIJKIndex transformer (Vec3 (sc_lower bounds ! 0) (sc_lower bounds ! 1) (sc_lower bounds ! 2));
          upper = VoxelIndexToIJKIndex transformer (Vec3 (sc_upper bounds ! 0 - 1) (sc_upper bounds ! 1 - 1) (sc_upper bounds ! 2 - 1));
          corners = map (\<lambda>(i, j). let p = IJKIndexToWorld transformer (Vec3 i j 0) in (vnth p 0, vnth p 1))
            [(vnth lower 0, vnth lower 1), (vnth upper 0, vnth lower 1), (vnth upper 0, vnth upper 1), (vnth lower 0, vnth upper 1)]
      in
      rbind (is_sample direction) (\<lambda>horizontal.
      Inr (json_array (map json_point (if horizontal then corners else [corners ! 0, corners ! 2])))))"

section \<open>Requests\<close>

text \<open>The lambda \<^verbatim>\<open>json_shape\<close> of \<^verbatim>\<open>slice_metadata\<close>.\<close>

definition json_shape :: "SubCube \<Rightarrow> Axis \<Rightarrow> Axis \<Rightarrow> json \<Rightarrow> json result" where
  "json_shape bounds x y meta =
     rbind (json_assign ''x'' (json_axis x bounds) meta) (\<lambda>meta.
     rbind (json_assign ''y'' (json_axis y bounds) meta) (\<lambda>meta.
     json_assign ''shape'' (json_array
       [json_integer (sc_upper bounds ! m_dimension y - sc_lower bounds ! m_dimension y),
        json_integer (sc_upper bounds ! m_dimension x - sc_lower bounds ! m_dimension x)]) meta))"

definition slice_document :: "MetadataHandle \<Rightarrow> Direction \<Rightarrow> int \<Rightarrow> Bound list \<Rightarrow> json result" where
  "slice_document metadata direction lineno slicebounds =
     rbind (get_axis metadata direction) (\<lambda>axis.
     rbind (fmtstr single_format) (\<lambda>format.
     rbind (json_assign ''format'' (json_string format) json_null) (\<lambda>meta.
     let inline_axis = iline metadata; crossline_axis = xline metadata; sample_axis = sample metadata in
     rbind (constrain metadata slicebounds (make_SubCube metadata)) (\<lambda>bounds.
     rbind (direction_coordinate_system direction) (\<lambda>system.
     rbind (set_slice axis lineno system bounds) (\<lambda>bounds.
     rbind (direction_axis_type direction) (\<lambda>t.
     rbind (case t of
         AxisType_ILINE \<Rightarrow> json_shape bounds sample_axis crossline_axis meta
       | AxisType_XLINE \<Rightarrow> json_shape bounds sample_axis inline_axis meta
       | AxisType_SAMPLE \<Rightarrow> json_shape bounds crossline_axis inline_axis meta) (\<lambda>meta.
     rbind (json_slice_geospatial metadata direction bounds) (\<lambda>geospatial.
     json_assign ''geospatial'' geospatial meta)))))))))"

definition slice_metadata :: "DataHandle \<Rightarrow> Direction \<Rightarrow> int \<Rightarrow> Bound list \<Rightarrow> string response result" where
  "slice_metadata datahandle direction lineno slicebounds =
     rbind (slice_document (get_metadata datahandle) direction lineno slicebounds) json_to_response"

definition fence_document :: "MetadataHandle \<Rightarrow> nat \<Rightarrow> json result" where
  "fence_document metadata npoints =
     rbind (json_assign ''shape'' (json_array [json_unsigned npoints, json_integer (m_nsamples (sample metadata))]) json_null) (\<lambda>meta.
     rbind (fmtstr single_format) (\<lambda>format.
     json_assign ''format'' (json_string format) meta))"

definition fence_metadata :: "DataHandle \<Rightarrow> nat \<Rightarrow> string response result" where
  "fence_metadata datahandle npoints = rbind (fence_document (get_metadata datahandle) npoints) json_to_response"

definition metadata_document :: "MetadataHandle \<Rightarrow> json result" where
  "metadata_document metadata =
     rbind (crs metadata) (\<lambda>wkt.
     rbind (json_assign ''crs'' (json_string wkt) json_null) (\<lambda>meta.
     rbind (input_filename metadata) (\<lambda>filename.
     rbind (json_assign ''inputFileName'' (json_string filename) meta) (\<lambda>meta.
     rbind (import_time_stamp metadata) (\<lambda>stamp.
     rbind (json_assign ''importTimeStamp'' (json_string stamp) meta) (\<lambda>meta.
     let bbox = bounding_box metadata in
     rbind (json_assign ''ij'' (json_array (map json_index (bbox_index bbox))) json_null) (\<lambda>box.
     rbind (json_assign ''cdp'' (json_array (map json_point (bbox_world bbox))) box) (\<lambda>box.
     rbind (json_assign ''ilxl'' (json_array (map json_index (bbox_annotation bbox))) box) (\<lambda>box.
     rbind (json_assign ''boundingBox'' box meta) (\<lambda>meta.
     let volume = make_SubCube metadata in
     rbind (json_push_back (json_axis (iline metadata) volume) json_null) (\<lambda>axes.
     rbind (json_push_back (json_axis (xline metadata) volume) axes) (\<lambda>axes.
     rbind (json_push_back (json_axis (sample metadata) volume) axes) (\<lambda>axes.
     json_assign ''axis'' axes meta)))))))))))))"

definition metadata_request :: "DataHandle \<Rightarrow> string response result" where
  "metadata_request datahandle = rbind (metadata_document (get_metadata datahandle)) json_to_response"

definition attributes_document :: "nat \<Rightarrow> nat \<Rightarrow> json result" where
  "attributes_document nrows ncols =
     rbind (json_assign ''shape'' (json_array [json_unsigned nrows, json_unsigned ncols]) json_null) (\<lambda>meta.
     rbind (fmtstr single_format) (\<lambda>format.
     json_assign ''format'' (json_string format) meta))"

definition attributes_metadata :: "DataHandle \<Rightarrow> nat \<Rightarrow> nat \<Rightarrow> string response result" where
  "attributes_metadata datahandle nrows ncols = rbind (attributes_document nrows ncols) json_to_response"

section \<open>Lemmas on documents\<close>

lemma map_of_assign: "map_of (map_assign k v kvs) k' = (if k' = k then Some v else map_of kvs k')"
  by (induction kvs) auto

fun is_object :: "json \<Rightarrow> bool" where
  "is_object json_null = True"
| "is_object (json_object _) = True"
| "is_object _ = False"

lemma json_assign_object:
  assumes "is_object j"
  obtains j' where "json_assign k v j = Inr j'" and "is_object j'"
    and "\<And>k'. json_member k' j' = (if k' = k then Some v else json_member k' j)"
  using assms by (cases j) (auto simp: map_of_assign)

lemma json_members_member:
  assumes "distinct (map fst kvs)"
  shows "json_member k (json_members kvs) = map_of kvs k"
proof -
  have "map_of (foldl (\<lambda>kvs (k, v). map_assign k v kvs) acc kvs) k =
      (case map_of kvs k of Some v \<Rightarrow> Some v | None \<Rightarrow> map_of acc k)" for acc
    using assms
  proof (induction kvs arbitrary: acc)
    case (Cons kv kvs)
    have "map_of kvs (fst kv) = None" using Cons.prems by (simp add: map_of_eq_None_iff)
    then show ?case using Cons by (cases kv) (auto simp: map_of_assign split: option.splits)
  qed simp
  then show ?thesis by (simp add: json_members_def split: option.splits)
qed

lemma json_axis_members:
  "json_member ''annotation'' (json_axis a sc) = Some (json_string (m_name a))"
  "json_member ''min'' (json_axis a sc) = Some (json_float (Fin (f32 (m_min a +
     f32 (axis_stepsize a * f32 (of_int (sc_lower sc ! m_dimension a)))))))"
  "json_member ''max'' (json_axis a sc) = Some (json_float (Fin (f32 (m_min a +
     f32 (axis_stepsize a * f32 (of_int (sc_upper sc ! m_dimension a - 1)))))))"
  "json_member ''samples'' (json_axis a sc) = Some (json_unsigned (to_size_t (sc_upper sc ! m_dimension a - sc_lower sc ! m_dimension a)))"
  "json_member ''stepsize'' (json_axis a sc) = Some (json_float (Fin (axis_stepsize a)))"
  "json_member ''unit'' (json_axis a sc) = Some (json_string (m_unit a))"
  by (simp_all add: json_axis_def Let_def json_members_member)

text \<open>The axes of the two dimensions of a slice.\<close>

definition slice_x :: "MetadataHandle \<Rightarrow> AxisType \<Rightarrow> Axis" where
  "slice_x m t = (if t = AxisType_SAMPLE then xline m else sample m)"

definition slice_y :: "MetadataHandle \<Rightarrow> AxisType \<Rightarrow> Axis" where
  "slice_y m t = (if t = AxisType_ILINE then xline m else iline m)"

lemma slice_document_members:
  assumes "wf_metadata m" and "direction_axis_type direction = Inr t" and "m_axes_map m t = Some a"
    and "direction_coordinate_system direction = Inr system"
    and "constrain m bounds (make_SubCube m) = Inr sc0" and "set_slice a lineno system sc0 = Inr sc"
  obtains doc where "slice_document m direction lineno bounds = Inr doc"
    and "json_member ''x'' doc = Some (json_axis (slice_x m t) sc)"
    and "json_member ''y'' doc = Some (json_axis (slice_y m t) sc)"
    and "json_member ''shape'' doc = Some (json_array
      [json_integer (sc_upper sc ! m_dimension (slice_y m t) - sc_lower sc ! m_dimension (slice_y m t)),
       json_integer (sc_upper sc ! m_dimension (slice_x m t) - sc_lower sc ! m_dimension (slice_x m t))])"
    and "json_member ''format'' doc = Some (json_string ''<f4'')"
proof -
  obtain j1 where j1: "json_assign ''format'' (json_string ''<f4'') json_null = Inr j1" "is_object j1"
    "\<And>k'. json_member k' j1 = (if k' = ''format'' then Some (json_string ''<f4'') else json_member k' json_null)"
    by (rule json_assign_object[of json_null "''format''" "json_string ''<f4''"]) (simp, blast)
  let ?shape = "json_array
      [json_integer (sc_upper sc ! m_dimension (slice_y m t) - sc_lower sc ! m_dimension (slice_y m t)),
       json_integer (sc_upper sc ! m_dimension (slice_x m t) - sc_lower sc ! m_dimension (slice_x m t))]"
  obtain j2 where j2: "json_assign ''x'' (json_axis (slice_x m t) sc) j1 = Inr j2" "is_object j2"
    "\<And>k'. json_member k' j2 = (if k' = ''x'' then Some (json_axis (slice_x m t) sc) else json_member k' j1)"
    by (rule json_assign_object[OF j1(2), of "''x''"]) blast
  obtain j3 where j3: "json_assign ''y'' (json_axis (slice_y m t) sc) j2 = Inr j3" "is_object j3"
    "\<And>k'. json_member k' j3 = (if k' = ''y'' then Some (json_axis (slice_y m t) sc) else json_member k' j2)"
    by (rule json_assign_object[OF j2(2), of "''y''"]) blast
  obtain j4 where j4: "json_assign ''shape'' ?shape j3 = Inr j4" "is_object j4"
    "\<And>k'. json_member k' j4 = (if k' = ''shape'' then Some ?shape else json_member k' j3)"
    by (rule json_assign_object[OF j3(2), of "''shape''"]) blast
  obtain geo where geo: "json_slice_geospatial m direction sc = Inr geo"
    using assms(2) by (auto simp: json_slice_geospatial_def is_sample_def Let_def)
  obtain j5 where j5: "json_assign ''geospatial'' geo j4 = Inr j5" "is_object j5"
    "\<And>k'. json_member k' j5 = (if k' = ''geospatial'' then Some geo else json_member k' j4)"
    by (rule json_assign_object[OF j4(2), of "''geospatial''"]) blast
  have shape: "(case t of
         AxisType_ILINE \<Rightarrow> json_shape sc (sample m) (xline m) j1
       | AxisType_XLINE \<Rightarrow> json_shape sc (sample m) (iline m) j1
       | AxisType_SAMPLE \<Rightarrow> json_shape sc (xline m) (iline m) j1) = Inr j4"
    using j2(1) j3(1) j4(1) by (cases t) (simp_all add: json_shape_def slice_x_def slice_y_def)
  have "slice_document m direction lineno bounds = Inr j5"
    unfolding slice_document_def Let_def
    using assms(2-6) j1(1) shape geo j5(1) by (simp add: get_axis_def map_at_def fmtstr_def single_format_def del: json_assign.simps)
  then show ?thesis using that j1(3) j2(3) j3(3) j4(3) j5(3) by simp
qed

section \<open>Lemmas on the size of a box\<close>

lemma voxels_count:
  "length lower = length upper \<Longrightarrow> length (voxels lower upper) = prod_list (map2 (\<lambda>l u. nat (u - l)) lower upper)"
proof (induction lower upper rule: list_induct2)
  case (Cons l ls u us)
  have "foldr (*) xs k = prod_list xs * k" for xs and k :: nat by (induction xs) (simp_all add: mult.assoc)
  then show ?case using Cons by (simp add: voxels_def length_product_lists)
qed (simp add: voxels_def)

lemma length_six: "length xs = 6 \<longleftrightarrow> (\<exists>a b c d e f. xs = [a, b, c, d, e, f])"
  by (auto simp: length_Suc_conv numeral_eq_Suc)

lemma prod_list_six:
  fixes f :: "int \<Rightarrow> int \<Rightarrow> nat"
  assumes "length ls = 6" and "length us = 6"
  shows "prod_list (map2 f ls us) = f (ls ! 0) (us ! 0) * f (ls ! 1) (us ! 1) * f (ls ! 2) (us ! 2) *
    f (ls ! 3) (us ! 3) * f (ls ! 4) (us ! 4) * f (ls ! 5) (us ! 5)"
  using assms unfolding length_six by (elim exE) (simp add: mult.assoc)

lemma prod_dimensions:
  fixes e :: "nat \<Rightarrow> int"
  assumes "distinct [a, b, c]" and "a < 3" and "b < 3" and "c < 3"
  shows "e 0 * e 1 * e 2 = e a * e b * e c"
  using assms by (auto simp: numeral_3_eq_3 less_Suc_eq numeral_2_eq_2)

lemma box_count:
  assumes "wf_metadata m" and "within_volume m sc" and "nonempty_box sc"
  defines "ext \<equiv> \<lambda>a. sc_upper sc ! m_dimension a - sc_lower sc ! m_dimension a"
  shows "int (length (subcube_voxels sc)) = ext (iline m) * ext (xline m) * ext (sample m)"
    and "0 < ext (iline m)" and "0 < ext (xline m)" and "0 < ext (sample m)"
proof -
  let ?e = "\<lambda>d. sc_upper sc ! d - sc_lower sc ! d"
  have box: "length (sc_lower sc) = 6" "length (sc_upper sc) = 6"
    and v: "\<And>d. d < 6 \<Longrightarrow> 0 \<le> sc_lower sc ! d \<and> sc_lower sc ! d < sc_upper (make_SubCube m) ! d \<and>
      sc_upper sc ! d \<le> sc_upper (make_SubCube m) ! d \<and> sc_lower sc ! d < sc_upper sc ! d"
    using assms(2,3) by (auto simp: within_volume_def nonempty_box_def list_all_iff)
  note dims = wf_metadata_axes(4-7)[OF assms(1)]
  have flat: "sc_upper (make_SubCube m) ! d = 1" if "d \<in> {3, 4, 5}" for d
  proof -
    have "sc_upper (make_SubCube m) ! d = [1, 1, 1, 1, 1, 1] ! d"
      using dims that by (auto simp: make_SubCube_def nth_list_update simp del: list_update.simps)
    then show ?thesis using that by auto
  qed
  have one: "?e d = 1" if "d \<in> {3, 4, 5}" for d
  proof -
    have "d < 6" using that by auto
    from v[OF this] flat[OF that] show ?thesis by linarith
  qed
  have pos: "0 < ?e d" if "d < 6" for d using v[OF that] by simp
  show "0 < ext (iline m)" "0 < ext (xline m)" "0 < ext (sample m)" using pos dims by (simp_all add: ext_def)
  have "length (subcube_voxels sc) = nat (?e 0) * nat (?e 1) * nat (?e 2)"
    using box one[of 3] one[of 4] one[of 5] voxels_count[of "sc_lower sc" "sc_upper sc"] by (simp add: prod_list_six)
  then have "int (length (subcube_voxels sc)) = ?e 0 * ?e 1 * ?e 2" using pos[of 0] pos[of 1] pos[of 2] by simp
  moreover have "?e 0 * ?e 1 * ?e 2 = ext (iline m) * ext (xline m) * ext (sample m)"
    unfolding ext_def using prod_dimensions[OF dims, of ?e] .
  ultimately show "int (length (subcube_voxels sc)) = ext (iline m) * ext (xline m) * ext (sample m)" by simp
qed

text \<open>The lines of an axis of whole numbers.\<close>

lemma whole_axis_line:
  assumes "whole_axis lo s a" and k: "0 \<le> k" "k < m_nsamples a"
  shows "f32 (of_int lo + f32 (of_int s * f32 (of_int k))) = of_int (lo + s * k)"
    and "lineno_annotation_to_voxel (lo + s * k) a = Inr k"
proof -
  define hi where "hi = lo + s * (m_nsamples a - 1)"
  have s: "0 < s" and lo: "\<bar>lo\<bar> \<le> 2 ^ 22" and hi: "\<bar>hi\<bar> \<le> 2 ^ 22"
    using assms(1) by (simp_all add: whole_axis_def hi_def)
  have ends: "m_min a = of_int lo" "m_max a = of_int hi" "axis_stepsize a = of_int s"
    using assms(1) whole_axis_stepsize[OF assms(1)] by (simp_all add: whole_axis_def hi_def)
  have "1 * k \<le> s * k" "s * k \<le> s * (m_nsamples a - 1)" using k s by (intro mult_right_mono mult_left_mono; simp)+
  then have b: "0 \<le> s * k" "k \<le> s * k" "lo + s * k \<le> hi" using k by (simp_all add: hi_def)
  then have small: "\<bar>k\<bar> \<le> 16777216" "\<bar>s * k\<bar> \<le> 16777216" "\<bar>lo + s * k\<bar> \<le> 16777216" using k lo hi by simp_all
  show "f32 (of_int lo + f32 (of_int s * f32 (of_int k))) = of_int (lo + s * k)"
    using small[THEN f32_small_int] by simp
  have q: "(s * k) div s = k" using s by simp
  show "lineno_annotation_to_voxel (lo + s * k) a = Inr k"
    unfolding lineno_annotation_to_voxel_def Let_def ends f32_of_int_less[OF lo] f32_of_int_greater[OF hi]
    using whole_voxelline[OF s lo _ b(3) hi] b q by simp
qed

lemma slice_box:
  assumes "wf_metadata m" and "float_metadata m" and "list_all (\<lambda>b. bound_lower b \<le> bound_upper b) bounds"
    and "m_axes_map m t = Some a" and "constrain m bounds (make_SubCube m) = Inr sc0" and "set_slice a lineno system sc0 = Inr sc"
  shows "within_volume m sc" and "nonempty_box sc" and "sc_upper sc ! m_dimension a - sc_lower sc ! m_dimension a = 1"
proof -
  note init = within_volume_initial[OF assms(1)]
  have "within_volume m sc0" "nonempty_box sc0"
    using constrain_within[OF assms(1,2) conjunct1[OF init] assms(5)] init assms(3) by (simp_all add: list_all_iff)
  then show "within_volume m sc" "nonempty_box sc" using set_slice_within[OF assms(1,2,4) _ assms(6)] by simp_all
  have "length (sc_lower sc0) = 6" "length (sc_upper sc0) = 6" using \<open>within_volume m sc0\<close> by (simp_all add: within_volume_def)
  then show "sc_upper sc ! m_dimension a - sc_lower sc ! m_dimension a = 1"
    using assms(6) dimensions_upper(2)[OF assms(1,4)] by (auto simp: set_slice_def set_bounds_def)
qed

section \<open>Properties\<close>

text \<open>C25: The metadata of a slice describes the data of the same request: when the data request is
  answered, so is the document, its shape multiplied out gives the number of floats in the
  response, and its two axes have as many samples as the shape says.\<close>

theorem slice_metadata_describes_data:
  fixes h :: DataHandle
  defines "m \<equiv> get_metadata h"
  assumes "wf_metadata m" and "float_metadata m" and "holds_cube h c" and "cube_extents c = sc_upper (make_SubCube m)"
    and "vertical_ok (known_names v) m direction bounds" and "list_all (\<lambda>b. bound_lower b \<le> bound_upper b) bounds"
    and "direction_axis_type direction = Inr t" and "m_axes_map m t = Some a"
    and "direction_coordinate_system direction = Inr system"
    and "constrain m bounds (make_SubCube m) = Inr sc0" and "set_slice a lineno system sc0 = Inr sc"
    and "int (length (subcube_voxels sc)) < 2 ^ 61"
  shows "\<exists>resp doc rows cols x y. slice v h direction lineno bounds = Inr resp \<and> slice_document m direction lineno bounds = Inr doc \<and>
    json_member ''shape'' doc = Some (json_array [json_integer rows, json_integer cols]) \<and>
    int (response_size resp) = 4 * (rows * cols) \<and> 0 < rows \<and> 0 < cols \<and>
    json_member ''x'' doc = Some x \<and> json_member ''samples'' x = Some (json_unsigned (nat cols)) \<and>
    json_member ''y'' doc = Some y \<and> json_member ''samples'' y = Some (json_unsigned (nat rows))"
proof -
  let ?ext = "\<lambda>a. sc_upper sc ! m_dimension a - sc_lower sc ! m_dimension a"
  note box = slice_box[OF assms(2,3,7,9,11,12)]
  note count = box_count[OF assms(2) box(1,2)]
  have "box_in (cube_extents c) (sc_lower sc) (sc_upper sc)" using within_volume_box[OF box(1,2)] by (simp add: assms(5))
  note data = slice_reads_box[OF assms(4) this assms(13), folded m_def, OF assms(6,8-12)]
  obtain doc where doc: "slice_document m direction lineno bounds = Inr doc"
    "json_member ''x'' doc = Some (json_axis (slice_x m t) sc)" "json_member ''y'' doc = Some (json_axis (slice_y m t) sc)"
    "json_member ''shape'' doc = Some (json_array [json_integer (?ext (slice_y m t)), json_integer (?ext (slice_x m t))])"
    by (rule slice_document_members[OF assms(2,8-12)])
  have a: "a = (case t of AxisType_ILINE \<Rightarrow> iline m | AxisType_XLINE \<Rightarrow> xline m | AxisType_SAMPLE \<Rightarrow> sample m)"
    using assms(9) by (cases t) (simp_all add: iline_def xline_def sample_def)
  have n: "int (length (subcube_voxels sc)) = ?ext (slice_y m t) * ?ext (slice_x m t)" "0 < ?ext (slice_y m t)" "0 < ?ext (slice_x m t)"
    using count box(3) by (cases t; simp add: a slice_x_def slice_y_def mult.commute)+
  have le: "p < 2 ^ 64 \<and> q < 2 ^ 64" if "p * q < 2 ^ 61" "0 < p" "0 < q" for p q :: int
  proof -
    have "p * 1 \<le> p * q" "1 * q \<le> p * q" using that by (intro mult_left_mono mult_right_mono; simp)+
    then show ?thesis using that(1) by simp
  qed
  have small: "?ext (slice_y m t) < 2 ^ 64" "?ext (slice_x m t) < 2 ^ 64" using le[of "?ext (slice_y m t)"] n assms(13) by simp_all
  have "int (4 * length (subcube_voxels sc)) = 4 * (?ext (slice_y m t) * ?ext (slice_x m t))" using n(1) by simp
  moreover have "json_member ''samples'' (json_axis (slice_x m t) sc) = Some (json_unsigned (nat (?ext (slice_x m t))))"
    "json_member ''samples'' (json_axis (slice_y m t) sc) = Some (json_unsigned (nat (?ext (slice_y m t))))"
    using n small by (simp_all add: json_axis_members to_size_t_nonneg)
  ultimately show ?thesis using data doc n(2,3) by fastforce
qed

theorem slice_metadata_describes_data_witness:
  "\<exists>doc x. slice_document (SingleMetadata example_single) \<lparr>m_axis_name = INLINE\<rparr> 3
      [\<lparr>bound_lower = 1, bound_upper = 5, bound_name = INLINE\<rparr>, \<lparr>bound_lower = 10, bound_upper = 10, bound_name = CROSSLINE\<rparr>] = Inr doc \<and>
    json_member ''shape'' doc = Some (json_array [json_integer 1, json_integer 4]) \<and>
    json_member ''x'' doc = Some x \<and> json_member ''samples'' x = Some (json_unsigned 4)"
proof -
  let ?m = "SingleMetadata example_single"
  let ?bounds = "[\<lparr>bound_lower = 1, bound_upper = 5, bound_name = INLINE\<rparr>, \<lparr>bound_lower = 10, bound_upper = 10, bound_name = CROSSLINE\<rparr>]"
  have vox: "length (voxels [0, 0, 1, 0, 0, 0] [4, 1, 2, 1, 1, 1]) = 4" by code_simp
  have "\<exists>resp doc rows cols x y. slice example_vds (SingleData example_data) \<lparr>m_axis_name = INLINE\<rparr> 3 ?bounds = Inr resp \<and>
    slice_document (get_metadata (SingleData example_data)) \<lparr>m_axis_name = INLINE\<rparr> 3 ?bounds = Inr doc \<and>
    json_member ''shape'' doc = Some (json_array [json_integer rows, json_integer cols]) \<and>
    int (response_size resp) = 4 * (rows * cols) \<and> 0 < rows \<and> 0 < cols \<and>
    json_member ''x'' doc = Some x \<and> json_member ''samples'' x = Some (json_unsigned (nat cols)) \<and>
    json_member ''y'' doc = Some y \<and> json_member ''samples'' y = Some (json_unsigned (nat rows))"
    by (rule slice_metadata_describes_data[where t = AxisType_ILINE and system = ANNOTATION and c = example_cube,
          OF _ _ _ _ _ _ _ _ _ _ example_request(2)])
      (simp_all add: example_slice example_data_holds example_wf(1,2) example_wf(3)[unfolded m_axes_map.simps] example_request(1) validate_vertical_axis_def
        vertical_ok_def direction_name_def direction_axis_type_def direction_coordinate_system_def Let_def vox)
  then obtain doc rows cols x where doc: "slice_document ?m \<lparr>m_axis_name = INLINE\<rparr> 3 ?bounds = Inr doc"
    "json_member ''shape'' doc = Some (json_array [json_integer rows, json_integer cols])"
    "json_member ''x'' doc = Some x" "json_member ''samples'' x = Some (json_unsigned (nat cols))"
    by (auto simp: example_slice)
  have "rbind (slice_document ?m \<lparr>m_axis_name = INLINE\<rparr> 3 ?bounds) (\<lambda>doc. Inr (json_member ''shape'' doc)) =
      Inr (Some (json_array [json_integer 1, json_integer 4]))" by code_simp
  then show ?thesis using doc by simp
qed

text \<open>C26: The limits that a document gives for an axis of whole numbers are the first and the last
  line of the box, exactly, and they are line numbers that requests accept: converted back
  they are the limits of the box.\<close>

theorem axis_limits_round_trip:
  assumes "whole_axis lo s a" and "0 \<le> sc_lower sc ! m_dimension a" and "sc_lower sc ! m_dimension a < sc_upper sc ! m_dimension a"
    and "sc_upper sc ! m_dimension a \<le> m_nsamples a"
  shows "\<exists>first final. json_member ''min'' (json_axis a sc) = Some (json_float (Fin (of_int first))) \<and>
    json_member ''max'' (json_axis a sc) = Some (json_float (Fin (of_int final))) \<and>
    json_member ''stepsize'' (json_axis a sc) = Some (json_float (Fin (of_int s))) \<and>
    lineno_annotation_to_voxel first a = Inr (sc_lower sc ! m_dimension a) \<and>
    lineno_annotation_to_voxel final a = Inr (sc_upper sc ! m_dimension a - 1)"
proof -
  note step = whole_axis_stepsize[OF assms(1)]
  have line: "f32 (m_min a + f32 (axis_stepsize a * f32 (of_int k))) = of_int (lo + s * k) \<and>
      lineno_annotation_to_voxel (lo + s * k) a = Inr k"
    if "0 \<le> k" "k < m_nsamples a" for k
    using whole_axis_line[OF assms(1) that] assms(1) by (simp add: step whole_axis_def)
  show ?thesis
    using line[of "sc_lower sc ! m_dimension a"] line[of "sc_upper sc ! m_dimension a - 1"] assms(2-4) step
    by (intro exI[of _ "lo + s * (sc_lower sc ! m_dimension a)"] exI[of _ "lo + s * (sc_upper sc ! m_dimension a - 1)"])
      (simp add: json_axis_members)
qed

theorem axis_limits_round_trip_witness:
  "\<exists>first final. json_member ''min'' (json_axis (make_Axis 1 9 5 ''Inline'' ''u'' 2) \<lparr>sc_lower = [0, 0, 1], sc_upper = [4, 4, 4]\<rparr>) =
      Some (json_float (Fin (of_int first))) \<and>
    lineno_annotation_to_voxel first (make_Axis 1 9 5 ''Inline'' ''u'' 2) = Inr 1 \<and>
    lineno_annotation_to_voxel final (make_Axis 1 9 5 ''Inline'' ''u'' 2) = Inr 3"
proof -
  have "whole_axis 1 2 (make_Axis 1 9 5 ''Inline'' ''u'' 2)" by (simp add: whole_axis_def)
  from axis_limits_round_trip[OF this, of "\<lparr>sc_lower = [0, 0, 1], sc_upper = [4, 4, 4]\<rparr>"] show ?thesis by auto
qed

end
