(* ===== verification/Capi.thy ===== *)
theory Capi
  imports Cppapi_Metadata "HOL-Library.Multiset"
begin

text \<open>
  The C interface (\<^verbatim>\<open>capi.h\<close>, \<^verbatim>\<open>capi.cpp\<close>): objects behind pointers, status codes and error
  messages. The state is a heap of objects, the library's and the caller's; every entry
  point is a function of the state. A function returns \<open>Inl\<close> only for undefined behaviour: all
  exceptions are caught and become status codes.
\<close>

section \<open>State\<close>

type_synonym addr = nat

text \<open>A pointer; \<open>None\<close> is the null pointer.\<close>

type_synonym pointer = "addr option"

datatype status_code = STATUS_OK | STATUS_NULLPTR_ERROR | STATUS_RUNTIME_ERROR | STATUS_BAD_REQUEST

text \<open>What the \<^verbatim>\<open>char*\<close> of a response points to.\<close>

datatype payload = Samples buffer | Text string

text \<open>
  The objects: those the library allocates, a \<^verbatim>\<open>Context\<close> being its error message, and those of
  the caller that are passed by address: responses, the variables that receive a pointer or a
  number, and arrays of floats. A subvolume does not own its three surfaces, it refers to
  them: next to the subvolume stand their addresses.
\<close>

datatype object =
    Context string
  | Handle DataHandle
  | Surface RegularSurface
  | Volume SurfaceBoundedSubVolume addr addr addr
  | Response "payload response"
  | Pointer pointer
  | Integer int
  | Floats "fp list"

text \<open>
  Addresses are not reused, so that a dangling pointer never becomes valid again. \<open>opened\<close> and
  \<open>closed\<close> record the VDSs passed through \<^verbatim>\<open>OpenVDS::Open\<close> and \<^verbatim>\<open>OpenVDS::Close\<close>; \<open>leaked\<close> those that
  were opened by a call that failed and returned no handle.
\<close>

record session =
  heap :: "addr \<rightharpoonup> object"
  next_addr :: addr
  opened :: "vds_handle list"
  closed :: "vds_handle list"
  leaked :: "vds_handle list"

definition store :: "addr \<Rightarrow> object \<Rightarrow> session \<Rightarrow> session" where
  "store a x s = s\<lparr>heap := (heap s)(a \<mapsto> x)\<rparr>"

definition new :: "object \<Rightarrow> session \<Rightarrow> addr \<times> session" where
  "new x s = (next_addr s, s\<lparr>heap := (heap s)(next_addr s \<mapsto> x), next_addr := Suc (next_addr s)\<rparr>)"

definition delete :: "addr \<Rightarrow> session \<Rightarrow> session" where
  "delete a s = s\<lparr>heap := (heap s)(a := None)\<rparr>"

definition dangling :: failure where
  "dangling = undefined_behaviour ''dangling pointer''"

text \<open>Access through a pointer that has been checked not to be null.\<close>

definition handle_at :: "session \<Rightarrow> addr \<Rightarrow> DataHandle result" where
  "handle_at s a = (case heap s a of Some (Handle h) \<Rightarrow> Inr h | _ \<Rightarrow> Inl dangling)"

definition surface_at :: "session \<Rightarrow> addr \<Rightarrow> RegularSurface result" where
  "surface_at s a = (case heap s a of Some (Surface x) \<Rightarrow> Inr x | _ \<Rightarrow> Inl dangling)"

text \<open>The subvolume as the code sees it: with the surfaces its references lead to.\<close>

definition volume_at :: "session \<Rightarrow> addr \<Rightarrow> (SurfaceBoundedSubVolume \<times> addr \<times> addr \<times> addr) result" where
  "volume_at s a = (case heap s a of
       Some (Volume sv r t b) \<Rightarrow>
         rbind (surface_at s r) (\<lambda>reference.
         rbind (surface_at s t) (\<lambda>top_s.
         rbind (surface_at s b) (\<lambda>bottom_s.
         Inr (sv\<lparr>m_ref := reference, m_top := top_s, m_bottom := bottom_s\<rparr>, r, t, b))))
     | _ \<Rightarrow> Inl dangling)"

definition floats_at :: "session \<Rightarrow> addr \<Rightarrow> fp list result" where
  "floats_at s a = (case heap s a of Some (Floats x) \<Rightarrow> Inr x | _ \<Rightarrow> Inl dangling)"

text \<open>Assignment through a pointer to a variable of the caller.\<close>

definition set_pointer :: "addr \<Rightarrow> pointer \<Rightarrow> session \<Rightarrow> session result" where
  "set_pointer a p s = (case heap s a of Some (Pointer _) \<Rightarrow> Inr (store a (Pointer p) s) | _ \<Rightarrow> Inl dangling)"

definition set_integer :: "addr \<Rightarrow> int \<Rightarrow> session \<Rightarrow> session result" where
  "set_integer a i s = (case heap s a of Some (Integer _) \<Rightarrow> Inr (store a (Integer i) s) | _ \<Rightarrow> Inl dangling)"

definition set_response :: "addr \<Rightarrow> payload response \<Rightarrow> session \<Rightarrow> session result" where
  "set_response a r s = (case heap s a of Some (Response _) \<Rightarrow> Inr (store a (Response r) s) | _ \<Rightarrow> Inl dangling)"

text \<open>\<^verbatim>\<open>if (not p) throw detail::nullptr_error(...)\<close>\<close>

definition checked :: "pointer \<Rightarrow> string \<Rightarrow> addr result" where
  "checked p what = (case p of None \<Rightarrow> Inl (nullptr_error what) | Some a \<Rightarrow> Inr a)"

section \<open>Responses, contexts and exceptions\<close>

definition response_create :: "payload response" where
  "response_create = \<lparr>response_data = None, response_size = 0\<rparr>"

definition response_delete :: "pointer \<Rightarrow> session \<Rightarrow> session result" where
  "response_delete buf s = (case buf of None \<Rightarrow> Inr s | Some a \<Rightarrow> set_response a response_create s)"

definition context_new :: "session \<Rightarrow> pointer \<times> session" where
  "context_new s = (let (a, s') = new (Context []) s in (Some a, s'))"

text \<open>\<^verbatim>\<open>delete\<close> of a pointer that is not null, to an object of the kind the function expects.\<close>

definition context_free :: "pointer \<Rightarrow> session \<Rightarrow> (status_code \<times> session) result" where
  "context_free ctx s = (case ctx of
       None \<Rightarrow> Inr (STATUS_OK, s)
     | Some a \<Rightarrow> (case heap s a of Some (Context _) \<Rightarrow> Inr (STATUS_OK, delete a s) | _ \<Rightarrow> Inl dangling))"

definition errmsg :: "pointer \<Rightarrow> session \<Rightarrow> string option result" where
  "errmsg ctx s = (case ctx of
       None \<Rightarrow> Inr None
     | Some a \<Rightarrow> (case heap s a of Some (Context e) \<Rightarrow> Inr (Some e) | _ \<Rightarrow> Inl dangling))"

definition set_errmsg :: "pointer \<Rightarrow> string \<Rightarrow> session \<Rightarrow> session result" where
  "set_errmsg ctx what s = (case ctx of
       None \<Rightarrow> Inr s
     | Some a \<Rightarrow> (case heap s a of Some (Context _) \<Rightarrow> Inr (store a (Context what) s) | _ \<Rightarrow> Inl dangling))"

text \<open>An exception pointer that is not null holds an exception; undefined behaviour is none.\<close>

definition handle_exception :: "pointer \<Rightarrow> failure option \<Rightarrow> session \<Rightarrow> (status_code \<times> session) result" where
  "handle_exception ctx eptr s = (case eptr of
       None \<Rightarrow> Inr (STATUS_OK, s)
     | Some (nullptr_error what) \<Rightarrow> rbind (set_errmsg ctx what s) (\<lambda>s'. Inr (STATUS_NULLPTR_ERROR, s'))
     | Some (bad_request what) \<Rightarrow> rbind (set_errmsg ctx what s) (\<lambda>s'. Inr (STATUS_BAD_REQUEST, s'))
     | Some (std_exception what) \<Rightarrow> rbind (set_errmsg ctx what s) (\<lambda>s'. Inr (STATUS_RUNTIME_ERROR, s'))
     | Some (undefined_behaviour what) \<Rightarrow> Inl (undefined_behaviour what))"

text \<open>
  A function body in \<^verbatim>\<open>try\<close> and \<^verbatim>\<open>catch (...)\<close>. The body returns the state after its last statement
  or throws; \<open>s\<close> is the state in which the handler runs when it throws.
\<close>

definition try_catch :: "pointer \<Rightarrow> session \<Rightarrow> session result \<Rightarrow> (status_code \<times> session) result" where
  "try_catch ctx s body = (case body of
       Inr s' \<Rightarrow> Inr (STATUS_OK, s')
     | Inl e \<Rightarrow> handle_exception ctx (Some e) s)"

text \<open>The handler of the functions that free an object: \<^verbatim>\<open>catch (const std::exception&)\<close>.\<close>

definition catch_std :: "pointer \<Rightarrow> session \<Rightarrow> session result \<Rightarrow> (status_code \<times> session) result" where
  "catch_std ctx s body = (case body of
       Inr s' \<Rightarrow> Inr (STATUS_OK, s')
     | Inl (undefined_behaviour what) \<Rightarrow> Inl (undefined_behaviour what)
     | Inl (nullptr_error what) \<Rightarrow> rbind (set_errmsg ctx what s) (\<lambda>s'. Inr (STATUS_RUNTIME_ERROR, s'))
     | Inl (bad_request what) \<Rightarrow> rbind (set_errmsg ctx what s) (\<lambda>s'. Inr (STATUS_RUNTIME_ERROR, s'))
     | Inl (std_exception what) \<Rightarrow> rbind (set_errmsg ctx what s) (\<lambda>s'. Inr (STATUS_RUNTIME_ERROR, s')))"

section \<open>Handles\<close>

text \<open>The VDSs that making a handle opens, whether or not it succeeds.\<close>

definition single_opens :: "openvds \<Rightarrow> string \<Rightarrow> string \<Rightarrow> vds_handle list" where
  "single_opens v url credentials = (case Open v url credentials of Inl _ \<Rightarrow> [] | Inr handle \<Rightarrow> [handle])"

definition double_opens :: "openvds \<Rightarrow> string \<Rightarrow> string \<Rightarrow> string \<Rightarrow> string \<Rightarrow> vds_handle list" where
  "double_opens v url_A credentials_A url_B credentials_B = single_opens v url_A credentials_A @
     (case make_single_datahandle v url_A credentials_A of Inl _ \<Rightarrow> [] | Inr _ \<Rightarrow> single_opens v url_B credentials_B)"

text \<open>The end of both functions: store the handle that was made, or handle the exception.\<close>

definition new_datahandle :: "pointer \<Rightarrow> addr \<Rightarrow> vds_handle list \<Rightarrow> DataHandle result \<Rightarrow> session \<Rightarrow> (status_code \<times> session) result" where
  "new_datahandle ctx out opens made s =
     (case made of
        Inr h \<Rightarrow>
          (let (a, s') = new (Handle h) (s\<lparr>opened := opened s @ opens\<rparr>)
           in try_catch ctx s (set_pointer out (Some a) s'))
      | Inl e \<Rightarrow> try_catch ctx (s\<lparr>opened := opened s @ opens, leaked := leaked s @ opens\<rparr>) (Inl e))"

definition single_datahandle_new :: "openvds \<Rightarrow> pointer \<Rightarrow> string \<Rightarrow> string \<Rightarrow> pointer \<Rightarrow> session \<Rightarrow> (status_code \<times> session) result" where
  "single_datahandle_new v ctx url credentials ds_out s =
     (case checked ds_out ''Invalid out pointer'' of
        Inl e \<Rightarrow> try_catch ctx s (Inl e)
      | Inr out \<Rightarrow> new_datahandle ctx out (single_opens v url credentials)
          (rbind (make_single_datahandle v url credentials) (\<lambda>h. Inr (SingleData h))) s)"

definition double_datahandle_new :: "openvds \<Rightarrow> pointer \<Rightarrow> string \<Rightarrow> string \<Rightarrow> string \<Rightarrow> string \<Rightarrow> binary_operator \<Rightarrow>
    pointer \<Rightarrow> session \<Rightarrow> (status_code \<times> session) result" where
  "double_datahandle_new v ctx url_A credentials_A url_B credentials_B bin_operator datahandle s =
     (case checked datahandle ''Invalid datahandle pointer'' of
        Inl e \<Rightarrow> try_catch ctx s (Inl e)
      | Inr out \<Rightarrow> new_datahandle ctx out (double_opens v url_A credentials_A url_B credentials_B)
          (rbind (make_double_datahandle v url_A credentials_A url_B credentials_B bin_operator) (\<lambda>h. Inr (DoubleData h))) s)"

text \<open>
  \<^verbatim>\<open>OpenVDS::Close\<close> is the parameter \<open>Close\<close>; it may throw. \<open>close_run\<close> gives the VDSs that were closed.
\<close>

fun close_run :: "(vds_handle \<Rightarrow> unit result) \<Rightarrow> vds_handle list \<Rightarrow> vds_handle list \<times> unit result" where
  "close_run Close [] = ([], Inr ())"
| "close_run Close (h # hs) = (case Close h of
       Inl e \<Rightarrow> ([], Inl e)
     | Inr _ \<Rightarrow> (let (closed_now, r) = close_run Close hs in (h # closed_now, r)))"

definition datahandle_free :: "(vds_handle \<Rightarrow> unit result) \<Rightarrow> pointer \<Rightarrow> pointer \<Rightarrow> session \<Rightarrow> (status_code \<times> session) result" where
  "datahandle_free Close ctx ds s = (case ds of
       None \<Rightarrow> Inr (STATUS_OK, s)
     | Some a \<Rightarrow>
         rbind (handle_at s a) (\<lambda>h.
         let (closed_now, r) = close_run Close (close h);
             s' = s\<lparr>closed := closed s @ closed_now\<rparr>
         in catch_std ctx s' (rbind r (\<lambda>_. Inr (delete a s')))))"

section \<open>Surfaces and subvolumes\<close>

text \<open>
  The surface refers to the array of the caller. The array is used through the surface only,
  which therefore holds its contents.
\<close>

definition regular_surface_new :: "pointer \<Rightarrow> real list \<Rightarrow> nat \<Rightarrow> nat \<Rightarrow> real \<Rightarrow> real \<Rightarrow> real \<Rightarrow> real \<Rightarrow> real \<Rightarrow> real \<Rightarrow>
    pointer \<Rightarrow> session \<Rightarrow> (status_code \<times> session) result" where
  "regular_surface_new ctx data nrows ncols xori yori xinc yinc rot fillvalue out s =
     try_catch ctx s
       (rbind (checked out ''Invalid out pointer'') (\<lambda>o'.
        let (a, s') = new (Surface (make_RegularSurface data nrows ncols (make_Grid xori yori xinc yinc rot) fillvalue)) s
        in set_pointer o' (Some a) s'))"

definition regular_surface_free :: "pointer \<Rightarrow> pointer \<Rightarrow> session \<Rightarrow> (status_code \<times> session) result" where
  "regular_surface_free ctx surface s = (case surface of
       None \<Rightarrow> Inr (STATUS_OK, s)
     | Some a \<Rightarrow> catch_std ctx s (rbind (surface_at s a) (\<lambda>_. Inr (delete a s))))"

definition subvolume_new :: "pointer \<Rightarrow> pointer \<Rightarrow> pointer \<Rightarrow> pointer \<Rightarrow> pointer \<Rightarrow> pointer \<Rightarrow> session \<Rightarrow>
    (status_code \<times> session) result" where
  "subvolume_new ctx datahandle reference top_s bottom_s out s =
     try_catch ctx s
       (rbind (checked out ''Invalid out pointer'') (\<lambda>o'.
        rbind (checked datahandle ''Invalid datahandle'') (\<lambda>d.
        rbind (checked reference ''Invalid reference surface'') (\<lambda>r.
        rbind (checked top_s ''Invalid top surface'') (\<lambda>t.
        rbind (checked bottom_s ''Invalid bottom surface'') (\<lambda>b.
        rbind (handle_at s d) (\<lambda>h.
        rbind (surface_at s r) (\<lambda>reference'.
        rbind (surface_at s t) (\<lambda>top'.
        rbind (surface_at s b) (\<lambda>bottom'.
        rbind (make_subvolume (get_metadata h) reference' top' bottom') (\<lambda>sv.
        let (a, s') = new (Volume sv r t b) s in set_pointer o' (Some a) s')))))))))))"

definition subvolume_free :: "pointer \<Rightarrow> pointer \<Rightarrow> session \<Rightarrow> (status_code \<times> session) result" where
  "subvolume_free ctx subvolume s = (case subvolume of
       None \<Rightarrow> Inr (STATUS_OK, s)
     | Some a \<Rightarrow> catch_std ctx s
         (case heap s a of Some (Volume _ _ _ _) \<Rightarrow> Inr (delete a s) | _ \<Rightarrow> Inl dangling))"

section \<open>Requests\<close>

text \<open>The checks that all requests with a response make, and the use of the handle.\<close>

definition request :: "pointer \<Rightarrow> pointer \<Rightarrow> pointer \<Rightarrow> (DataHandle \<Rightarrow> payload response result) \<Rightarrow> session \<Rightarrow>
    (status_code \<times> session) result" where
  "request ctx datahandle out f s =
     try_catch ctx s
       (rbind (checked out ''Invalid out pointer'') (\<lambda>o'.
        rbind (checked datahandle ''Invalid datahandle'') (\<lambda>d.
        rbind (handle_at s d) (\<lambda>h.
        rbind (f h) (\<lambda>r. set_response o' r s)))))"

definition samples_response :: "buffer response result \<Rightarrow> payload response result" where
  "samples_response r = rbind r (\<lambda>r. Inr \<lparr>response_data = map_option Samples (response_data r), response_size = response_size r\<rparr>)"

definition text_response :: "string response result \<Rightarrow> payload response result" where
  "text_response r = rbind r (\<lambda>r. Inr \<lparr>response_data = map_option Text (response_data r), response_size = response_size r\<rparr>)"

text \<open>The loop that copies the bounds, counting with an \<^verbatim>\<open>int\<close>.\<close>

definition copy_bounds :: "Bound list \<Rightarrow> nat \<Rightarrow> Bound list result" where
  "copy_bounds bounds nbounds =
     (if \<not> int nbounds < 2 ^ 31 then Inl (undefined_behaviour ''int overflow'')
      else if nbounds \<le> length bounds then Inr (take nbounds bounds)
      else Inl (undefined_behaviour ''read outside the bounds''))"

definition capi_slice :: "openvds \<Rightarrow> pointer \<Rightarrow> pointer \<Rightarrow> int \<Rightarrow> axis_name \<Rightarrow> Bound list \<Rightarrow> nat \<Rightarrow> pointer \<Rightarrow> session \<Rightarrow>
    (status_code \<times> session) result" where
  "capi_slice v ctx datahandle lineno ax bounds nbounds out =
     request ctx datahandle out (\<lambda>h.
       rbind (copy_bounds bounds nbounds) (\<lambda>slice_bounds.
       samples_response (slice v h \<lparr>m_axis_name = ax\<rparr> lineno slice_bounds)))"

definition capi_slice_metadata :: "pointer \<Rightarrow> pointer \<Rightarrow> int \<Rightarrow> axis_name \<Rightarrow> Bound list \<Rightarrow> nat \<Rightarrow> pointer \<Rightarrow> session \<Rightarrow>
    (status_code \<times> session) result" where
  "capi_slice_metadata ctx datahandle lineno ax bounds nbounds out =
     request ctx datahandle out (\<lambda>h.
       rbind (copy_bounds bounds nbounds) (\<lambda>slice_bounds.
       text_response (slice_metadata h \<lparr>m_axis_name = ax\<rparr> lineno slice_bounds)))"

definition capi_fence :: "openvds \<Rightarrow> pointer \<Rightarrow> pointer \<Rightarrow> coordinate_system \<Rightarrow> real list \<Rightarrow> nat \<Rightarrow> interpolation_method \<Rightarrow>
    fp option \<Rightarrow> pointer \<Rightarrow> session \<Rightarrow> (status_code \<times> session) result" where
  "capi_fence v ctx datahandle system coordinates npoints interpolation fillValue out =
     request ctx datahandle out (\<lambda>h. samples_response (fence v h system coordinates npoints interpolation fillValue))"

definition capi_fence_metadata :: "pointer \<Rightarrow> pointer \<Rightarrow> nat \<Rightarrow> pointer \<Rightarrow> session \<Rightarrow> (status_code \<times> session) result" where
  "capi_fence_metadata ctx datahandle npoints out = request ctx datahandle out (\<lambda>h. text_response (fence_metadata h npoints))"

definition capi_metadata :: "pointer \<Rightarrow> pointer \<Rightarrow> pointer \<Rightarrow> session \<Rightarrow> (status_code \<times> session) result" where
  "capi_metadata ctx datahandle out = request ctx datahandle out (\<lambda>h. text_response (metadata_request h))"

definition attribute_metadata :: "pointer \<Rightarrow> pointer \<Rightarrow> nat \<Rightarrow> nat \<Rightarrow> pointer \<Rightarrow> session \<Rightarrow> (status_code \<times> session) result" where
  "attribute_metadata ctx datahandle nrows ncols out = request ctx datahandle out (\<lambda>h. text_response (attributes_metadata h nrows ncols))"

text \<open>
  The buffers of the attributes: consecutive parts of the output, one grid long each. Forming
  a pointer beyond the end of the array is undefined; a part may be cut short by the end.
\<close>

definition split_out :: "nat \<Rightarrow> nat \<Rightarrow> fp list \<Rightarrow> fp list list result" where
  "split_out mapsize nattributes out =
     (if \<not> int nattributes < 2 ^ 31 then Inl (undefined_behaviour ''int overflow'')
      else if mapsize * (nattributes - 1) \<le> length out then
        Inr (map (\<lambda>i. take mapsize (drop (mapsize * i) out)) [0..<nattributes])
      else Inl (undefined_behaviour ''pointer outside the output''))"

definition join_out :: "nat \<Rightarrow> nat \<Rightarrow> fp list list \<Rightarrow> fp list \<Rightarrow> fp list" where
  "join_out mapsize nattributes outs out = concat outs @ drop (mapsize * nattributes) out"

text \<open>Everything before the subvolume is fetched.\<close>

definition attribute_prepare :: "pointer \<Rightarrow> pointer \<Rightarrow> attribute list \<Rightarrow> nat \<Rightarrow> real \<Rightarrow> nat \<Rightarrow> nat \<Rightarrow> pointer \<Rightarrow> session \<Rightarrow>
    (addr \<times> addr \<times> DataHandle \<times> (SurfaceBoundedSubVolume \<times> addr \<times> addr \<times> addr) \<times> fp list \<times>
     ResampledSegmentBlueprint \<times> fp list list) result" where
  "attribute_prepare datahandle src_subvolume attribute_list nattributes stepsize from to out s =
     rbind (checked out ''Invalid out pointer'') (\<lambda>o'.
     rbind (checked datahandle ''Invalid datahandle'') (\<lambda>d.
     rbind (checked src_subvolume ''Invalid subvolume'') (\<lambda>p.
     rbind (guard (\<not> from \<ge> to) (std_exception ''No data to iterate over'')) (\<lambda>_.
     rbind (handle_at s d) (\<lambda>h.
     let stepsize = if stepsize = 0 then axis_stepsize (sample (get_metadata h)) else stepsize in
     rbind (make_ResampledSegmentBlueprint stepsize) (\<lambda>dst_segment_blueprint.
     rbind (volume_at s p) (\<lambda>(sv, refs).
     rbind (floats_at s o') (\<lambda>buf.
     rbind (split_out (grid_size (horizontal_grid sv)) nattributes buf) (\<lambda>outs.
     rbind (guard (nattributes \<le> length attribute_list) (undefined_behaviour ''read outside the attributes'')) (\<lambda>_.
     Inr (o', p, h, (sv, refs), buf, dst_segment_blueprint, outs)))))))))))"

text \<open>
  When the call throws half way, the storage it was writing to holds what happened to be
  written: \<open>left_data\<close> the samples of the subvolume, \<open>left_out\<close> the output.
\<close>

definition capi_attribute :: "openvds \<Rightarrow> buffer \<Rightarrow> fp list \<Rightarrow> pointer \<Rightarrow> pointer \<Rightarrow> pointer \<Rightarrow> interpolation_method \<Rightarrow>
    attribute list \<Rightarrow> nat \<Rightarrow> real \<Rightarrow> nat \<Rightarrow> nat \<Rightarrow> pointer \<Rightarrow> session \<Rightarrow> (status_code \<times> session) result" where
  "capi_attribute v left_data left_out ctx datahandle src_subvolume interpolation attribute_list nattributes stepsize from to out s =
     (case attribute_prepare datahandle src_subvolume attribute_list nattributes stepsize from to out s of
        Inl e \<Rightarrow> try_catch ctx s (Inl e)
      | Inr (o', p, h, (sv, r, t, b), buf, dst_segment_blueprint, outs) \<Rightarrow>
          (case fetch_subvolume v h sv interpolation from to of
             Inl e \<Rightarrow> try_catch ctx (store p (Volume (sv\<lparr>sv_data := left_data\<rparr>) r t b) s) (Inl e)
           | Inr sv' \<Rightarrow>
               (let s' = store p (Volume sv' r t b) s in
                case attributes v sv' dst_segment_blueprint (take nattributes attribute_list) from to outs of
                  Inl e \<Rightarrow> try_catch ctx (store o' (Floats left_out) s') (Inl e)
                | Inr outs' \<Rightarrow> try_catch ctx s' (Inr (store o' (Floats
                    (join_out (grid_size (horizontal_grid sv)) nattributes outs' buf)) s')))))"

text \<open>
  The secondary surface is read while the aligned surface is written; the function is for
  callers that pass two surfaces. \<open>left_aligned\<close> is what the aligned surface holds when the call throws
  half way.
\<close>

definition capi_align_surfaces :: "real list \<Rightarrow> pointer \<Rightarrow> pointer \<Rightarrow> pointer \<Rightarrow> pointer \<Rightarrow> pointer \<Rightarrow> session \<Rightarrow>
    (status_code \<times> session) result" where
  "capi_align_surfaces left_aligned ctx primary secondary aligned is_top s =
     (case
        rbind (checked primary ''Invalid primary surface'') (\<lambda>p.
        rbind (checked secondary ''Invalid secondary surface'') (\<lambda>q.
        rbind (checked aligned ''Invalid aligned surface'') (\<lambda>a.
        rbind (checked is_top ''Invalid primary is top pointer'') (\<lambda>i.
        rbind (surface_at s p) (\<lambda>primary'.
        rbind (surface_at s q) (\<lambda>secondary'.
        rbind (surface_at s a) (\<lambda>aligned'.
        Inr (primary', secondary', aligned', a, i)))))))) of
        Inl e \<Rightarrow> try_catch ctx s (Inl e)
      | Inr (primary', secondary', aligned', a, i) \<Rightarrow>
          (case align_surfaces primary' secondary' aligned' of
             Inl e \<Rightarrow> try_catch ctx (store a (Surface (aligned'\<lparr>m_data := left_aligned\<rparr>)) s) (Inl e)
           | Inr (aligned'', b_primary_is_top) \<Rightarrow>
               try_catch ctx s (set_integer i (if b_primary_is_top then 1 else 0) (store a (Surface aligned'') s))))"

end
