(* ===== verification/Sessions.thy ===== *)
theory Sessions
  imports Capi
begin

text \<open>
  Sequences of calls of the C interface. A session runs from an empty heap through any calls
  that keep the interface's contract; the theorems are about all sessions that can be reached:
  what a failing call changes, that every object stays well formed, and that every VDS that was
  opened is closed, held by a handle or leaked by a call that failed.
\<close>

section \<open>Calls\<close>



section \<open>Exceptions become status codes\<close>

text \<open>The status and the message of an exception.\<close>

fun status_of :: "failure \<Rightarrow> status_code" where
  "status_of (nullptr_error _) = STATUS_NULLPTR_ERROR"
| "status_of (bad_request _) = STATUS_BAD_REQUEST"
| "status_of (std_exception _) = STATUS_RUNTIME_ERROR"
| "status_of (undefined_behaviour _) = STATUS_RUNTIME_ERROR"

text \<open>\<open>s'\<close> is \<open>s\<close> but for the message in the context.\<close>

definition only_message :: "pointer \<Rightarrow> session \<Rightarrow> session \<Rightarrow> bool" where
  "only_message ctx s s' \<longleftrightarrow> next_addr s' = next_addr s \<and> opened s' = opened s \<and> closed s' = closed s \<and> leaked s' = leaked s \<and>
     (\<forall>a. ctx \<noteq> Some a \<longrightarrow> heap s' a = heap s a) \<and>
     (\<forall>a. ctx = Some a \<longrightarrow> (\<exists>e e'. heap s a = Some (Context e) \<and> heap s' a = Some (Context e')))"

lemma set_errmsg_only: "set_errmsg ctx what s = Inr s' \<Longrightarrow> only_message ctx s s'"
  by (auto simp: set_errmsg_def only_message_def store_def split: option.splits object.splits)

lemma handle_exception_only:
  "handle_exception ctx (Some e) s = Inr (st, s') \<Longrightarrow> st = status_of e \<and> st \<noteq> STATUS_OK \<and> only_message ctx s s'"
  by (cases e) (auto simp: handle_exception_def dest: set_errmsg_only)

lemma try_catch_cases:
  assumes "try_catch ctx s body = Inr (st, s')"
  obtains "body = Inr s'" "st = STATUS_OK" | e where "body = Inl e" "st = status_of e" "st \<noteq> STATUS_OK" "only_message ctx s s'"
  using assms handle_exception_only[of ctx _ s st s'] by (auto simp: try_catch_def split: sum.splits)

lemma catch_std_cases:
  assumes "catch_std ctx s body = Inr (st, s')"
  obtains "body = Inr s'" "st = STATUS_OK" | e where "body = Inl e" "st = STATUS_RUNTIME_ERROR" "only_message ctx s s'"
  using assms set_errmsg_only[of ctx _ s s'] by (auto simp: catch_std_def split: sum.splits failure.splits)

lemmas catch_elims = try_catch_cases catch_std_cases

section \<open>What a failing call changes\<close>


text \<open>Nothing was allocated or freed, and nothing outside \<open>A\<close> was written.\<close>

definition unchanged_outside :: "addr set \<Rightarrow> session \<Rightarrow> session \<Rightarrow> bool" where
  "unchanged_outside A s s' \<longleftrightarrow> next_addr s' = next_addr s \<and> dom (heap s') = dom (heap s) \<and>
     (\<forall>a. a \<notin> A \<longrightarrow> heap s' a = heap s a)"






lemma unchanged_refl [simp]: "unchanged_outside A s s"
  by (simp add: unchanged_outside_def)

lemma unchanged_logs [simp]:
  "unchanged_outside A s (s\<lparr>opened := x\<rparr>)" "unchanged_outside A s (s\<lparr>closed := x\<rparr>)" "unchanged_outside A s (s\<lparr>opened := x, leaked := y\<rparr>)"
  by (simp_all add: unchanged_outside_def)







section \<open>Properties of failing calls\<close>



section \<open>Well-formed sessions\<close>

text \<open>
  A handle has well-formed metadata and, when it combines two VDSs, one of the four operators.
  A surface that a subvolume refers to is the one it was made from as long as it exists. The
  size of a response that holds text is the length of the text.
\<close>

fun handle_ok :: "DataHandle \<Rightarrow> bool" where
  "handle_ok (SingleData h) \<longleftrightarrow> wf_metadata (get_metadata (SingleData h))"
| "handle_ok (DoubleData h) \<longleftrightarrow> wf_metadata (get_metadata (DoubleData h)) \<and>
     m_binary_operator h \<in> {inplace_addition, inplace_subtraction, inplace_multiplication, inplace_division}"

definition refers :: "session \<Rightarrow> addr \<Rightarrow> RegularSurface \<Rightarrow> bool" where
  "refers s r x \<longleftrightarrow> r < next_addr s \<and> (\<forall>y. heap s r = Some y \<longrightarrow> y = Surface x)"

fun object_ok :: "session \<Rightarrow> object \<Rightarrow> bool" where
  "object_ok s (Handle h) \<longleftrightarrow> handle_ok h"
| "object_ok s (Surface x) \<longleftrightarrow> wf_surface x \<and> surface_size x < 2 ^ 31"
| "object_ok s (Volume sv r t b) \<longleftrightarrow> (\<exists>a. wf_subvolume a sv) \<and> refers s r (m_ref sv) \<and> refers s t (m_top sv) \<and> refers s b (m_bottom sv)"
| "object_ok s (Response r) \<longleftrightarrow> (case response_data r of
       None \<Rightarrow> response_size r = 0
     | Some (Text t) \<Rightarrow> response_size r = length t
     | Some (Samples _) \<Rightarrow> True)"
| "object_ok s _ \<longleftrightarrow> True"

definition session_ok :: "session \<Rightarrow> bool" where
  "session_ok s \<longleftrightarrow> (\<forall>a x. heap s a = Some x \<longrightarrow> a < next_addr s \<and> object_ok s x)"










lemma object_ok_logs [simp]:
  "object_ok (s\<lparr>opened := x\<rparr>) y = object_ok s y" "object_ok (s\<lparr>closed := x\<rparr>) y = object_ok s y"
  "object_ok (s\<lparr>opened := x, leaked := z\<rparr>) y = object_ok s y"
  by (cases y; simp add: refers_def)+

lemma session_ok_logs [simp]:
  "session_ok (s\<lparr>opened := x\<rparr>) = session_ok s" "session_ok (s\<lparr>closed := x\<rparr>) = session_ok s"
  "session_ok (s\<lparr>opened := x, leaked := z\<rparr>) = session_ok s"
  by (simp_all add: session_ok_def)





section \<open>The objects the calls make\<close>


















section \<open>Sessions\<close>











section \<open>Open and closed VDSs\<close>

fun vds_of :: "object option \<Rightarrow> vds_handle multiset" where
  "vds_of (Some (Handle h)) = mset (close h)"
| "vds_of _ = {#}"

text \<open>The VDSs of the handles that exist.\<close>

definition held :: "session \<Rightarrow> vds_handle multiset" where
  "held s = (\<Sum>a<next_addr s. vds_of (heap s a))"


text \<open>Steps without effect on handles.\<close>

definition quiet :: "session \<Rightarrow> session \<Rightarrow> bool" where
  "quiet s s' \<longleftrightarrow> next_addr s \<le> next_addr s' \<and> opened s' = opened s \<and> closed s' = closed s \<and> leaked s' = leaked s \<and>
     (\<forall>a. vds_of (heap s' a) = vds_of (heap s a))"

lemma quiet_refl [simp]: "quiet s s"
  by (simp add: quiet_def)
























section \<open>A concrete session\<close>


lemma example_single_open:
  "Open example_vds ''vds'' cred = Inr (m_handle example_data)" "make_single_datahandle example_vds ''vds'' cred = Inr example_data"
  by (simp_all add: make_single_datahandle_def make_SingleDataHandle_def example_vds_def example_data_def)
    (use example_single_create in \<open>simp add: example_vds_def\<close>)


section \<open>Properties of sessions\<close>





text \<open>C38: A failure to open the second VDS of a combination leaks the first: the call returns an
  error and the caller gets no handle, but the first VDS has been opened, it is not closed,
  and it belongs to no handle that could close it.\<close>

theorem second_open_failure_leaks:
  assumes "Open v url_A cred_A = Inr vds" and "make_single_datahandle v url_A cred_A = Inr h" and "Open v url_B cred_B = Inl err"
    and "heap s a = Some (Context e)"
  shows "\<exists>s'. double_datahandle_new v (Some a) url_A cred_A url_B cred_B bin (Some out) s = Inr (STATUS_RUNTIME_ERROR, s') \<and>
    errmsg (Some a) s' = Inr (Some (''Could not open VDS: '' @ err)) \<and>
    opened s' = opened s @ [vds] \<and> closed s' = closed s \<and> held s' = held s"
proof -
  let ?s = "s\<lparr>opened := opened s @ [vds], leaked := leaked s @ [vds]\<rparr>"
  have "double_opens v url_A cred_A url_B cred_B = [vds]" using assms(1-3) by (simp add: double_opens_def single_opens_def)
  moreover have "make_single_datahandle v url_B cred_B = Inl (std_exception (''Could not open VDS: '' @ err))"
    using assms(3) by (simp add: make_single_datahandle_def)
  ultimately have "double_datahandle_new v (Some a) url_A cred_A url_B cred_B bin (Some out) s =
      Inr (STATUS_RUNTIME_ERROR, store a (Context (''Could not open VDS: '' @ err)) ?s)"
    using assms(2,4) by (simp add: double_datahandle_new_def checked_def make_double_datahandle_def new_datahandle_def
        try_catch_def handle_exception_def set_errmsg_def)
  moreover have "held (store a (Context (''Could not open VDS: '' @ err)) ?s) = held s"
    using assms(4) unfolding held_def by (intro sum.cong) (auto simp: store_def)
  ultimately show ?thesis by (simp add: errmsg_def store_def)
qed

theorem second_open_failure_leaks_witness:
  "\<exists>s'. double_datahandle_new example_vds (Some 0) ''vds'' [] ''other'' [] ADDITION (Some 1)
      \<lparr>heap = [0 \<mapsto> Context [], 1 \<mapsto> Pointer None], next_addr = 2, opened = [], closed = [], leaked = []\<rparr> = Inr (STATUS_RUNTIME_ERROR, s') \<and>
    errmsg (Some 0) s' = Inr (Some ''Could not open VDS: File not found'') \<and> opened s' = [m_handle example_data] \<and> closed s' = []"
proof -
  have "Open example_vds ''other'' [] = Inl ''File not found''" by (simp add: example_vds_def)
  from second_open_failure_leaks[OF example_single_open(1)[of "[]"] example_single_open(2) this,
      where s = "\<lparr>heap = [0 \<mapsto> Context [], 1 \<mapsto> Pointer None], next_addr = 2, opened = [], closed = [], leaked = []\<rparr>"
        and a = 0 and e = "[]" and bin = ADDITION and out = 1]
  show ?thesis by auto
qed

end
