(* ===== verification/Parallel.thy ===== *)
theory Parallel
  imports Sessions
begin

text \<open>
  The attributes of a whole surface (\<^verbatim>\<open>core_attributes.go\<close>): the grid points are split into
  chunks, and goroutines call \<^verbatim>\<open>attribute\<close> of the C interface for one chunk each, on one subvolume
  and one output buffer that all of them share. The scheduler is a step relation in which any
  goroutine may move next. The theorems: the chunks cover the grid, no schedule blocks or runs
  forever, every schedule computes what one sequential call would, and no error is lost.
\<close>

section \<open>The chunks\<close>

definition go_min :: "nat \<Rightarrow> nat \<Rightarrow> nat" where
  "go_min a b = (if a < b then a else b)"

definition go_max :: "nat \<Rightarrow> nat \<Rightarrow> nat" where
  "go_max a b = (if a > b then a else b)"

text \<open>The bounds of the goroutines that the loop starts; \<open>None\<close> if it never ends.\<close>

partial_function (option) chunk_loop :: "nat \<Rightarrow> nat \<Rightarrow> nat \<Rightarrow> nat \<Rightarrow> (nat \<times> nat) list option" where
  "chunk_loop hsize chunkSize from to =
     (if from < hsize then
        Option.bind (chunk_loop hsize chunkSize (from + chunkSize) (go_min (to + chunkSize) hsize)) (\<lambda>rest. Some ((from, to) # rest))
      else Some [])"

definition chunk_size :: "nat \<Rightarrow> nat" where
  "chunk_size nrows = go_max nrows 1"

definition chunks :: "nat \<Rightarrow> nat \<Rightarrow> (nat \<times> nat) list option" where
  "chunks nrows ncols = chunk_loop (nrows * ncols) (chunk_size nrows) 0 (0 + chunk_size nrows)"

section \<open>The pool of goroutines\<close>

text \<open>What all goroutines of one request share without changing it.\<close>

record job =
  job_vds :: openvds
  job_handle :: DataHandle
  job_interpolation :: interpolation_method
  job_attributes :: "attribute list"
  job_stepsize :: real
  job_chunks :: "(nat \<times> nat) list"
  job_routines :: nat
  job_capacity :: nat

definition make_job :: "openvds \<Rightarrow> DataHandle \<Rightarrow> interpolation_method \<Rightarrow> attribute list \<Rightarrow> real \<Rightarrow> nat \<Rightarrow> nat \<Rightarrow> job option" where
  "make_job v h interpolation attribute_list stepsize nrows ncols =
     map_option (\<lambda>cs. \<lparr>job_vds = v, job_handle = h, job_interpolation = interpolation, job_attributes = attribute_list,
       job_stepsize = stepsize, job_chunks = cs, job_routines = go_max (nrows div 2) 1,
       job_capacity = nrows * ncols div chunk_size nrows + 1\<rparr>) (chunks nrows ncols)"

text \<open>
  A goroutine: inside \<^verbatim>\<open>attribute\<close> before and after the subvolume has been fetched, after the call has
  returned, after the result has been sent, and after the slot has been given back.
\<close>

datatype phase = Running | Fetched | Returned status_code | Sent status_code | Finished status_code

text \<open>
  The shared subvolume and output, the goroutines started so far, the number of slots taken
  in the channel \<^verbatim>\<open>guard\<close>, the contents of the channel \<^verbatim>\<open>errs\<close> and what has been received from it.
\<close>

record pool =
  pool_volume :: SurfaceBoundedSubVolume
  pool_buffer :: "fp list"
  pool_phases :: "phase list"
  pool_guard :: nat
  pool_errs :: "status_code list"
  pool_received :: "status_code list"

definition start_pool :: "job \<Rightarrow> SurfaceBoundedSubVolume \<Rightarrow> pool" where
  "start_pool j sv = \<lparr>pool_volume = sv,
     pool_buffer = replicate (grid_size (horizontal_grid sv) * length (job_attributes j)) (Fin 0),
     pool_phases = [], pool_guard = 0, pool_errs = [], pool_received = []\<rparr>"

text \<open>The two parts of a call of \<^verbatim>\<open>attribute\<close> for one chunk: up to the end of \<^verbatim>\<open>fetch_subvolume\<close>, and the rest.\<close>

definition chunk_prepare :: "job \<Rightarrow> SurfaceBoundedSubVolume \<Rightarrow> fp list \<Rightarrow> nat \<Rightarrow> nat \<Rightarrow>
    (ResampledSegmentBlueprint \<times> fp list list) result" where
  "chunk_prepare j sv buf from to =
     rbind (guard (\<not> from \<ge> to) (std_exception ''No data to iterate over'')) (\<lambda>_.
     rbind (make_ResampledSegmentBlueprint
       (if job_stepsize j = 0 then axis_stepsize (sample (get_metadata (job_handle j))) else job_stepsize j)) (\<lambda>bp.
     rbind (split_out (grid_size (horizontal_grid sv)) (length (job_attributes j)) buf) (\<lambda>outs.
     Inr (bp, outs))))"

definition chunk_fetch :: "job \<Rightarrow> nat \<Rightarrow> nat \<Rightarrow> SurfaceBoundedSubVolume \<Rightarrow> fp list \<Rightarrow> SurfaceBoundedSubVolume result" where
  "chunk_fetch j from to sv buf =
     rbind (chunk_prepare j sv buf from to) (\<lambda>_.
     fetch_subvolume (job_vds j) (job_handle j) sv (job_interpolation j) from to)"

definition chunk_compute :: "job \<Rightarrow> nat \<Rightarrow> nat \<Rightarrow> SurfaceBoundedSubVolume \<Rightarrow> fp list \<Rightarrow> fp list result" where
  "chunk_compute j from to sv buf =
     rbind (chunk_prepare j sv buf from to) (\<lambda>(bp, outs).
     rbind (attributes (job_vds j) sv bp (job_attributes j) from to outs) (\<lambda>outs'.
     Inr (join_out (grid_size (horizontal_grid sv)) (length (job_attributes j)) outs' buf)))"

fun is_exception :: "failure \<Rightarrow> bool" where
  "is_exception (undefined_behaviour _) = False"
| "is_exception _ = True"

inductive go_step :: "job \<Rightarrow> pool \<Rightarrow> pool \<Rightarrow> bool" for j where
  spawn: "length (pool_phases p) < length (job_chunks j) \<Longrightarrow> pool_guard p < job_routines j \<Longrightarrow>
    go_step j p (p\<lparr>pool_phases := pool_phases p @ [Running], pool_guard := pool_guard p + 1\<rparr>)"
| fetch: "i < length (pool_phases p) \<Longrightarrow> pool_phases p ! i = Running \<Longrightarrow> job_chunks j ! i = (from, to) \<Longrightarrow>
    chunk_fetch j from to (pool_volume p) (pool_buffer p) = Inr sv \<Longrightarrow>
    go_step j p (p\<lparr>pool_volume := sv, pool_phases := (pool_phases p)[i := Fetched]\<rparr>)"
| fetch_error: "i < length (pool_phases p) \<Longrightarrow> pool_phases p ! i = Running \<Longrightarrow> job_chunks j ! i = (from, to) \<Longrightarrow>
    chunk_fetch j from to (pool_volume p) (pool_buffer p) = Inl e \<Longrightarrow> is_exception e \<Longrightarrow>
    length left_data = length (sv_data (pool_volume p)) \<Longrightarrow>
    go_step j p (p\<lparr>pool_volume := (pool_volume p)\<lparr>sv_data := left_data\<rparr>, pool_phases := (pool_phases p)[i := Returned (status_of e)]\<rparr>)"
| compute: "i < length (pool_phases p) \<Longrightarrow> pool_phases p ! i = Fetched \<Longrightarrow> job_chunks j ! i = (from, to) \<Longrightarrow>
    chunk_compute j from to (pool_volume p) (pool_buffer p) = Inr buf \<Longrightarrow>
    go_step j p (p\<lparr>pool_buffer := buf, pool_phases := (pool_phases p)[i := Returned STATUS_OK]\<rparr>)"
| compute_error: "i < length (pool_phases p) \<Longrightarrow> pool_phases p ! i = Fetched \<Longrightarrow> job_chunks j ! i = (from, to) \<Longrightarrow>
    chunk_compute j from to (pool_volume p) (pool_buffer p) = Inl e \<Longrightarrow> is_exception e \<Longrightarrow>
    length left_out = length (pool_buffer p) \<Longrightarrow>
    go_step j p (p\<lparr>pool_buffer := left_out, pool_phases := (pool_phases p)[i := Returned (status_of e)]\<rparr>)"
| send: "i < length (pool_phases p) \<Longrightarrow> pool_phases p ! i = Returned st \<Longrightarrow> length (pool_errs p) < job_capacity j \<Longrightarrow>
    go_step j p (p\<lparr>pool_errs := pool_errs p @ [st], pool_phases := (pool_phases p)[i := Sent st]\<rparr>)"
| release: "i < length (pool_phases p) \<Longrightarrow> pool_phases p ! i = Sent st \<Longrightarrow>
    go_step j p (p\<lparr>pool_guard := pool_guard p - 1, pool_phases := (pool_phases p)[i := Finished st]\<rparr>)"
| receive: "length (pool_phases p) = length (job_chunks j) \<Longrightarrow> length (pool_received p) < length (job_chunks j) \<Longrightarrow>
    pool_errs p = st # rest \<Longrightarrow>
    go_step j p (p\<lparr>pool_errs := rest, pool_received := pool_received p @ [st]\<rparr>)"

inductive_cases go_stepE: "go_step j p p'"

text \<open>The end: all goroutines have been started and one result has been received for each.\<close>

definition pool_final :: "job \<Rightarrow> pool \<Rightarrow> bool" where
  "pool_final j p \<longleftrightarrow> length (pool_phases p) = length (job_chunks j) \<and> length (pool_received p) = length (job_chunks j)"

text \<open>What \<^verbatim>\<open>getAttributes\<close> returns then: the first error, or one map per attribute.\<close>

definition pool_result :: "job \<Rightarrow> pool \<Rightarrow> status_code + fp list list" where
  "pool_result j p = (case filter (\<lambda>st. st \<noteq> STATUS_OK) (pool_received p) of
       st # _ \<Rightarrow> Inl st
     | [] \<Rightarrow> (let mapsize = grid_size (horizontal_grid (pool_volume p)) in
         Inr (map (\<lambda>i. take mapsize (drop (i * mapsize) (pool_buffer p))) [0..<length (job_attributes j)])))"

text \<open>A call that has no defined behaviour.\<close>

definition pool_undefined :: "job \<Rightarrow> pool \<Rightarrow> bool" where
  "pool_undefined j p \<longleftrightarrow> (\<exists>i<length (pool_phases p). case job_chunks j ! i of (from, to) \<Rightarrow>
     pool_phases p ! i = Running \<and> (\<exists>e. chunk_fetch j from to (pool_volume p) (pool_buffer p) = Inl e \<and> \<not> is_exception e) \<or>
     pool_phases p ! i = Fetched \<and> (\<exists>e. chunk_compute j from to (pool_volume p) (pool_buffer p) = Inl e \<and> \<not> is_exception e))"

section \<open>Lemmas on chunks\<close>

lemma chunk_loop_done: "hsize \<le> from \<Longrightarrow> chunk_loop hsize c from to = Some []"
  by (subst chunk_loop.simps) simp

lemma chunk_loop_more:
  "from < hsize \<Longrightarrow> chunk_loop hsize c from to =
    Option.bind (chunk_loop hsize c (from + c) (go_min (to + c) hsize)) (\<lambda>rest. Some ((from, to) # rest))"
  by (subst chunk_loop.simps) simp

text \<open>The loop from a state in which \<open>to\<close> is one chunk ahead of \<open>from\<close> or at the end.\<close>

lemma chunk_loop_ok:
  assumes "0 < c" and "u = min (l + c) hsize"
  shows "\<exists>cs. chunk_loop hsize c l u = Some cs \<and> concat (map (\<lambda>(f, t). [f..<t]) cs) = [l..<hsize] \<and>
    list_all (\<lambda>(f, t). f < t \<and> t \<le> hsize) cs \<and> c * length cs < hsize - l + c"
  using assms(2)
proof (induction "hsize - l" arbitrary: l u rule: less_induct)
  case less
  show ?case
  proof (cases "l < hsize")
    case False
    then show ?thesis using assms(1) by (simp add: chunk_loop_done)
  next
    case True
    have u': "go_min (u + c) hsize = min (l + c + c) hsize" using less.prems True by (auto simp: go_min_def)
    have "hsize - (l + c) < hsize - l" using True assms(1) by simp
    from less.hyps[OF this u'] obtain cs where cs: "chunk_loop hsize c (l + c) (go_min (u + c) hsize) = Some cs"
      "concat (map (\<lambda>(f, t). [f..<t]) cs) = [l + c..<hsize]" "list_all (\<lambda>(f, t). f < t \<and> t \<le> hsize) cs"
      "c * length cs < hsize - (l + c) + c"
      by blast
    have "[l..<u] @ [l + c..<hsize] = [l..<hsize]"
    proof (cases "l + c \<le> hsize")
      case True
      then show ?thesis using less.prems upt_add_eq_append[of "l" "l + c" "hsize - (l + c)"] by simp
    next
      case False
      then show ?thesis using less.prems by simp
    qed
    moreover have "c * length ((l, u) # cs) < hsize - l + c"
      using cs(4) True by (cases cs) (auto simp: less_diff_conv)
    ultimately show ?thesis
      using cs True assms(1) less.prems by (simp add: chunk_loop_more)
  qed
qed

lemma chunks_ok:
  obtains cs where "chunks nrows ncols = Some cs" and "concat (map (\<lambda>(f, t). [f..<t]) cs) = [0..<nrows * ncols]"
    and "list_all (\<lambda>(f, t). f < t \<and> t \<le> nrows * ncols) cs" and "length cs \<le> nrows * ncols div chunk_size nrows + 1"
proof (cases "nrows * ncols = 0")
  case True
  then show ?thesis using that[of "[]"] by (simp add: chunks_def chunk_loop_done)
next
  case False
  let ?c = "chunk_size nrows"
  have "nrows \<le> nrows * ncols" using False by (cases ncols) auto
  then have c: "0 < ?c" "?c = min (0 + ?c) (nrows * ncols)" using False by (auto simp: chunk_size_def go_max_def)
  from chunk_loop_ok[OF c] obtain cs where cs: "chunks nrows ncols = Some cs" "concat (map (\<lambda>(f, t). [f..<t]) cs) = [0..<nrows * ncols]"
    "list_all (\<lambda>(f, t). f < t \<and> t \<le> nrows * ncols) cs" "?c * length cs < nrows * ncols + ?c"
    by (auto simp: chunks_def)
  have "length cs * ?c < Suc (nrows * ncols div ?c + 1) * ?c"
    using cs(4) dividend_less_div_times[OF c(1), of "nrows * ncols"] by (simp add: mult.commute)
  then have "length cs \<le> nrows * ncols div ?c + 1" by (simp only: mult_less_cancel2 less_Suc_eq_le)
  with cs show ?thesis using that by blast
qed

text \<open>Chunks of a list of grid points are disjoint.\<close>

lemma concat_unique:
  assumes "distinct (concat xss)" and "i < length xss" and "k < length xss" and "x \<in> set (xss ! i)" and "x \<in> set (xss ! k)"
  shows "i = k"
  using assms
proof (induction xss arbitrary: i k)
  case (Cons xs xss)
  have "set xs \<inter> set (concat xss) = {}" using Cons.prems(1) by simp
  moreover have "x \<in> set (concat xss)" if "n < length xss" "x \<in> set (xss ! n)" for n
    using that nth_mem[OF that(1)] by (simp only: set_concat) blast
  ultimately show ?case using Cons.prems Cons.IH[of "i - 1" "k - 1"]
    by (cases i; cases k) (auto simp del: set_concat)
qed simp

section \<open>Lemmas on schedules\<close>

text \<open>The status that a goroutine has sent.\<close>

fun sent_status :: "phase \<Rightarrow> status_code option" where
  "sent_status (Sent st) = Some st"
| "sent_status (Finished st) = Some st"
| "sent_status _ = None"

fun finished :: "phase \<Rightarrow> bool" where
  "finished (Finished _) = True"
| "finished _ = False"

text \<open>
  The channels and the goroutines agree: the slots taken are those of the goroutines that have
  not finished, and the results sent are in the channel or have been received.
\<close>

definition statuses :: "phase list \<Rightarrow> status_code multiset" where
  "statuses ps = (\<Sum>ph\<leftarrow>ps. case sent_status ph of None \<Rightarrow> {#} | Some st \<Rightarrow> {#st#})"

definition working :: "phase list \<Rightarrow> nat" where
  "working ps = (\<Sum>ph\<leftarrow>ps. if finished ph then 0 else 1)"

definition pool_ok :: "job \<Rightarrow> pool \<Rightarrow> bool" where
  "pool_ok j p \<longleftrightarrow> length (pool_phases p) \<le> length (job_chunks j) \<and> pool_guard p = working (pool_phases p) \<and>
     mset (pool_errs p @ pool_received p) = statuses (pool_phases p)"

lemma sum_list_update_add:
  fixes f :: "'a \<Rightarrow> 'b :: comm_monoid_add"
  assumes "i < length xs"
  shows "(\<Sum>x\<leftarrow>xs[i := y]. f x) + f (xs ! i) = (\<Sum>x\<leftarrow>xs. f x) + f y"
  using assms by (induction xs arbitrary: i) (auto simp: ac_simps split: nat.splits)

lemma working_update:
  "i < length ps \<Longrightarrow> working (ps[i := ph]) + (if finished (ps ! i) then 0 else 1) = working ps + (if finished ph then 0 else 1)"
  unfolding working_def by (rule sum_list_update_add)

lemma statuses_update:
  "i < length ps \<Longrightarrow> statuses (ps[i := ph]) + (case sent_status (ps ! i) of None \<Rightarrow> {#} | Some st \<Rightarrow> {#st#}) =
    statuses ps + (case sent_status ph of None \<Rightarrow> {#} | Some st \<Rightarrow> {#st#})"
  unfolding statuses_def by (rule sum_list_update_add)

lemma go_step_ok: "go_step j p p' \<Longrightarrow> pool_ok j p \<Longrightarrow> pool_ok j p'"
proof (induction rule: go_step.induct)
  case (spawn p)
  then show ?case by (simp add: pool_ok_def working_def statuses_def)
next
  case (send i p st)
  then show ?case using working_update[of i "pool_phases p" "Sent st"] statuses_update[of i "pool_phases p" "Sent st"]
    by (simp add: pool_ok_def)
next
  case (release i p st)
  then show ?case using working_update[of i "pool_phases p" "Finished st"] statuses_update[of i "pool_phases p" "Finished st"]
    by (simp add: pool_ok_def)
next
  case (fetch i p l u sv)
  then show ?case using working_update[of i "pool_phases p" Fetched] statuses_update[of i "pool_phases p" Fetched] by (simp add: pool_ok_def)
next
  case (fetch_error i p l u e d)
  then show ?case using working_update[of i "pool_phases p" "Returned (status_of e)"] statuses_update[of i "pool_phases p" "Returned (status_of e)"]
    by (simp add: pool_ok_def)
next
  case (compute i p l u buf)
  then show ?case using working_update[of i "pool_phases p" "Returned STATUS_OK"] statuses_update[of i "pool_phases p" "Returned STATUS_OK"]
    by (simp add: pool_ok_def)
next
  case (compute_error i p l u e d)
  then show ?case using working_update[of i "pool_phases p" "Returned (status_of e)"] statuses_update[of i "pool_phases p" "Returned (status_of e)"]
    by (simp add: pool_ok_def)
next
  case (receive p st rest)
  then show ?case by (simp add: pool_ok_def)
qed

lemma reachable_pool_ok: "(go_step j)\<^sup>*\<^sup>* (start_pool j sv) p \<Longrightarrow> pool_ok j p"
proof (induction rule: rtranclp_induct)
  case base
  show ?case by (simp add: pool_ok_def start_pool_def working_def statuses_def)
qed (rule go_step_ok)

text \<open>The amount of work done, which every step increases.\<close>

fun rank :: "phase \<Rightarrow> nat" where
  "rank Running = 1"
| "rank Fetched = 2"
| "rank (Returned _) = 3"
| "rank (Sent _) = 4"
| "rank (Finished _) = 5"

definition work :: "pool \<Rightarrow> nat" where
  "work p = (\<Sum>ph\<leftarrow>pool_phases p. rank ph) + length (pool_received p)"

lemma rank_update: "i < length ps \<Longrightarrow> (\<Sum>x\<leftarrow>ps[i := ph]. rank x) + rank (ps ! i) = (\<Sum>x\<leftarrow>ps. rank x) + rank ph"
  by (rule sum_list_update_add)

lemma work_update:
  "i < length (pool_phases p) \<Longrightarrow> rank (pool_phases p ! i) < rank ph \<Longrightarrow> pool_phases p' = (pool_phases p)[i := ph] \<Longrightarrow>
    pool_received p' = pool_received p \<Longrightarrow> work p < work p'"
  using rank_update[of i "pool_phases p" ph] by (simp add: work_def)

lemma go_step_work: "go_step j p p' \<Longrightarrow> work p < work p'"
proof (induction rule: go_step.induct)
  case (spawn p)
  then show ?case by (simp add: work_def)
next
  case (receive p st rest)
  then show ?case by (simp add: work_def)
qed (rule work_update, assumption, simp_all)+

lemma work_bound:
  assumes "pool_ok j p" and "length (pool_received p) \<le> length (job_chunks j)"
  shows "work p \<le> 6 * length (job_chunks j)"
proof -
  have "rank ph \<le> 5" for ph by (cases ph) simp_all
  then have "(\<Sum>ph\<leftarrow>pool_phases p. rank ph) \<le> (\<Sum>ph\<leftarrow>pool_phases p. 5)" by (intro sum_list_mono) simp
  then show ?thesis using assms by (simp add: work_def pool_ok_def sum_list_triv)
qed

lemma size_statuses: "size (statuses ps) = length (filter (\<lambda>ph. sent_status ph \<noteq> None) ps)"
  by (induction ps) (auto simp: statuses_def split: option.splits)

lemma received_bound: "pool_ok j p \<Longrightarrow> length (pool_errs p) + length (pool_received p) \<le> length (pool_phases p)"
  using size_statuses[of "pool_phases p"] length_filter_le[of "\<lambda>ph. sent_status ph \<noteq> None" "pool_phases p"]
  by (metis pool_ok_def length_append size_mset)

text \<open>Some goroutine can move, or the main function can.\<close>

lemma go_step_progress:
  assumes ok: "pool_ok j p" and cap: "length (job_chunks j) \<le> job_capacity j" and "0 < job_routines j"
    and "\<not> pool_final j p" and "\<not> pool_undefined j p"
  shows "\<exists>p'. go_step j p p'"
proof (cases "\<exists>i<length (pool_phases p). \<not> finished (pool_phases p ! i)")
  case True
  then obtain i where i: "i < length (pool_phases p)" "\<not> finished (pool_phases p ! i)" by blast
  obtain l u where lu: "job_chunks j ! i = (l, u)" by (cases "job_chunks j ! i")
  show ?thesis
  proof (cases "pool_phases p ! i")
    case Running
    show ?thesis
    proof (cases "chunk_fetch j l u (pool_volume p) (pool_buffer p)")
      case (Inl e)
      then have "is_exception e" using assms(5) i(1) lu Running by (auto simp: pool_undefined_def)
      then show ?thesis using go_step.fetch_error[OF i(1) Running lu Inl _ refl] by blast
    next
      case (Inr sv)
      then show ?thesis using go_step.fetch[OF i(1) Running lu Inr] by blast
    qed
  next
    case Fetched
    show ?thesis
    proof (cases "chunk_compute j l u (pool_volume p) (pool_buffer p)")
      case (Inl e)
      then have "is_exception e" using assms(5) i(1) lu Fetched by (auto simp: pool_undefined_def)
      then show ?thesis using go_step.compute_error[OF i(1) Fetched lu Inl _ refl] by blast
    next
      case (Inr buf)
      then show ?thesis using go_step.compute[OF i(1) Fetched lu Inr] by blast
    qed
  next
    case (Returned st)
    have "length (filter (\<lambda>ph. sent_status ph \<noteq> None) (pool_phases p)) < length (pool_phases p)"
      using nth_mem[OF i(1)] Returned by (intro length_filter_less[of "pool_phases p ! i"]) auto
    then have "length (pool_errs p) < length (pool_phases p)"
      using ok size_statuses[of "pool_phases p"] by (metis pool_ok_def length_append size_mset add_lessD1)
    then have "length (pool_errs p) < job_capacity j" using ok cap by (simp add: pool_ok_def)
    then show ?thesis using go_step.send[OF i(1) Returned] by blast
  next
    case (Sent st)
    then show ?thesis using go_step.release[OF i(1) Sent] by blast
  next
    case (Finished st)
    then show ?thesis using i(2) by simp
  qed
next
  case False
  then have fin: "\<forall>ph\<in>set (pool_phases p). finished ph" by (auto simp: in_set_conv_nth)
  then have guard: "pool_guard p = 0"
    using ok by (auto simp: pool_ok_def working_def sum_list_eq_0_iff)
  show ?thesis
  proof (cases "length (pool_phases p) < length (job_chunks j)")
    case True
    then show ?thesis using go_step.spawn[OF True] guard assms(3) by auto
  next
    case all: False
    then have n: "length (pool_phases p) = length (job_chunks j)" using ok by (simp add: pool_ok_def)
    have "filter (\<lambda>ph. sent_status ph \<noteq> None) (pool_phases p) = pool_phases p"
      using fin by (intro filter_True) (auto elim!: finished.elims)
    then have "length (pool_errs p) + length (pool_received p) = length (pool_phases p)"
      using ok size_statuses[of "pool_phases p"] by (metis pool_ok_def length_append size_mset)
    moreover have "length (pool_received p) \<noteq> length (job_chunks j)" using assms(4) n by (simp add: pool_final_def)
    ultimately have "length (pool_received p) < length (job_chunks j)" "pool_errs p \<noteq> []" using n by auto
    then show ?thesis using go_step.receive[OF n] by (cases "pool_errs p") auto
  qed
qed

section \<open>Lemmas on the shared storage\<close>

lemma layout_data [simp]:
  "is_empty (sv\<lparr>sv_data := d\<rparr>) i = is_empty sv i" "offset_at (sv\<lparr>sv_data := d\<rparr>) i = offset_at sv i"
  "sv_fillvalue (sv\<lparr>sv_data := d\<rparr>) = sv_fillvalue sv" "horizontal_grid (sv\<lparr>sv_data := d\<rparr>) = horizontal_grid sv"
  "top_margin (sv\<lparr>sv_data := d\<rparr>) i = top_margin sv i" "segment_voxels v m (sv\<lparr>sv_data := d\<rparr>) i = segment_voxels v m sv i"
proof -
  show t: "top_margin (sv\<lparr>sv_data := d\<rparr>) i = top_margin sv i" by (cases "m_segment_top_margins sv i") (simp_all add: top_margin_def)
  show "is_empty (sv\<lparr>sv_data := d\<rparr>) i = is_empty sv i" "offset_at (sv\<lparr>sv_data := d\<rparr>) i = offset_at sv i"
    "sv_fillvalue (sv\<lparr>sv_data := d\<rparr>) = sv_fillvalue sv" "horizontal_grid (sv\<lparr>sv_data := d\<rparr>) = horizontal_grid sv"
    by (simp_all add: is_empty_def offset_at_def sv_fillvalue_def horizontal_grid_def)
  then show "segment_voxels v m (sv\<lparr>sv_data := d\<rparr>) i = segment_voxels v m sv i" by (simp add: segment_voxels_def t)
qed

text \<open>The stored samples of one grid point.\<close>

definition samples_at :: "SurfaceBoundedSubVolume \<Rightarrow> nat \<Rightarrow> fp option list" where
  "samples_at sv i = view sv (m_segment_offsets sv ! i) (m_segment_offsets sv ! (i + 1))"

text \<open>An attribute at a grid point depends on the layout and on the samples stored for that point.\<close>

lemma attribute_value_local:
  assumes "wf_subvolume a sv" and "i < surface_size (m_ref sv)" and "samples_at (sv\<lparr>sv_data := d\<rparr>) i = samples_at sv i"
  shows "attribute_value v (sv\<lparr>sv_data := d\<rparr>) b k i = attribute_value v sv b k i"
proof -
  have off: "offset_at sv i = Inr (m_segment_offsets sv ! i)" "offset_at sv (i + 1) = Inr (m_segment_offsets sv ! (i + 1))"
    using wf_subvolume_offsets(3)[OF assms(1) order_refl] assms(2) by simp_all
  have "reinitialize_raw (sv\<lparr>sv_data := d\<rparr>) i s = reinitialize_raw sv i s" for s
    using assms(3) off by (simp add: reinitialize_raw_def samples_at_def)
  then have "resampled_at v (sv\<lparr>sv_data := d\<rparr>) b i = resampled_at v sv b i"
    by (simp add: resampled_at_def reinitialize_resampled_def)
  then show ?thesis by (simp add: attribute_value_def cong: if_cong)
qed

lemma take_drop_prefix: "i + k \<le> l \<Longrightarrow> l \<le> length xs \<Longrightarrow> take k (drop i (take l xs @ ys)) = take k (drop i xs)"
  by (rule nth_equalityI) (auto simp: nth_append)

text \<open>Fetching a range leaves the samples of the other points alone.\<close>

lemma fetched_other:
  assumes wf: "wf_subvolume a sv" and le: "l \<le> n" "n \<le> surface_size (m_ref sv)" "i < surface_size (m_ref sv)" and out: "i < l \<or> n \<le> i"
    and len: "length xs = m_segment_offsets sv ! n - m_segment_offsets sv ! l"
  shows "samples_at (sv\<lparr>sv_data := take (m_segment_offsets sv ! l) (sv_data sv) @ xs @ drop (m_segment_offsets sv ! n) (sv_data sv)\<rparr>) i =
    samples_at sv i"
proof -
  let ?o = "(!) (m_segment_offsets sv)"
  have mono: "?o l \<le> ?o n" "?o n \<le> length (sv_data sv)" "?o i \<le> ?o (i + 1)" using wf_subvolume_offsets[OF wf] le by auto
  show ?thesis
  proof (cases "i < l")
    case True
    then have "?o (i + 1) \<le> ?o l" using wf_subvolume_offsets(1)[OF wf, of "i + 1" l] le by simp
    then have "?o i + (?o (i + 1) - ?o i) \<le> ?o l" "?o l \<le> length (sv_data sv)" using mono by simp_all
    from take_drop_prefix[OF this] show ?thesis by (simp add: samples_at_def view_def del: take_append drop_append)
  next
    case False
    then have "?o n \<le> ?o i" using out wf_subvolume_offsets(1)[OF wf, of n i] le by simp
    then show ?thesis using mono len by (simp add: samples_at_def view_def)
  qed
qed

text \<open>The attributes of a range exist when each attribute of each point does.\<close>

lemma attributes_at_total:
  assumes "attrs \<noteq> []" and "list_all (\<lambda>m. sized m \<and> i < length (am_dst m)) attrs" and "i < 2 ^ 62"
    and "\<And>m. m \<in> set attrs \<Longrightarrow> \<exists>x. attribute_value v sv b (am_class m) i = Inr x"
  obtains attrs' where "attributes_at v sv b i attrs = Inr attrs'"
proof -
  obtain x where "attribute_value v sv b (am_class (hd attrs)) i = Inr x" using assms(1,4) by (meson hd_in_set)
  then obtain e where e: "is_empty sv i = Inr e" by (auto simp: attribute_value_def)
  have w: "\<exists>m'. am_write y i m = Inr m'" if "m \<in> set attrs" for m y
    using that assms(2,3) am_write_sized[of m i y] by (auto simp: list_all_iff)
  show ?thesis
  proof (cases e)
    case True
    have "\<exists>g. \<forall>m\<in>set attrs. am_write (Fin (sv_fillvalue sv)) i m = Inr (g m)" using w by (intro bchoice) blast
    then obtain g where "\<And>m. m \<in> set attrs \<Longrightarrow> am_write (Fin (sv_fillvalue sv)) i m = Inr (g m)" by blast
    from rmap_total[of attrs, OF this] show ?thesis using that e True by (simp add: attributes_at_def)
  next
    case False
    then obtain d where d: "resampled_at v sv b i = Inr d"
      using assms(1,4) e by (auto simp: attribute_value_def rbind_eq_Inr dest!: hd_in_set)
    then have "\<exists>y. compute (am_class m) d = Inr y" if "m \<in> set attrs" for m
      using assms(4)[OF that] e False by (simp add: attribute_value_def)
    then have "\<exists>m'. rbind (compute (am_class m) d) (\<lambda>y. am_write y i m) = Inr m'" if "m \<in> set attrs" for m
      using w[OF that] that by (force simp: rbind_eq_Inr)
    then have "\<exists>g. \<forall>m\<in>set attrs. rbind (compute (am_class m) d) (\<lambda>y. am_write y i m) = Inr (g m)" by (intro bchoice) blast
    then obtain g where "\<And>m. m \<in> set attrs \<Longrightarrow> rbind (compute (am_class m) d) (\<lambda>y. am_write y i m) = Inr (g m)" by blast
    from rmap_total[of attrs, OF this] show ?thesis using that e False d by (simp add: attributes_at_def)
  qed
qed

lemma attributes_loop_total:
  assumes "l \<le> n" and "n < 2 ^ 62" and "attrs \<noteq> []" and "list_all (\<lambda>m. sized m \<and> n \<le> length (am_dst m)) attrs"
    and "\<And>m i. m \<in> set attrs \<Longrightarrow> l \<le> i \<Longrightarrow> i < n \<Longrightarrow> \<exists>x. attribute_value v sv b (am_class m) i = Inr x"
  obtains attrs' where "rfold (attributes_at v sv b) [l..<n] attrs = Inr attrs'"
proof -
  have "\<exists>attrs'. rfold (attributes_at v sv b) [l..<n] attrs = Inr attrs'"
    using assms(1,2,4,5)
  proof (induction n rule: dec_induct)
    case (step n)
    then obtain mid where mid: "rfold (attributes_at v sv b) [l..<n] attrs = Inr mid" by (fastforce simp: list_all_iff)
    have f: "list_all2 (filled v sv b l n) attrs mid"
      using step.prems step.hyps by (intro attributes_loop_filled[OF mid]) (auto simp: list_all_iff)
    have m: "\<exists>x\<in>set attrs. filled v sv b l n x y" if "y \<in> set mid" for y
      using that f by (auto simp: list_all2_conv_all_nth in_set_conv_nth intro!: bexI[of _ "attrs ! i" for i])
    have "mid \<noteq> []" using f assms(3) by auto
    moreover have "list_all (\<lambda>m. sized m \<and> n < length (am_dst m)) mid"
      using m step.prems(2) by (fastforce simp: list_all_iff filled_def sized_def)
    moreover have "\<exists>x. attribute_value v sv b (am_class y) n = Inr x" if "y \<in> set mid" for y
      using m[OF that] step.prems(3) step.hyps by (auto simp: filled_def)
    ultimately obtain attrs' where "attributes_at v sv b n mid = Inr attrs'"
      using attributes_at_total[of mid n v sv b] step.prems(1) by (metis Suc_lessD)
    then show ?case using mid step.hyps by (simp add: rfold_snoc)
  qed simp
  then show ?thesis using that by blast
qed

section \<open>Lemmas on one call\<close>

text \<open>The output as one map per attribute.\<close>

lemma nth_concat_maps:
  assumes "\<And>m. m \<in> set ms \<Longrightarrow> length m = g" and "k < length ms" and "x < g"
  shows "concat ms ! (g * k + x) = ms ! k ! x"
  using assms
proof (induction ms arbitrary: k)
  case (Cons m ms)
  then show ?case by (cases k) (simp_all add: nth_append)
qed simp

lemma row_bound: "k < n \<Longrightarrow> x < g \<Longrightarrow> g * k + x < g * (n :: nat)"
proof -
  assume "k < n" "x < g"
  then have "g * Suc k \<le> g * n" by (intro mult_left_mono) simp_all
  then show ?thesis using \<open>x < g\<close> by simp
qed

lemma split_out_maps:
  assumes "length buf = g * n" and "int n < 2 ^ 31"
  obtains ms where "split_out g n buf = Inr ms" and "length ms = n" and "\<And>k. k < n \<Longrightarrow> length (ms ! k) = g"
    and "\<And>k x. k < n \<Longrightarrow> x < g \<Longrightarrow> ms ! k ! x = buf ! (g * k + x)"
proof -
  let ?ms = "map (\<lambda>i. take g (drop (g * i) buf)) [0..<n]"
  have "g * (n - 1) \<le> length buf" using assms(1) by simp
  then have "split_out g n buf = Inr ?ms" using assms(2) by (simp add: split_out_def)
  moreover have "length (?ms ! k) = g" if "k < n" for k
  proof -
    have "g * Suc k \<le> g * n" using that by (intro mult_left_mono) simp_all
    then show ?thesis using that assms(1) by simp
  qed
  moreover have "?ms ! k ! x = buf ! (g * k + x)" if "k < n" "x < g" for k x
    using that row_bound[OF that] assms(1) by simp
  ultimately show ?thesis using that[of ?ms] by simp
qed

text \<open>A successful call has computed every attribute of the points of its chunk, and nothing else.\<close>

lemma attributes_filled:
  assumes "attributes v sv bp ks l u outs = Inr outs'" and "length ks = length outs"
    and "\<And>k. k < length ks \<Longrightarrow> length (outs ! k) = grid_size (horizontal_grid sv)"
    and "grid_size (horizontal_grid sv) < 2 ^ 31" and "l \<le> u" and "u \<le> grid_size (horizontal_grid sv)"
  defines "g \<equiv> grid_size (horizontal_grid sv)"
  shows "length outs' = length ks" and "\<And>k. k < length ks \<Longrightarrow> length (outs' ! k) = g"
    and "\<And>k x. k < length ks \<Longrightarrow> x < g \<Longrightarrow> l \<le> x \<Longrightarrow> x < u \<Longrightarrow> attribute_value v sv bp (ks ! k) x = Inr (outs' ! k ! x)"
    and "\<And>k x. k < length ks \<Longrightarrow> x < g \<Longrightarrow> \<not> (l \<le> x \<and> x < u) \<Longrightarrow> outs' ! k ! x = outs ! k ! x"
    and "list_all (\<lambda>k. \<forall>i. k \<noteq> other_attribute i) ks"
proof -
  have known: "list_all (\<lambda>k. \<forall>i. k \<noteq> other_attribute i) ks"
  proof (rule ccontr)
    assume "\<not> list_all (\<lambda>k. \<forall>i. k \<noteq> other_attribute i) ks"
    then have "list_ex (\<lambda>k. \<exists>i. k = other_attribute i) ks" by (auto simp: list_ex_iff list_all_iff)
    then show False using append_attributes_unknown[OF assms(2)] assms(1) by (simp add: attributes_def Let_def)
  qed
  define attrs where "attrs = map2 (\<lambda>k o'. \<lparr>am_class = k, am_dst = o', am_size = wrap64 (g * 4)\<rparr>) ks outs"
  have nth: "attrs ! k = \<lparr>am_class = ks ! k, am_dst = outs ! k, am_size = 4 * g\<rparr>" if "k < length ks" for k
    using that assms(2,4) by (simp add: attrs_def g_def wrap64_def)
  have len: "length attrs = length ks" using assms(2) by (simp add: attrs_def)
  have sized: "list_all sized attrs" using nth len assms(3) by (simp add: list_all_length sized_def g_def)
  have "rfold (append_attribute (wrap64 (g * 4))) (zip ks outs) [] = Inr attrs"
    using append_attributes[OF assms(2) known] by (simp add: attrs_def)
  then obtain attrs' where "calc_attributes v sv bp attrs l u = Inr attrs'" and outs': "outs' = map am_dst attrs'"
    using assms(1) by (auto simp: attributes_def g_def)
  then have f: "list_all2 (filled v sv bp l u) attrs attrs'"
    using sized assms(4-6) by (intro attributes_loop_filled) (auto simp: calc_attributes_fresh)
  have len': "length attrs' = length ks" using list_all2_lengthD[OF f] len by simp
  have k: "filled v sv bp l u \<lparr>am_class = ks ! k, am_dst = outs ! k, am_size = 4 * g\<rparr> (attrs' ! k)" if "k < length ks" for k
    using list_all2_nthD[OF f, of k] that nth len by simp
  show "list_all (\<lambda>k. \<forall>i. k \<noteq> other_attribute i) ks" by (rule known)
  show "length outs' = length ks" using outs' len' by simp
  show "length (outs' ! k) = g" if "k < length ks" for k using filled_nth(1)[OF k[OF that]] that outs' len' assms(3) by (simp add: g_def)
  show "attribute_value v sv bp (ks ! k) x = Inr (outs' ! k ! x)" if "k < length ks" "x < g" "l \<le> x" "x < u" for k x
    using filled_nth(2)[OF k[OF that(1)], of x] that outs' len' assms(3) by (simp add: g_def)
  show "outs' ! k ! x = outs ! k ! x" if "k < length ks" "x < g" "\<not> (l \<le> x \<and> x < u)" for k x
    using filled_nth(3)[OF k[OF that(1)], of x] that outs' len' assms(3) by (simp add: g_def)
qed

lemma attributes_exist:
  assumes "wf_subvolume a sv" and "length ks = length outs" and "ks \<noteq> []" and "list_all (\<lambda>k. \<forall>i. k \<noteq> other_attribute i) ks"
    and "\<And>k. k < length ks \<Longrightarrow> length (outs ! k) = grid_size (horizontal_grid sv)"
    and "grid_size (horizontal_grid sv) < 2 ^ 31" and "l < u" and "u \<le> grid_size (horizontal_grid sv)"
    and "\<And>k x. k < length ks \<Longrightarrow> l \<le> x \<Longrightarrow> x < u \<Longrightarrow> \<exists>y. attribute_value v sv bp (ks ! k) x = Inr y"
  obtains outs' where "attributes v sv bp ks l u outs = Inr outs'"
proof -
  define g where "g = grid_size (horizontal_grid sv)"
  define attrs where "attrs = map2 (\<lambda>k o'. \<lparr>am_class = k, am_dst = o', am_size = wrap64 (g * 4)\<rparr>) ks outs"
  have nth: "attrs ! k = \<lparr>am_class = ks ! k, am_dst = outs ! k, am_size = 4 * g\<rparr>" if "k < length ks" for k
    using that assms(2,6) by (simp add: attrs_def g_def wrap64_def)
  have len: "length attrs = length ks" using assms(2) by (simp add: attrs_def)
  have sized: "list_all (\<lambda>m. sized m \<and> u \<le> length (am_dst m)) attrs" using nth len assms(5,8) by (simp add: list_all_length sized_def g_def)
  have size: "surface_size (m_ref sv) = g" by (simp add: g_def horizontal_grid_def surface_size_def)
  have "l < surface_size (m_ref sv)" using assms(7,8) size by (simp add: g_def)
  then obtain seg where seg: "vertical_segment sv l = Inr seg" by (rule wf_subvolume_segment[OF assms(1)])
  have val: "\<exists>y. attribute_value v sv bp (am_class m) x = Inr y" if m: "m \<in> set attrs" and "l \<le> x" "x < u" for m x
  proof -
    obtain k where "k < length attrs" "m = attrs ! k" using m by (auto simp: in_set_conv_nth)
    then show ?thesis using assms(9)[of k x] that nth len by simp
  qed
  have "l \<le> u" "u < 2 ^ 62" "attrs \<noteq> []" using assms(3,6-8) len by auto
  then obtain attrs' where "rfold (attributes_at v sv bp) [l..<u] attrs = Inr attrs'"
    by (rule attributes_loop_total[OF _ _ _ sized val])
  then have "calc_attributes v sv bp attrs l u = Inr attrs'" by (simp add: calc_attributes_fresh seg)
  moreover have "rfold (append_attribute (wrap64 (g * 4))) (zip ks outs) [] = Inr attrs"
    using append_attributes[OF assms(2,4)] by (simp add: attrs_def)
  ultimately have "attributes v sv bp ks l u outs = Inr (map am_dst attrs')" unfolding attributes_def Let_def g_def[symmetric] by simp
  then show ?thesis by (rule that)
qed

lemma chunk_prepareE:
  assumes "chunk_prepare j sv buf l u = Inr (bp, outs)"
  shows "l < u" and "int (length (job_attributes j)) < 2 ^ 31"
    and "split_out (grid_size (horizontal_grid sv)) (length (job_attributes j)) buf = Inr outs"
  using assms by (auto simp: chunk_prepare_def split_out_def split: if_splits)

text \<open>The segments to resample to depend on the job only.\<close>

definition job_blueprint :: "job \<Rightarrow> ResampledSegmentBlueprint result" where
  "job_blueprint j = make_ResampledSegmentBlueprint
     (if job_stepsize j = 0 then axis_stepsize (sample (get_metadata (job_handle j))) else job_stepsize j)"

lemma chunk_prepare_ok:
  assumes "l < u" and "job_blueprint j = Inr bp" and "split_out (grid_size (horizontal_grid sv)) (length (job_attributes j)) buf = Inr outs"
  shows "chunk_prepare j sv buf l u = Inr (bp, outs)"
  using assms by (simp add: chunk_prepare_def job_blueprint_def)

text \<open>What one call leaves in the output.\<close>

definition written :: "job \<Rightarrow> SurfaceBoundedSubVolume \<Rightarrow> ResampledSegmentBlueprint \<Rightarrow> nat \<Rightarrow> nat \<Rightarrow> fp list \<Rightarrow> fp list \<Rightarrow> bool" where
  "written j sv bp l u buf buf' \<longleftrightarrow> length buf' = length buf \<and>
     (\<forall>k<length (job_attributes j). \<forall>x<grid_size (horizontal_grid sv).
        if l \<le> x \<and> x < u
        then attribute_value (job_vds j) sv bp (job_attributes j ! k) x = Inr (buf' ! (grid_size (horizontal_grid sv) * k + x))
        else buf' ! (grid_size (horizontal_grid sv) * k + x) = buf ! (grid_size (horizontal_grid sv) * k + x))"

lemma chunk_compute_written:
  assumes "chunk_compute j l u sv buf = Inr buf'" and "length buf = grid_size (horizontal_grid sv) * length (job_attributes j)"
    and "grid_size (horizontal_grid sv) < 2 ^ 31" and "u \<le> grid_size (horizontal_grid sv)"
  obtains bp where "job_blueprint j = Inr bp" and "written j sv bp l u buf buf'" and "list_all (\<lambda>k. \<forall>i. k \<noteq> other_attribute i) (job_attributes j)"
    and "int (length (job_attributes j)) < 2 ^ 31"
proof -
  let ?g = "grid_size (horizontal_grid sv)" and ?ks = "job_attributes j"
  obtain bp outs outs' where pr: "chunk_prepare j sv buf l u = Inr (bp, outs)"
    and at: "attributes (job_vds j) sv bp ?ks l u outs = Inr outs'" and buf': "buf' = join_out ?g (length ?ks) outs' buf"
    using assms(1) by (auto simp: chunk_compute_def)
  note p = chunk_prepareE[OF pr]
  obtain ms where ms: "split_out ?g (length ?ks) buf = Inr ms" "length ms = length ?ks" "\<And>k. k < length ?ks \<Longrightarrow> length (ms ! k) = ?g"
    "\<And>k x. k < length ?ks \<Longrightarrow> x < ?g \<Longrightarrow> ms ! k ! x = buf ! (?g * k + x)"
    by (rule split_out_maps[OF assms(2) p(2)]) blast
  have outs: "outs = ms" using ms(1) p(3) by simp
  note f = attributes_filled[OF at _ _ assms(3) _ assms(4), unfolded outs, OF ms(2)[symmetric] ms(3) less_imp_le[OF p(1)]]
  have g: "length m = ?g" if "m \<in> set outs'" for m using that f(1,2) by (auto simp: in_set_conv_nth)
  have len: "length (concat outs') = ?g * length ?ks" using length_concat_uniform[OF g] f(1) by simp
  have cell: "buf' ! (?g * k + x) = outs' ! k ! x" if "k < length ?ks" "x < ?g" for k x
    using nth_concat_maps[OF g, of outs' k x] that f(1) row_bound[OF that] len by (simp add: buf' join_out_def nth_append)
  have "written j sv bp l u buf buf'"
    unfolding written_def using f(3,4) cell ms(4) len assms(2) by (auto simp: buf' join_out_def)
  moreover have "job_blueprint j = Inr bp" using pr by (auto simp: chunk_prepare_def job_blueprint_def)
  ultimately show ?thesis using that f(5) p(2) by blast
qed

lemma chunk_compute_exists:
  assumes "wf_subvolume a sv" and "length buf = grid_size (horizontal_grid sv) * length (job_attributes j)"
    and "grid_size (horizontal_grid sv) < 2 ^ 31" and "l < u" and "u \<le> grid_size (horizontal_grid sv)"
    and "job_blueprint j = Inr bp" and "job_attributes j \<noteq> []" and "list_all (\<lambda>k. \<forall>i. k \<noteq> other_attribute i) (job_attributes j)"
    and "int (length (job_attributes j)) < 2 ^ 31"
    and "\<And>k x. k < length (job_attributes j) \<Longrightarrow> l \<le> x \<Longrightarrow> x < u \<Longrightarrow> \<exists>y. attribute_value (job_vds j) sv bp (job_attributes j ! k) x = Inr y"
  obtains buf' where "chunk_compute j l u sv buf = Inr buf'"
proof -
  obtain ms where ms: "split_out (grid_size (horizontal_grid sv)) (length (job_attributes j)) buf = Inr ms" "length ms = length (job_attributes j)"
    "\<And>k. k < length (job_attributes j) \<Longrightarrow> length (ms ! k) = grid_size (horizontal_grid sv)"
    by (rule split_out_maps[OF assms(2,9)]) blast
  obtain outs' where "attributes (job_vds j) sv bp (job_attributes j) l u ms = Inr outs'"
    by (rule attributes_exist[OF assms(1) ms(2)[symmetric] assms(7,8) ms(3) assms(3-5,10)])
  then show ?thesis using that chunk_prepare_ok[OF assms(4,6) ms(1)] by (simp add: chunk_compute_def)
qed

lemma chunk_fetch_ok:
  fixes sv :: SurfaceBoundedSubVolume
  assumes "holds_cube (job_handle j) c" and "wf_subvolume a sv" and "l < u" and "u \<le> surface_size (m_ref sv)"
    and "to_interpolation (job_interpolation j) = Inr mth" and "6 * int (m_segment_offsets sv ! u) < 2 ^ 31" and "int u < 2 ^ 31"
    and "job_blueprint j = Inr bp" and "length buf = grid_size (horizontal_grid sv) * length (job_attributes j)"
    and "int (length (job_attributes j)) < 2 ^ 31"
  obtains d where "chunk_fetch j l u sv buf = Inr (sv\<lparr>sv_data := d\<rparr>)" and "length d = length (sv_data sv)"
    and "\<And>i. l \<le> i \<Longrightarrow> i < u \<Longrightarrow> samples_at (sv\<lparr>sv_data := d\<rparr>) i =
      map (\<lambda>p. Some (cube_sample c p mth)) (segment_voxels (job_vds j) (get_metadata (job_handle j)) sv i)"
    and "\<And>i. i < surface_size (m_ref sv) \<Longrightarrow> i < l \<or> u \<le> i \<Longrightarrow> samples_at (sv\<lparr>sv_data := d\<rparr>) i = samples_at sv i"
proof -
  let ?f = "\<lambda>p. Some (cube_sample c p mth)" and ?vs = "segment_voxels (job_vds j) (get_metadata (job_handle j)) sv"
  let ?o = "(!) (m_segment_offsets sv)"
  let ?d = "take (?o l) (sv_data sv) @ map ?f (concat (map ?vs [l..<u])) @ drop (?o u) (sv_data sv)"
  have le: "l \<le> u" using assms(3) by simp
  obtain ms where "split_out (grid_size (horizontal_grid sv)) (length (job_attributes j)) buf = Inr ms"
    by (rule split_out_maps[OF assms(9,10)]) blast
  then have "chunk_fetch j l u sv buf = Inr (sv\<lparr>sv_data := ?d\<rparr>)"
    using chunk_prepare_ok[OF assms(3,8)] fetch_fills[OF assms(1,2) le assms(4-7)] by (simp add: chunk_fetch_def)
  moreover have n: "length (concat (map ?vs [l..<u])) = ?o u - ?o l" by (rule length_segments[OF assms(2,4) le])
  then have "length ?d = length (sv_data sv)"
    using wf_subvolume_offsets[OF assms(2) le assms(4)] by simp
  moreover have "samples_at (sv\<lparr>sv_data := ?d\<rparr>) i = map ?f (?vs i)" if "l \<le> i" "i < u" for i
    using fetched_view[OF assms(2) that assms(4), of "sv\<lparr>sv_data := ?d\<rparr>" ?f "job_vds j" "get_metadata (job_handle j)"]
    by (simp add: samples_at_def)
  moreover have "samples_at (sv\<lparr>sv_data := ?d\<rparr>) i = samples_at sv i" if "i < surface_size (m_ref sv)" "i < l \<or> u \<le> i" for i
    using n by (intro fetched_other[OF assms(2) le assms(4) that]) simp
  ultimately show ?thesis by (rule that)
qed

section \<open>The parallel and the sequential computation\<close>

text \<open>
  The state of the shared storage during a schedule in which no call fails. \<open>sv_all\<close> and \<open>buf_all\<close> are the
  subvolume and the output of one call for the whole grid.
\<close>

definition chunk_points :: "job \<Rightarrow> nat \<Rightarrow> nat set" where
  "chunk_points j i = {fst (job_chunks j ! i)..<snd (job_chunks j ! i)}"

fun succeeded :: "phase \<Rightarrow> bool" where
  "succeeded (Returned st) = (st = STATUS_OK)"
| "succeeded (Sent st) = (st = STATUS_OK)"
| "succeeded (Finished st) = (st = STATUS_OK)"
| "succeeded _ = False"

definition pool_inv :: "job \<Rightarrow> SurfaceBoundedSubVolume \<Rightarrow> SurfaceBoundedSubVolume \<Rightarrow> fp list \<Rightarrow> pool \<Rightarrow> bool" where
  "pool_inv j sv sv_all buf_all p \<longleftrightarrow>
     (\<exists>d. pool_volume p = sv\<lparr>sv_data := d\<rparr> \<and> length d = length (sv_data sv)) \<and>
     length (pool_buffer p) = grid_size (horizontal_grid sv) * length (job_attributes j) \<and>
     (\<forall>i<length (pool_phases p). pool_phases p ! i = Running \<or> pool_phases p ! i = Fetched \<or> succeeded (pool_phases p ! i)) \<and>
     (\<forall>i<length (pool_phases p). pool_phases p ! i \<noteq> Running \<longrightarrow>
        (\<forall>x\<in>chunk_points j i. samples_at (pool_volume p) x = samples_at sv_all x)) \<and>
     (\<forall>i<length (pool_phases p). succeeded (pool_phases p ! i) \<longrightarrow>
        (\<forall>x\<in>chunk_points j i. \<forall>k<length (job_attributes j).
           pool_buffer p ! (grid_size (horizontal_grid sv) * k + x) = buf_all ! (grid_size (horizontal_grid sv) * k + x)))"

text \<open>One call for the whole grid.\<close>

definition sequential :: "job \<Rightarrow> SurfaceBoundedSubVolume \<Rightarrow> (SurfaceBoundedSubVolume \<times> fp list) result" where
  "sequential j sv =
     (let g = grid_size (horizontal_grid sv); buf = replicate (g * length (job_attributes j)) (Fin 0) in
      rbind (chunk_fetch j 0 g sv buf) (\<lambda>sv'.
      rbind (chunk_compute j 0 g sv' buf) (\<lambda>buf'.
      Inr (sv', buf'))))"

text \<open>
  What the schedules below are about: a handle that holds a cube, a subvolume that was made, a
  known interpolation method, at least one attribute, sizes for which the loops of \<^verbatim>\<open>fetch_subvolume\<close> are defined, and a grid that is
  split into chunks.
\<close>

definition job_for :: "job \<Rightarrow> SurfaceBoundedSubVolume \<Rightarrow> cube \<Rightarrow> bool" where
  "job_for j sv c \<longleftrightarrow> holds_cube (job_handle j) c \<and> (\<exists>a. wf_subvolume a sv) \<and>
     (\<exists>mth. to_interpolation (job_interpolation j) = Inr mth) \<and> job_attributes j \<noteq> [] \<and>
     6 * int (m_segment_offsets sv ! surface_size (m_ref sv)) < 2 ^ 31 \<and> surface_size (m_ref sv) < 2 ^ 31 \<and>
     concat (map (\<lambda>(f, t). [f..<t]) (job_chunks j)) = [0..<surface_size (m_ref sv)] \<and>
     list_all (\<lambda>(f, t). f < t \<and> t \<le> surface_size (m_ref sv)) (job_chunks j)"

lemma grid_size_ref: "grid_size (horizontal_grid sv) = surface_size (m_ref sv)"
  by (simp add: horizontal_grid_def surface_size_def)

lemma sequentialE:
  assumes "job_for j sv c" and "sequential j sv = Inr (sv_all, buf_all)"
  obtains a bp mth d where "wf_subvolume a sv" and "job_blueprint j = Inr bp" and "to_interpolation (job_interpolation j) = Inr mth"
    and "int (length (job_attributes j)) < 2 ^ 31" and "list_all (\<lambda>k. \<forall>i. k \<noteq> other_attribute i) (job_attributes j)"
    and "sv_all = sv\<lparr>sv_data := d\<rparr>" and "length d = length (sv_data sv)"
    and "\<And>i. i < surface_size (m_ref sv) \<Longrightarrow> samples_at sv_all i =
      map (\<lambda>p. Some (cube_sample c p mth)) (segment_voxels (job_vds j) (get_metadata (job_handle j)) sv i)"
    and "length buf_all = surface_size (m_ref sv) * length (job_attributes j)"
    and "\<And>k x. k < length (job_attributes j) \<Longrightarrow> x < surface_size (m_ref sv) \<Longrightarrow>
      attribute_value (job_vds j) sv_all bp (job_attributes j ! k) x = Inr (buf_all ! (surface_size (m_ref sv) * k + x))"
proof -
  let ?g = "surface_size (m_ref sv)" and ?n = "length (job_attributes j)"
  let ?buf = "replicate (?g * ?n) (Fin 0)"
  obtain a mth where wf: "wf_subvolume a sv" and h: "holds_cube (job_handle j) c" and ip: "to_interpolation (job_interpolation j) = Inr mth"
    and small: "6 * int (m_segment_offsets sv ! ?g) < 2 ^ 31" "int ?g < 2 ^ 31"
    using assms(1) by (auto simp: job_for_def)
  have f: "chunk_fetch j 0 ?g sv ?buf = Inr sv_all" and c: "chunk_compute j 0 ?g sv_all ?buf = Inr buf_all"
    using assms(2) by (auto simp: sequential_def Let_def grid_size_ref)
  obtain bp outs where pr: "chunk_prepare j sv ?buf 0 ?g = Inr (bp, outs)" using f by (auto simp: chunk_fetch_def)
  have bp: "job_blueprint j = Inr bp" using pr by (auto simp: chunk_prepare_def job_blueprint_def)
  have len: "length ?buf = grid_size (horizontal_grid sv) * ?n" by (simp add: grid_size_ref)
  obtain d where d: "chunk_fetch j 0 ?g sv ?buf = Inr (sv\<lparr>sv_data := d\<rparr>)" "length d = length (sv_data sv)"
    "\<And>i. 0 \<le> i \<Longrightarrow> i < ?g \<Longrightarrow> samples_at (sv\<lparr>sv_data := d\<rparr>) i =
      map (\<lambda>p. Some (cube_sample c p mth)) (segment_voxels (job_vds j) (get_metadata (job_handle j)) sv i)"
    by (rule chunk_fetch_ok[OF h wf chunk_prepareE(1)[OF pr] order_refl ip small bp len chunk_prepareE(2)[OF pr]]) blast
  have all: "sv_all = sv\<lparr>sv_data := d\<rparr>" using f d(1) by simp
  have size: "grid_size (horizontal_grid sv_all) = ?g" by (simp add: all grid_size_ref)
  have "length ?buf = grid_size (horizontal_grid sv_all) * ?n" "grid_size (horizontal_grid sv_all) < 2 ^ 31" "?g \<le> grid_size (horizontal_grid sv_all)"
    using small(2) by (simp_all add: size)
  from chunk_compute_written[OF c this] obtain bp' where w: "job_blueprint j = Inr bp'" "written j sv_all bp' 0 ?g ?buf buf_all"
    "list_all (\<lambda>k. \<forall>i. k \<noteq> other_attribute i) (job_attributes j)"
    by blast
  have "bp' = bp" using w(1) bp by simp
  then have "length buf_all = ?g * ?n" and "attribute_value (job_vds j) sv_all bp (job_attributes j ! k) x = Inr (buf_all ! (?g * k + x))"
    if "k < ?n" "x < ?g" for k x
    using w(2) that unfolding written_def size by auto
  moreover have "length buf_all = ?g * ?n" using w(2) by (simp add: written_def)
  ultimately show ?thesis
    using that[OF wf bp ip chunk_prepareE(2)[OF pr] w(3) all d(2)] d(3) by (simp add: all)
qed

lemma chunk_bounds:
  assumes "job_for j sv c" and "i < length (job_chunks j)" and "job_chunks j ! i = (l, u)"
  shows "l < u" and "u \<le> surface_size (m_ref sv)" and "chunk_points j i = {l..<u}"
  using assms by (auto simp: job_for_def list_all_length chunk_points_def)

lemma chunk_disjoint:
  assumes "job_for j sv c" and "i < length (job_chunks j)" and "k < length (job_chunks j)" and "x \<in> chunk_points j i" and "x \<in> chunk_points j k"
  shows "i = k"
proof (rule concat_unique)
  let ?xss = "map (\<lambda>(f, t). [f..<t]) (job_chunks j)"
  show "distinct (concat ?xss)" using assms(1) by (simp add: job_for_def)
  show "i < length ?xss" "k < length ?xss" using assms by simp_all
  show "x \<in> set (?xss ! i)" "x \<in> set (?xss ! k)" using assms(2-) by (auto simp: chunk_points_def split_beta)
qed

text \<open>A chunk can be fetched at any time, and its samples are then those of the sequential run.\<close>

lemma fetch_any_time:
  assumes job: "job_for j sv c" and one: "sequential j sv = Inr (sv_all, buf_all)" and inv: "pool_inv j sv sv_all buf_all p"
    and i: "i < length (job_chunks j)" and lu: "job_chunks j ! i = (l, u)"
  obtains d where "chunk_fetch j l u (pool_volume p) (pool_buffer p) = Inr (sv\<lparr>sv_data := d\<rparr>)" and "length d = length (sv_data sv)"
    and "\<And>x. x \<in> chunk_points j i \<Longrightarrow> samples_at (sv\<lparr>sv_data := d\<rparr>) x = samples_at sv_all x"
    and "\<And>x. x < surface_size (m_ref sv) \<Longrightarrow> x \<notin> chunk_points j i \<Longrightarrow> samples_at (sv\<lparr>sv_data := d\<rparr>) x = samples_at (pool_volume p) x"
proof -
  note b = chunk_bounds[OF job i lu]
  obtain a bp mth where wf: "wf_subvolume a sv" and bp: "job_blueprint j = Inr bp" and ip: "to_interpolation (job_interpolation j) = Inr mth"
    and n: "int (length (job_attributes j)) < 2 ^ 31"
    and all: "\<And>i. i < surface_size (m_ref sv) \<Longrightarrow> samples_at sv_all i =
      map (\<lambda>p. Some (cube_sample c p mth)) (segment_voxels (job_vds j) (get_metadata (job_handle j)) sv i)"
    by (rule sequentialE[OF job one]) blast
  obtain d0 where d0: "pool_volume p = sv\<lparr>sv_data := d0\<rparr>" "length d0 = length (sv_data sv)" using inv by (auto simp: pool_inv_def)
  have wf0: "wf_subvolume a (sv\<lparr>sv_data := d0\<rparr>)" by (rule wf_subvolume_data[OF wf d0(2)])
  have h: "holds_cube (job_handle j) c" and small: "6 * int (m_segment_offsets sv ! surface_size (m_ref sv)) < 2 ^ 31" "surface_size (m_ref sv) < 2 ^ 31"
    using job by (auto simp: job_for_def)
  have "m_segment_offsets sv ! u \<le> m_segment_offsets sv ! surface_size (m_ref sv)" by (rule wf_subvolume_offsets(1)[OF wf b(2) order_refl])
  then have s: "6 * int (m_segment_offsets sv ! u) < 2 ^ 31" "int u < 2 ^ 31" using small b(2) by auto
  have buf: "length (pool_buffer p) = grid_size (horizontal_grid sv) * length (job_attributes j)" using inv by (simp add: pool_inv_def)
  obtain d where d: "chunk_fetch j l u (sv\<lparr>sv_data := d0\<rparr>) (pool_buffer p) = Inr (sv\<lparr>sv_data := d\<rparr>)" "length d = length d0"
    "\<And>x. l \<le> x \<Longrightarrow> x < u \<Longrightarrow> samples_at (sv\<lparr>sv_data := d\<rparr>) x =
      map (\<lambda>p. Some (cube_sample c p mth)) (segment_voxels (job_vds j) (get_metadata (job_handle j)) sv x)"
    "\<And>x. x < surface_size (m_ref sv) \<Longrightarrow> x < l \<or> u \<le> x \<Longrightarrow> samples_at (sv\<lparr>sv_data := d\<rparr>) x = samples_at (sv\<lparr>sv_data := d0\<rparr>) x"
    by (rule chunk_fetch_ok[OF h wf0 b(1) _ ip _ s(2) bp _ n, of "pool_buffer p"]) (use b(2) s(1) buf in simp_all)
  have "samples_at (sv\<lparr>sv_data := d\<rparr>) x = samples_at sv_all x" if "x \<in> chunk_points j i" for x
    using that d(3)[of x] all[of x] b by simp
  moreover have "samples_at (sv\<lparr>sv_data := d\<rparr>) x = samples_at (pool_volume p) x" if "x < surface_size (m_ref sv)" "x \<notin> chunk_points j i" for x
    using that d(4)[of x] b d0(1) by (auto simp: not_le)
  ultimately show ?thesis using that[of d] d(1,2) d0 by simp
qed

text \<open>Once it has been fetched, its attributes can be computed at any time, and they are those of the sequential run.\<close>

lemma compute_any_time:
  assumes job: "job_for j sv c" and one: "sequential j sv = Inr (sv_all, buf_all)" and inv: "pool_inv j sv sv_all buf_all p"
    and i: "i < length (job_chunks j)" "i < length (pool_phases p)" "pool_phases p ! i \<noteq> Running" and lu: "job_chunks j ! i = (l, u)"
  obtains buf where "chunk_compute j l u (pool_volume p) (pool_buffer p) = Inr buf" and "length buf = length (pool_buffer p)"
    and "\<And>x k. x \<in> chunk_points j i \<Longrightarrow> k < length (job_attributes j) \<Longrightarrow>
      buf ! (surface_size (m_ref sv) * k + x) = buf_all ! (surface_size (m_ref sv) * k + x)"
    and "\<And>x k. x < surface_size (m_ref sv) \<Longrightarrow> x \<notin> chunk_points j i \<Longrightarrow> k < length (job_attributes j) \<Longrightarrow>
      buf ! (surface_size (m_ref sv) * k + x) = pool_buffer p ! (surface_size (m_ref sv) * k + x)"
proof -
  let ?g = "surface_size (m_ref sv)" and ?ks = "job_attributes j"
  note b = chunk_bounds[OF job i(1) lu]
  obtain a bp d where wf: "wf_subvolume a sv" and bp: "job_blueprint j = Inr bp" and n: "int (length ?ks) < 2 ^ 31"
    and known: "list_all (\<lambda>k. \<forall>i. k \<noteq> other_attribute i) ?ks" and all: "sv_all = sv\<lparr>sv_data := d\<rparr>"
    and val: "\<And>k x. k < length ?ks \<Longrightarrow> x < ?g \<Longrightarrow> attribute_value (job_vds j) sv_all bp (?ks ! k) x = Inr (buf_all ! (?g * k + x))"
    by (rule sequentialE[OF job one]) blast
  obtain d0 where d0: "pool_volume p = sv\<lparr>sv_data := d0\<rparr>" "length d0 = length (sv_data sv)" using inv by (auto simp: pool_inv_def)
  have wf0: "wf_subvolume a (pool_volume p)" unfolding d0(1) by (rule wf_subvolume_data[OF wf d0(2)])
  have size: "grid_size (horizontal_grid (pool_volume p)) = ?g" by (simp add: d0 grid_size_ref)
  have buf: "length (pool_buffer p) = ?g * length ?ks" using inv by (simp add: pool_inv_def grid_size_ref)
  have small: "?g < 2 ^ 31" and ks: "?ks \<noteq> []" using job by (auto simp: job_for_def)
  have v: "attribute_value (job_vds j) (pool_volume p) bp (?ks ! k) x = Inr (buf_all ! (?g * k + x))" if "k < length ?ks" "l \<le> x" "x < u" for k x
  proof -
    have "samples_at (pool_volume p) x = samples_at sv_all x" using inv i(2,3) that b(3) by (simp add: pool_inv_def)
    then have "samples_at ((pool_volume p)\<lparr>sv_data := d\<rparr>) x = samples_at (pool_volume p) x" by (simp add: d0 all)
    from attribute_value_local[OF wf0 _ this, of "job_vds j" bp "?ks ! k"] show ?thesis
      using val[of k x] that b(2) by (simp add: d0 all)
  qed
  obtain buf' where c: "chunk_compute j l u (pool_volume p) (pool_buffer p) = Inr buf'"
    by (rule chunk_compute_exists[OF wf0 _ _ b(1) _ bp ks known n, of "pool_buffer p"]) (use v buf size small b(2) in auto)
  obtain bp' where "job_blueprint j = Inr bp'" and w': "written j (pool_volume p) bp' l u (pool_buffer p) buf'"
    by (rule chunk_compute_written[OF c]) (use buf size small b(2) in auto)
  then have w: "written j (pool_volume p) bp l u (pool_buffer p) buf'" using bp by simp
  have "buf' ! (?g * k + x) = buf_all ! (?g * k + x)" if "x \<in> chunk_points j i" "k < length ?ks" for x k
    using w v[of k x] that b(2,3) unfolding written_def size by auto
  moreover have "buf' ! (?g * k + x) = pool_buffer p ! (?g * k + x)" if "x < ?g" "x \<notin> chunk_points j i" "k < length ?ks" for x k
    using w that b(3) unfolding written_def size by auto
  ultimately show ?thesis using that[OF c] w by (simp add: written_def)
qed

lemma chunk_points_less: "job_for j sv c \<Longrightarrow> i < length (job_chunks j) \<Longrightarrow> x \<in> chunk_points j i \<Longrightarrow> x < surface_size (m_ref sv)"
  using chunk_bounds[of j sv c i "fst (job_chunks j ! i)" "snd (job_chunks j ! i)"] by simp

text \<open>A step that moves a goroutine to a later phase and leaves the storage alone keeps the invariant.\<close>

lemma pool_inv_move:
  assumes "pool_inv j sv sv_all buf_all p" and "pool_volume p' = pool_volume p" and "pool_buffer p' = pool_buffer p"
    and "pool_phases p' = (pool_phases p)[i := ph]" and "succeeded (pool_phases p ! i) = succeeded ph" and "pool_phases p ! i \<noteq> Running"
    and "succeeded ph \<or> ph = Fetched" and "i < length (pool_phases p)"
  shows "pool_inv j sv sv_all buf_all p'"
proof -
  have "succeeded (pool_phases p' ! k) = succeeded (pool_phases p ! k)" "pool_phases p' ! k \<noteq> Running \<longleftrightarrow> pool_phases p ! k \<noteq> Running"
    "pool_phases p' ! k = Running \<or> pool_phases p' ! k = Fetched \<or> succeeded (pool_phases p' ! k)"
    if "k < length (pool_phases p)" for k
    using that assms by (auto simp: nth_list_update pool_inv_def)
  moreover have "length (pool_phases p') = length (pool_phases p)" using assms(4) by simp
  ultimately show ?thesis using assms(1-3) unfolding pool_inv_def by auto
qed

lemma pool_inv_step:
  assumes job: "job_for j sv c" and one: "sequential j sv = Inr (sv_all, buf_all)" and step: "go_step j p p'"
    and ok: "pool_ok j p" and inv: "pool_inv j sv sv_all buf_all p"
  shows "pool_inv j sv sv_all buf_all p'"
proof -
  let ?g = "surface_size (m_ref sv)"
  have n: "k < length (job_chunks j)" if "k < length (pool_phases p)" for k using that ok by (simp add: pool_ok_def)
  have safe: "pool_phases p ! k = Running \<or> pool_phases p ! k = Fetched \<or> succeeded (pool_phases p ! k)" if "k < length (pool_phases p)" for k
    using inv that by (simp add: pool_inv_def)
  have other: "x \<notin> chunk_points j i" "x < ?g" if "x \<in> chunk_points j k" "k \<noteq> i" "k < length (pool_phases p)" "i < length (pool_phases p)" for x i k
    using that chunk_disjoint[OF job n n, of i k x] chunk_points_less[OF job n, of k x] by auto
  from step show ?thesis
  proof (cases rule: go_step.cases)
    case spawn
    then show ?thesis using inv by (auto simp: pool_inv_def nth_append)
  next
    case (fetch i l u sv')
    from fetch_any_time[OF job one inv n[OF fetch(2)] fetch(4)] obtain d where d: "sv' = sv\<lparr>sv_data := d\<rparr>" "length d = length (sv_data sv)"
      "\<And>x. x \<in> chunk_points j i \<Longrightarrow> samples_at sv' x = samples_at sv_all x"
      "\<And>x. x < ?g \<Longrightarrow> x \<notin> chunk_points j i \<Longrightarrow> samples_at sv' x = samples_at (pool_volume p) x"
      using fetch(5) by (metis sum.inject(2))
    have "samples_at sv' x = samples_at sv_all x"
      if "x \<in> chunk_points j k" "k < length (pool_phases p)" "k = i \<or> pool_phases p ! k \<noteq> Running" for k x
      using that d(3) d(4)[of x] other[of x k i] fetch(2) inv by (cases "k = i") (auto simp: pool_inv_def)
    then show ?thesis using inv fetch(1-3) d(1,2) by (auto simp: pool_inv_def nth_list_update)
  next
    case (fetch_error i l u e left)
    then show ?thesis using fetch_any_time[OF job one inv n] by (metis Inl_Inr_False)
  next
    case (compute i l u buf)
    have not_running: "pool_phases p ! i \<noteq> Running" using compute by simp
    obtain buf' where d': "chunk_compute j l u (pool_volume p) (pool_buffer p) = Inr buf'" "length buf' = length (pool_buffer p)"
      "\<And>x k. x \<in> chunk_points j i \<Longrightarrow> k < length (job_attributes j) \<Longrightarrow> buf' ! (?g * k + x) = buf_all ! (?g * k + x)"
      "\<And>x k. x < ?g \<Longrightarrow> x \<notin> chunk_points j i \<Longrightarrow> k < length (job_attributes j) \<Longrightarrow> buf' ! (?g * k + x) = pool_buffer p ! (?g * k + x)"
      by (rule compute_any_time[OF job one inv n[OF compute(2)] compute(2) not_running compute(4)]) blast
    have "buf' = buf" using d'(1) compute(5) by simp
    note d = d'(2-4)[unfolded this]
    have "buf ! (?g * m + x) = buf_all ! (?g * m + x)"
      if "x \<in> chunk_points j k" "k < length (pool_phases p)" "k = i \<or> succeeded (pool_phases p ! k)" "m < length (job_attributes j)" for k x m
      using that d(2) d(3)[of x m] other[of x k i] compute(2) inv by (cases "k = i") (auto simp: pool_inv_def grid_size_ref)
    then show ?thesis using inv compute(1-3) d(1) by (auto simp: pool_inv_def nth_list_update grid_size_ref)
  next
    case (compute_error i l u e left)
    then show ?thesis using compute_any_time[OF job one inv n, of i l u] by (metis Inl_Inr_False phase.distinct(1))
  next
    case (send i st)
    then show ?thesis using safe[of i] by (intro pool_inv_move[OF inv, of p' i "Sent st"]) auto
  next
    case (release i st)
    then show ?thesis using safe[of i] by (intro pool_inv_move[OF inv, of p' i "Finished st"]) auto
  next
    case (receive st rest)
    then show ?thesis using inv by (simp add: pool_inv_def)
  qed
qed

lemma reachable_pool_inv:
  assumes "job_for j sv c" and "sequential j sv = Inr (sv_all, buf_all)" and "(go_step j)\<^sup>*\<^sup>* (start_pool j sv) p"
  shows "pool_inv j sv sv_all buf_all p"
  using assms(3)
proof (induction rule: rtranclp_induct)
  case base
  have "\<exists>d. sv = sv\<lparr>sv_data := d\<rparr> \<and> length d = length (sv_data sv)" by (rule exI[of _ "sv_data sv"]) simp
  then show ?case by (simp add: pool_inv_def start_pool_def)
next
  case (step p p')
  then show ?case using pool_inv_step[OF assms(1,2)] reachable_pool_ok by blast
qed

section \<open>Lemmas on the end of a schedule\<close>

lemma statuses_sent: "(\<And>ph. ph \<in> set ps \<Longrightarrow> sent_status ph \<noteq> None) \<Longrightarrow> statuses ps = mset (map (\<lambda>ph. the (sent_status ph)) ps)"
  by (induction ps) (force simp: statuses_def)+

lemma final_statuses:
  assumes "pool_ok j p" and "pool_final j p"
  shows "\<And>ph. ph \<in> set (pool_phases p) \<Longrightarrow> sent_status ph \<noteq> None"
    and "mset (pool_received p) = mset (map (\<lambda>ph. the (sent_status ph)) (pool_phases p))"
proof -
  have "length (pool_errs p) + length (pool_received p) = length (filter (\<lambda>ph. sent_status ph \<noteq> None) (pool_phases p))"
    using assms(1) size_statuses[of "pool_phases p"] by (metis pool_ok_def length_append size_mset)
  moreover have "length (pool_received p) = length (pool_phases p)" using assms(2) by (simp add: pool_final_def)
  moreover note length_filter_le[of "\<lambda>ph. sent_status ph \<noteq> None" "pool_phases p"]
  ultimately have e: "pool_errs p = []" and f: "length (filter (\<lambda>ph. sent_status ph \<noteq> None) (pool_phases p)) = length (pool_phases p)"
    by (simp_all only: flip: length_0_conv)
  then show all: "sent_status ph \<noteq> None" if "ph \<in> set (pool_phases p)" for ph
    using that length_filter_less[of ph "pool_phases p" "\<lambda>ph. sent_status ph \<noteq> None"] by fastforce
  show "mset (pool_received p) = mset (map (\<lambda>ph. the (sent_status ph)) (pool_phases p))"
    using assms(1) statuses_sent[OF all] e by (simp add: pool_ok_def)
qed

lemma pool_result_ok: "(\<exists>r. pool_result j p = Inr r) \<longleftrightarrow> (\<forall>st\<in>set (pool_received p). st = STATUS_OK)"
  by (auto simp: pool_result_def Let_def filter_eq_Cons_iff filter_empty_conv split: list.splits)

text \<open>Each point of the grid is in some chunk.\<close>

lemma chunk_cover:
  assumes "job_for j sv c" and "x < surface_size (m_ref sv)"
  obtains i where "i < length (job_chunks j)" and "x \<in> chunk_points j i"
proof -
  have "x \<in> set (concat (map (\<lambda>(f, t). [f..<t]) (job_chunks j)))" using assms by (simp add: job_for_def)
  then obtain q where "q \<in> set (job_chunks j)" "x \<in> set (case q of (f, t) \<Rightarrow> [f..<t])" by auto
  then show ?thesis using that by (auto simp: in_set_conv_nth chunk_points_def split_beta)
qed

lemma final_buffer:
  assumes job: "job_for j sv c" and one: "sequential j sv = Inr (sv_all, buf_all)" and inv: "pool_inv j sv sv_all buf_all p"
    and "pool_ok j p" and "pool_final j p"
  shows "pool_buffer p = buf_all"
proof -
  let ?g = "surface_size (m_ref sv)" and ?n = "length (job_attributes j)"
  have len: "length (pool_buffer p) = ?g * ?n" using inv by (simp add: pool_inv_def grid_size_ref)
  have all: "length buf_all = ?g * ?n" by (rule sequentialE[OF job one])
  have cell: "pool_buffer p ! (?g * k + x) = buf_all ! (?g * k + x)" if "k < ?n" "x < ?g" for k x
  proof -
    note k = that
    obtain i where i: "i < length (job_chunks j)" "x \<in> chunk_points j i" by (rule chunk_cover[OF job k(2)])
    then have "i < length (pool_phases p)" using assms(5) by (simp add: pool_final_def)
    moreover have "succeeded (pool_phases p ! i)"
      using final_statuses(1)[OF assms(4,5) nth_mem[OF calculation]] inv calculation by (auto simp: pool_inv_def)
    ultimately show ?thesis using inv i(2) k(1) by (simp add: pool_inv_def grid_size_ref)
  qed
  show ?thesis
  proof (rule nth_equalityI)
    fix q
    assume "q < length (pool_buffer p)"
    then have q: "q < ?g * ?n" by (simp add: len)
    then have "0 < ?g" by (cases ?g) simp_all
    then have "q div ?g < ?n" "q mod ?g < ?g" using q by (simp_all add: less_mult_imp_div_less mult.commute)
    from cell[OF this] show "pool_buffer p ! q = buf_all ! q" by simp
  qed (simp add: len all)
qed

lemma make_job_chunks:
  assumes "make_job v h interpolation attribute_list stepsize nrows ncols = Some j"
  shows "job_attributes j = attribute_list" and "length (job_chunks j) \<le> job_capacity j" and "0 < job_routines j"
    and "concat (map (\<lambda>(f, t). [f..<t]) (job_chunks j)) = [0..<nrows * ncols]"
    and "list_all (\<lambda>(f, t). f < t \<and> t \<le> nrows * ncols) (job_chunks j)"
proof -
  obtain cs where cs: "chunks nrows ncols = Some cs" "concat (map (\<lambda>(f, t). [f..<t]) cs) = [0..<nrows * ncols]"
    "list_all (\<lambda>(f, t). f < t \<and> t \<le> nrows * ncols) cs" "length cs \<le> nrows * ncols div chunk_size nrows + 1"
    by (rule chunks_ok)
  then show "job_attributes j = attribute_list" "length (job_chunks j) \<le> job_capacity j" "0 < job_routines j"
    "concat (map (\<lambda>(f, t). [f..<t]) (job_chunks j)) = [0..<nrows * ncols]"
    "list_all (\<lambda>(f, t). f < t \<and> t \<le> nrows * ncols) (job_chunks j)"
    using assms by (auto simp: make_job_def go_max_def)
qed

lemma steps_work: "(go_step j ^^ n) p p' \<Longrightarrow> work p + n \<le> work p'"
proof (induction n arbitrary: p')
  case (Suc n)
  from Suc.prems obtain q where "(go_step j ^^ n) p q" "go_step j q p'" by (rule relpowp_Suc_E)
  then show ?case using Suc.IH[of q] go_step_work[of j q p'] by simp
qed simp

lemma handle_exception_status:
  "handle_exception ctx (Some e) s = Inr (st, s') \<Longrightarrow> st = status_of e \<and> st \<noteq> STATUS_OK \<and> is_exception e"
  by (cases e) (auto simp: handle_exception_def)

lemma fetch_keeps_grid: "fetch_subvolume v h sv ip l n = Inr sv' \<Longrightarrow> horizontal_grid sv' = horizontal_grid sv"
  unfolding fetch_subvolume_def Let_def by (auto split: if_splits prod.splits)

lemma never_undefined:
  assumes "job_for j sv c" and "sequential j sv = Inr (sv_all, buf_all)" and "(go_step j)\<^sup>*\<^sup>* (start_pool j sv) p"
  shows "\<not> pool_undefined j p"
proof
  note inv = reachable_pool_inv[OF assms]
  assume "pool_undefined j p"
  then obtain i l u e where i: "i < length (pool_phases p)" "job_chunks j ! i = (l, u)"
    "pool_phases p ! i = Running \<and> chunk_fetch j l u (pool_volume p) (pool_buffer p) = Inl e \<or>
     pool_phases p ! i \<noteq> Running \<and> chunk_compute j l u (pool_volume p) (pool_buffer p) = Inl e"
    by (fastforce simp: pool_undefined_def)
  then have "i < length (job_chunks j)" using reachable_pool_ok[OF assms(3)] by (simp add: pool_ok_def)
  then show False
    using fetch_any_time[OF assms(1,2) inv _ i(2)] compute_any_time[OF assms(1,2) inv _ i(1) _ i(2)] i(3)
    by (metis Inl_Inr_False)
qed

text \<open>If no call can have undefined behaviour, some schedule ends.\<close>

lemma schedule_completes:
  assumes "\<And>p. (go_step j)\<^sup>*\<^sup>* (start_pool j sv) p \<Longrightarrow> \<not> pool_undefined j p"
    and "length (job_chunks j) \<le> job_capacity j" and "0 < job_routines j" and "(go_step j)\<^sup>*\<^sup>* (start_pool j sv) p"
  shows "\<exists>p'. (go_step j)\<^sup>*\<^sup>* p p' \<and> pool_final j p'"
  using assms(4)
proof (induction "6 * length (job_chunks j) - work p" arbitrary: p rule: less_induct)
  case less
  have ok: "pool_ok j p" by (rule reachable_pool_ok[OF less.prems])
  show ?case
  proof (cases "pool_final j p")
    case False
    then obtain q where q: "go_step j p q" using go_step_progress[OF ok assms(2,3)] assms(1)[OF less.prems] by blast
    have ok': "pool_ok j q" by (rule go_step_ok[OF q ok])
    then have "work q \<le> 6 * length (job_chunks j)" using work_bound[OF ok'] received_bound[OF ok'] by (simp add: pool_ok_def)
    then have "6 * length (job_chunks j) - work q < 6 * length (job_chunks j) - work p" using go_step_work[OF q] by simp
    from less.hyps[OF this] obtain p' where "(go_step j)\<^sup>*\<^sup>* q p'" "pool_final j p'"
      using less.prems q rtranclp.rtrancl_into_rtrancl by metis
    then show ?thesis using q converse_rtranclp_into_rtranclp by metis
  qed blast
qed

section \<open>A concrete job\<close>

text \<open>The maximum over the example segment, with the grid in two chunks.\<close>

definition example_job :: job where
  "example_job = \<lparr>job_vds = example_vds, job_handle = SingleData example_data, job_interpolation = NEAREST,
     job_attributes = [attribute.MAX], job_stepsize = 4, job_chunks = [(0, 2), (2, 4)], job_routines = 1, job_capacity = 3\<rparr>"

lemma example_make_job:
  "make_job example_vds (SingleData example_data) NEAREST [attribute.MAX] 4 2 2 = Some example_job"
  by (simp add: make_job_def example_job_def chunks_def chunk_size_def go_max_def go_min_def chunk_loop_more chunk_loop_done)

lemma example_filled_wf: "wf_subvolume (make_Axis 4 16 4 ''Sample'' ''ms'' 0) example_filled"
proof -
  let ?a = "make_Axis 4 16 4 ''Sample'' ''ms'' 0"
  have "m_data (m_ref example_filled) ! 0 = 8" "m_data (m_top example_filled) ! 0 = 8" "m_data (m_bottom example_filled) ! 0 = 12"
    "axis_inrange ?a 8" "axis_inrange ?a 12" "top_margin example_filled 0 = 1"
    "(let b = m_segment_blueprint example_filled in to_round_down_sample_number b (m_zero_sample_offset b) 12 \<le>
      to_round_up_sample_number b (m_zero_sample_offset b) 8 + 2)"
    by code_simp+
  then have "segment_ok ?a example_filled 0" by (simp add: segment_ok_def Let_def) (simp add: example_filled_def)
  moreover have "segment_ok ?a example_filled i" if "i \<in> {1, 2, 3}" for i
    using that by (auto simp: segment_ok_def Let_def example_filled_def)
  moreover have "[0..<4] = [0, 1, 2, 3 :: nat]" by (simp add: upt_rec)
  ultimately have "list_all (segment_ok ?a example_filled) [0..<4]" by simp
  then show ?thesis by (simp add: wf_subvolume_def example_surfaces_wf example_filled_def)
qed

lemma example_job_for: "job_for example_job example_filled example_cube"
proof -
  have "[0..<4] = [0, 1, 2, 3 :: nat]" "[0..<2] = [0, 1 :: nat]" "[2..<4] = [2, 3 :: nat]" by (simp_all add: upt_rec)
  moreover have "surface_size (m_ref example_filled) = 4" "m_segment_offsets example_filled = [0, 4, 4, 4, 4]"
    by (simp_all add: example_filled_def example_surfaces_wf)
  ultimately show ?thesis using example_filled_wf
    by (auto simp: job_for_def example_job_def example_data_holds to_interpolation_def)
qed

text \<open>One call for the whole grid, on a cube in which every sample is 1.\<close>

definition example_ones :: SurfaceBoundedSubVolume where
  "example_ones = example_filled\<lparr>sv_data := replicate 4 (Some (Fin 1))\<rparr>"

lemma example_ones_resampled:
  "resampled_at example_vds example_ones \<lparr>m_stepsize = 4\<rparr> 0 = Inr (example_segment\<lparr>ds_data := [Fin 1, Fin 1]\<rparr>)"
  using example_resampled_data[of 1 1 1 1] by (simp add: example_ones_def numeral_eq_Suc)

lemma example_sequential:
  "sequential example_job example_filled = Inr (example_ones, [Fin 1, Fin (- 999), Fin (- 999), Fin (- 999)])"
proof -
  have grid: "grid_size (horizontal_grid example_filled) = 4" "grid_size (horizontal_grid example_ones) = 4"
    by (simp_all add: grid_size_ref example_ones_def example_filled_def example_surfaces_wf)
  have prep: "chunk_prepare example_job sv [Fin 0, Fin 0, Fin 0, Fin 0] 0 4 = Inr (\<lparr>m_stepsize = 4\<rparr>, [[Fin 0, Fin 0, Fin 0, Fin 0]])"
    if "grid_size (horizontal_grid sv) = 4" for sv
    using that by (simp add: chunk_prepare_def example_job_def make_ResampledSegmentBlueprint_def make_SegmentBlueprint_def split_out_def)
  have h: "holds_cube (SingleData example_data) example_cube" and ip: "to_interpolation NEAREST = Inr Nearest"
    by (simp_all add: example_data_holds to_interpolation_def)
  have size: "surface_size (m_ref example_filled) = 4" "m_segment_offsets example_filled = [0, 4, 4, 4, 4]"
    by (simp_all add: example_filled_def example_surfaces_wf)
  have "compute_max (example_segment\<lparr>ds_data := [Fin 1, Fin 1]\<rparr>) = Inr (Fin 1)" by code_simp
  moreover have "is_empty example_ones 0 = Inr False" "is_empty example_ones 1 = Inr True" "is_empty example_ones 2 = Inr True"
    "is_empty example_ones 3 = Inr True" "sv_fillvalue example_ones = - 999"
    by code_simp+
  moreover have "(case vertical_segment example_ones 0 of Inl _ \<Rightarrow> False | Inr _ \<Rightarrow> True)" by code_simp
  then obtain seg where "vertical_segment example_ones 0 = Inr seg" by (auto split: sum.splits)
  moreover have "[0..<4] = [0, 1, 2, 3 :: nat]" by (simp add: upt_rec)
  ultimately have calc: "calc_attributes example_vds example_ones \<lparr>m_stepsize = 4\<rparr>
      [\<lparr>am_class = attribute.MAX, am_dst = [Fin 0, Fin 0, Fin 0, Fin 0], am_size = 16\<rparr>] 0 4 =
      Inr [\<lparr>am_class = attribute.MAX, am_dst = [Fin 1, Fin (- 999), Fin (- 999), Fin (- 999)], am_size = 16\<rparr>]"
    by (simp add: calc_attributes_fresh attributes_at_def example_ones_resampled am_write_sized sized_def)
  have "fetch_subvolume example_vds (SingleData example_data) example_filled NEAREST 0 4 = Inr example_ones"
    using fetch_fills[OF h example_filled_wf _ _ ip, of 0 4 example_vds] size
    by (simp add: map_replicate_const length_segments[OF example_filled_wf] example_ones_def example_cube_def)
      (simp add: example_filled_def)
  moreover have "attributes example_vds example_ones \<lparr>m_stepsize = 4\<rparr> [attribute.MAX] 0 4 [[Fin 0, Fin 0, Fin 0, Fin 0]] =
      Inr [[Fin 1, Fin (- 999), Fin (- 999), Fin (- 999)]]"
    using calc by (simp add: attributes_def append_attribute_def wrap64_def grid)
  moreover have "replicate 4 x = [x, x, x, x]" for x :: fp by (simp add: numeral_eq_Suc)
  ultimately show ?thesis
    using prep[OF grid(1)] prep[OF grid(2)] by (simp add: sequential_def grid chunk_fetch_def chunk_compute_def)
      (simp add: example_job_def join_out_def grid)
qed

lemma example_completes:
  obtains p where "(go_step example_job)\<^sup>*\<^sup>* (start_pool example_job example_filled) p" and "pool_final example_job p"
proof -
  have "length (job_chunks example_job) \<le> job_capacity example_job" "0 < job_routines example_job" by (simp_all add: example_job_def)
  from schedule_completes[OF never_undefined[OF example_job_for example_sequential] this rtranclp.rtrancl_refl] show ?thesis
    using that by blast
qed

text \<open>A job whose step size is refused by every call.\<close>

definition example_bad_job :: job where
  "example_bad_job = example_job\<lparr>job_stepsize := - 4\<rparr>"

lemma example_bad_calls:
  "l < u \<Longrightarrow> chunk_fetch example_bad_job l u sv buf = Inl (std_exception ''Stepsize must be positive'')"
  "l < u \<Longrightarrow> chunk_compute example_bad_job l u sv buf = Inl (std_exception ''Stepsize must be positive'')"
  by (simp_all add: example_bad_job_def example_job_def chunk_fetch_def chunk_compute_def chunk_prepare_def
      make_ResampledSegmentBlueprint_def make_SegmentBlueprint_def)

lemma example_bad_chunk: "i < 2 \<Longrightarrow> job_chunks example_bad_job ! i = (l, u) \<Longrightarrow> l < u"
  by (auto simp: example_bad_job_def example_job_def less_2_cases_iff)

fun refused :: "phase \<Rightarrow> bool" where
  "refused Running = True"
| "refused Fetched = False"
| "refused (Returned st) = (st = STATUS_RUNTIME_ERROR)"
| "refused (Sent st) = (st = STATUS_RUNTIME_ERROR)"
| "refused (Finished st) = (st = STATUS_RUNTIME_ERROR)"

lemma example_bad_phases:
  assumes "(go_step example_bad_job)\<^sup>*\<^sup>* (start_pool example_bad_job example_filled) p"
  shows "set (pool_phases p) \<subseteq> Collect refused" and "length (pool_phases p) \<le> 2"
proof -
  show "set (pool_phases p) \<subseteq> Collect refused"
    using assms
  proof (induction rule: rtranclp_induct)
    case base
    show ?case by (simp add: start_pool_def)
  next
    case (step p p')
    have n: "length (pool_phases p) \<le> 2" using reachable_pool_ok[OF step.hyps(1)] by (simp add: pool_ok_def example_bad_job_def example_job_def)
    have at: "refused (pool_phases p ! i)" if "i < length (pool_phases p)" for i using step.IH nth_mem[OF that] by blast
    note move = set_update_subsetI[OF step.IH]
    from step.hyps(2) show ?case
    proof (cases rule: go_step.cases)
      case (fetch i l u sv)
      then have "l < u" using example_bad_chunk[of i l u] n by simp
      then show ?thesis using example_bad_calls(1) fetch(5) by simp
    next
      case (fetch_error i l u e d)
      then have "l < u" using example_bad_chunk[of i l u] n by simp
      then have "e = std_exception ''Stepsize must be positive''" using example_bad_calls(1) fetch_error(5) by simp
      then show ?thesis using fetch_error(1) move by simp
    next
      case (compute i l u buf)
      then show ?thesis using at[of i] by simp
    next
      case (compute_error i l u e d)
      then show ?thesis using at[of i] by simp
    next
      case (send i st)
      then show ?thesis using at[of i] move by simp
    next
      case (release i st)
      then show ?thesis using at[of i] move by simp
    qed (use step.IH in simp_all)
  qed
  show "length (pool_phases p) \<le> 2"
    using reachable_pool_ok[OF assms] by (simp add: pool_ok_def example_bad_job_def example_job_def)
qed

lemma example_bad_completes:
  obtains p where "(go_step example_bad_job)\<^sup>*\<^sup>* (start_pool example_bad_job example_filled) p" and "pool_final example_bad_job p"
proof -
  have "\<not> pool_undefined example_bad_job p" if "(go_step example_bad_job)\<^sup>*\<^sup>* (start_pool example_bad_job example_filled) p" for p
  proof
    assume "pool_undefined example_bad_job p"
    then obtain i l u e where i: "i < length (pool_phases p)" "job_chunks example_bad_job ! i = (l, u)" "\<not> is_exception e"
      "chunk_fetch example_bad_job l u (pool_volume p) (pool_buffer p) = Inl e \<or>
       chunk_compute example_bad_job l u (pool_volume p) (pool_buffer p) = Inl e"
      by (fastforce simp: pool_undefined_def)
    then have "l < u" using example_bad_phases(2)[OF that] by (intro example_bad_chunk[of i l u]) simp_all
    then show False using i(3,4) example_bad_calls by auto
  qed
  moreover have "length (job_chunks example_bad_job) \<le> job_capacity example_bad_job" "0 < job_routines example_bad_job"
    by (simp_all add: example_bad_job_def example_job_def)
  ultimately obtain p where "(go_step example_bad_job)\<^sup>*\<^sup>* (start_pool example_bad_job example_filled) p" "pool_final example_bad_job p"
    using schedule_completes[OF _ _ _ rtranclp.rtrancl_refl, of example_bad_job example_filled] by metis
  then show ?thesis by (rule that)
qed

text \<open>The state in which the example job is one call: a handle, a subvolume with its three surfaces, and the output.\<close>

definition example_attribute_session :: session where
  "example_attribute_session = \<lparr>heap = [0 \<mapsto> Handle (SingleData example_data), 1 \<mapsto> Surface (m_ref example_filled),
     2 \<mapsto> Surface (m_top example_filled), 3 \<mapsto> Surface (m_bottom example_filled), 4 \<mapsto> Volume example_filled 1 2 3,
     5 \<mapsto> Floats [Fin 0, Fin 0, Fin 0, Fin 0]], next_addr = 6, opened = [m_handle example_data], closed = [], leaked = []\<rparr>"

section \<open>Theorems\<close>

text \<open>C10: The loop that starts the goroutines ends. Its chunks are not empty, lie in the grid and follow one another
  so that together they are all grid points, each once; and there are no more of them than the
  channel \<^verbatim>\<open>errs\<close> has places.
\<close>

theorem chunks_partition:
  "\<exists>cs. chunks nrows ncols = Some cs \<and> concat (map (\<lambda>(f, t). [f..<t]) cs) = [0..<nrows * ncols] \<and>
     list_all (\<lambda>(f, t). f < t \<and> t \<le> nrows * ncols) cs \<and> length cs \<le> nrows * ncols div chunk_size nrows + 1"
  by (rule chunks_ok) blast

text \<open>C11: No schedule of the goroutines blocks or runs forever. Whatever the order in which they
  were scheduled, at most six steps per goroutine have been taken, and unless all results have been received
  or some call of \<^verbatim>\<open>attribute\<close> has no defined behaviour, some step can be taken.
\<close>

theorem schedule_progress:
  assumes "make_job v h interpolation attribute_list stepsize nrows ncols = Some j" and "(go_step j ^^ n) (start_pool j sv) p"
  shows "n \<le> 6 * length (job_chunks j) \<and> (\<not> pool_undefined j p \<longrightarrow> pool_final j p \<or> (\<exists>p'. go_step j p p'))"
proof -
  have ok: "pool_ok j p" using assms(2) by (intro reachable_pool_ok[of j sv]) (rule relpowp_imp_rtranclp)
  have "n \<le> work p" using steps_work[OF assms(2)] by simp
  moreover have "work p \<le> 6 * length (job_chunks j)"
    using work_bound[OF ok] received_bound[OF ok] ok by (simp add: pool_ok_def)
  moreover have "length (job_chunks j) \<le> job_capacity j" "0 < job_routines j"
    using make_job_chunks[OF assms(1)] by simp_all
  then have "pool_final j p \<or> (\<exists>p'. go_step j p p')" if "\<not> pool_undefined j p"
    using go_step_progress[OF ok] that by blast
  ultimately show ?thesis by auto
qed

theorem schedule_progress_witness:
  "\<exists>n p. (go_step example_job ^^ n) (start_pool example_job example_filled) p \<and> n \<le> 6 * length (job_chunks example_job) \<and>
    pool_final example_job p"
proof -
  obtain p where p: "(go_step example_job)\<^sup>*\<^sup>* (start_pool example_job example_filled) p" "pool_final example_job p"
    by (rule example_completes)
  from p(1) obtain n where "(go_step example_job ^^ n) (start_pool example_job example_filled) p" using rtranclp_power by fast
  with p(2) schedule_progress[OF example_make_job this] show ?thesis by blast
qed

text \<open>C1: Any schedule computes what one call for the whole grid computes. Whatever the order in which the goroutines
  fetch into the shared subvolume and write to the shared output, no call has undefined behaviour, and
  when all results have been received the maps that are returned are those of the single call.
\<close>

theorem schedule_equals_sequential:
  assumes "make_job v h interpolation attribute_list stepsize nrows ncols = Some j" and "job_for j sv c"
    and "sequential j sv = Inr (sv_all, buf_all)" and "(go_step j)\<^sup>*\<^sup>* (start_pool j sv) p"
  shows "\<not> pool_undefined j p \<and> (pool_final j p \<longrightarrow> pool_result j p =
    Inr (map (\<lambda>i. take (surface_size (m_ref sv)) (drop (i * surface_size (m_ref sv)) buf_all)) [0..<length attribute_list]))"
proof -
  note inv = reachable_pool_inv[OF assms(2-4)] and ok = reachable_pool_ok[OF assms(4)]
  have "\<not> pool_undefined j p" by (rule never_undefined[OF assms(2-4)])
  moreover have "pool_result j p = Inr (map (\<lambda>i. take (surface_size (m_ref sv)) (drop (i * surface_size (m_ref sv)) buf_all)) [0..<length attribute_list])"
    if "pool_final j p"
  proof -
    have "sent_status ph = Some STATUS_OK" if ph: "ph \<in> set (pool_phases p)" for ph
      using final_statuses(1)[OF ok \<open>pool_final j p\<close> ph] inv ph by (cases ph) (auto simp: pool_inv_def in_set_conv_nth)
    then have "set (pool_received p) \<subseteq> {STATUS_OK}"
      using arg_cong[OF final_statuses(2)[OF ok that], of set_mset] by auto
    then have "filter (\<lambda>st. st \<noteq> STATUS_OK) (pool_received p) = []" by (auto simp: filter_empty_conv)
    moreover have "grid_size (horizontal_grid (pool_volume p)) = surface_size (m_ref sv)" using inv by (auto simp: pool_inv_def grid_size_ref)
    ultimately show ?thesis
      using final_buffer[OF assms(2,3) inv ok that] make_job_chunks(1)[OF assms(1)] by (simp add: pool_result_def Let_def)
  qed
  ultimately show ?thesis by blast
qed

theorem schedule_equals_sequential_witness:
  "\<exists>p. (go_step example_job)\<^sup>*\<^sup>* (start_pool example_job example_filled) p \<and> pool_final example_job p \<and>
    pool_result example_job p = Inr [[Fin 1, Fin (- 999), Fin (- 999), Fin (- 999)]]"
proof -
  obtain p where p: "(go_step example_job)\<^sup>*\<^sup>* (start_pool example_job example_filled) p" "pool_final example_job p"
    by (rule example_completes)
  have "surface_size (m_ref example_filled) = 4" by (simp add: example_filled_def example_surfaces_wf)
  then show ?thesis
    using schedule_equals_sequential[OF example_make_job example_job_for example_sequential p(1)] p by auto
qed

text \<open>C12: No error is lost. When one result per goroutine has been received, the results are the statuses of the
  calls, each once, and \<^verbatim>\<open>getAttributes\<close> succeeds only if all calls did; otherwise the error it returns is
  that of one of the calls.
\<close>

theorem no_error_lost:
  assumes "(go_step j)\<^sup>*\<^sup>* (start_pool j sv) p" and "pool_final j p"
  shows "mset (map Some (pool_received p)) = mset (map sent_status (pool_phases p)) \<and>
    ((\<exists>maps. pool_result j p = Inr maps) \<longleftrightarrow> (\<forall>i<length (job_chunks j). sent_status (pool_phases p ! i) = Some STATUS_OK)) \<and>
    (\<forall>st. pool_result j p = Inl st \<longrightarrow> st \<noteq> STATUS_OK \<and> Some st \<in> sent_status ` set (pool_phases p))"
proof -
  note f = final_statuses[OF reachable_pool_ok[OF assms(1)] assms(2)]
  have "map sent_status (pool_phases p) = map Some (map (\<lambda>ph. the (sent_status ph)) (pool_phases p))" using f(1) by simp
  then have m: "mset (map Some (pool_received p)) = mset (map sent_status (pool_phases p))" using f(2) by (simp only: mset_map)
  have s: "Some ` set (pool_received p) = sent_status ` set (pool_phases p)" using arg_cong[OF m, of set_mset] by simp
  have "(\<exists>maps. pool_result j p = Inr maps) \<longleftrightarrow> (\<forall>x\<in>Some ` set (pool_received p). x = Some STATUS_OK)"
    by (auto simp: pool_result_ok)
  also have "\<dots> \<longleftrightarrow> (\<forall>i<length (job_chunks j). sent_status (pool_phases p ! i) = Some STATUS_OK)"
    unfolding s using assms(2) by (auto simp: pool_final_def all_set_conv_all_nth)
  moreover have "st \<noteq> STATUS_OK \<and> st \<in> set (pool_received p)" if "pool_result j p = Inl st" for st
    using that by (auto simp: pool_result_def Let_def filter_eq_Cons_iff split: list.splits)
  ultimately show ?thesis using m s by blast
qed

theorem no_error_lost_witness:
  "\<exists>p. (go_step example_bad_job)\<^sup>*\<^sup>* (start_pool example_bad_job example_filled) p \<and> pool_final example_bad_job p \<and>
    pool_result example_bad_job p = Inl STATUS_RUNTIME_ERROR"
proof -
  obtain p where p: "(go_step example_bad_job)\<^sup>*\<^sup>* (start_pool example_bad_job example_filled) p" "pool_final example_bad_job p"
    by (rule example_bad_completes)
  have n: "length (pool_phases p) = 2" "length (job_chunks example_bad_job) = 2"
    using p(2) by (simp_all add: pool_final_def example_bad_job_def example_job_def)
  then have ph: "pool_phases p ! 0 \<in> set (pool_phases p)" by simp
  have bad: "sent_status x = Some st \<Longrightarrow> st = STATUS_RUNTIME_ERROR" if "x \<in> set (pool_phases p)" for x st
    using subsetD[OF example_bad_phases(1)[OF p(1)] that] by (cases x) simp_all
  note lost = no_error_lost[OF p]
  have "sent_status (pool_phases p ! 0) \<noteq> Some STATUS_OK" using bad[OF ph] by auto
  then have "\<not> (\<exists>maps. pool_result example_bad_job p = Inr maps)" using lost n by auto
  then obtain st where st: "pool_result example_bad_job p = Inl st" by (cases "pool_result example_bad_job p") auto
  then have "Some st \<in> sent_status ` set (pool_phases p)" using lost by blast
  then obtain x where "x \<in> set (pool_phases p)" "sent_status x = Some st" by auto
  then have "st = STATUS_RUNTIME_ERROR" by (rule bad)
  with st p show ?thesis by blast
qed

text \<open>C13: A call of \<^verbatim>\<open>attribute\<close> through the C interface is the two parts of a goroutine. It returns
  \<^verbatim>\<open>STATUS_OK\<close> exactly when both succeed, having stored what they computed in the subvolume and in the output;
  and any other status is that of the exception that one of them throws.
\<close>

theorem attribute_call_is_chunk:
  assumes "handle_at s d = Inr (job_handle j)" and "volume_at s p = Inr (sv, r, t, b)" and "floats_at s out = Inr buf"
  shows "(capi_attribute (job_vds j) left_data left_out ctx (Some d) (Some p) (job_interpolation j) (job_attributes j)
        (length (job_attributes j)) (job_stepsize j) l u (Some out) s = Inr (STATUS_OK, s') \<longleftrightarrow>
      (\<exists>sv' buf'. chunk_fetch j l u sv buf = Inr sv' \<and> chunk_compute j l u sv' buf = Inr buf' \<and>
        s' = store out (Floats buf') (store p (Volume sv' r t b) s))) \<and>
    (capi_attribute (job_vds j) left_data left_out ctx (Some d) (Some p) (job_interpolation j) (job_attributes j)
        (length (job_attributes j)) (job_stepsize j) l u (Some out) s = Inr (st, s') \<and> st \<noteq> STATUS_OK \<longrightarrow>
      (\<exists>e. is_exception e \<and> st = status_of e \<and> rbind (chunk_fetch j l u sv buf) (\<lambda>sv'. chunk_compute j l u sv' buf) = Inl e))"
    (is "(?call = _ \<longleftrightarrow> _) \<and> _")
proof -
  let ?ks = "job_attributes j"
  have prep: "attribute_prepare (Some d) (Some p) ?ks (length ?ks) (job_stepsize j) l u (Some out) s =
      rbind (chunk_prepare j sv buf l u) (\<lambda>(bp, outs). Inr (out, p, job_handle j, (sv, r, t, b), buf, bp, outs))"
    using assms by (auto simp: attribute_prepare_def chunk_prepare_def checked_def rbind_def split: sum.splits)
  show ?thesis
  proof (cases "chunk_prepare j sv buf l u")
    case (Inl e)
    then have "?call = handle_exception ctx (Some e) s" by (simp add: capi_attribute_def prep try_catch_def)
    then show ?thesis using Inl handle_exception_status[of ctx e s] by (auto simp: chunk_fetch_def)
  next
    case prepared: (Inr x)
    obtain bp outs where x: "x = (bp, outs)" by (cases x)
    show ?thesis
    proof (cases "fetch_subvolume (job_vds j) (job_handle j) sv (job_interpolation j) l u")
      case (Inl e)
      then have "?call = handle_exception ctx (Some e) (store p (Volume (sv\<lparr>sv_data := left_data\<rparr>) r t b) s)"
        by (simp add: capi_attribute_def prep prepared x try_catch_def)
      then show ?thesis
        using Inl prepared handle_exception_status[of ctx e "store p (Volume (sv\<lparr>sv_data := left_data\<rparr>) r t b) s"]
        by (auto simp: chunk_fetch_def)
    next
      case (Inr sv')
      have grid: "horizontal_grid sv' = horizontal_grid sv" by (rule fetch_keeps_grid[OF Inr])
      then have "chunk_prepare j sv' buf l u = Inr (bp, outs)" using prepared x by (simp add: chunk_prepare_def)
      then show ?thesis
        using Inr prepared x grid handle_exception_status[of ctx _ "store out (Floats left_out) (store p (Volume sv' r t b) s)"]
        by (auto simp: capi_attribute_def prep try_catch_def Let_def chunk_fetch_def chunk_compute_def split: sum.splits)
    qed
  qed
qed

theorem attribute_call_is_chunk_witness:
  "capi_attribute example_vds [] [] None (Some 0) (Some 4) NEAREST [attribute.MAX] 1 4 0 4 (Some 5) example_attribute_session =
    Inr (STATUS_OK, store 5 (Floats [Fin 1, Fin (- 999), Fin (- 999), Fin (- 999)]) (store 4 (Volume example_ones 1 2 3) example_attribute_session))"
proof -
  let ?s = example_attribute_session and ?buf = "[Fin 0, Fin 0, Fin 0, Fin 0]"
  have "handle_at ?s 0 = Inr (job_handle example_job)" "volume_at ?s 4 = Inr (example_filled, 1, 2, 3)" "floats_at ?s 5 = Inr ?buf"
    by (simp_all add: example_attribute_session_def handle_at_def volume_at_def surface_at_def floats_at_def example_job_def)
  note call = attribute_call_is_chunk[OF this, of "[]" "[]" None 0 4]
  have "grid_size (horizontal_grid example_filled) = 4" by (simp add: grid_size_ref example_filled_def example_surfaces_wf)
  moreover have "replicate 4 x = [x, x, x, x]" for x :: fp by (simp add: numeral_eq_Suc)
  ultimately have "chunk_fetch example_job 0 4 example_filled ?buf = Inr example_ones"
    "chunk_compute example_job 0 4 example_ones ?buf = Inr [Fin 1, Fin (- 999), Fin (- 999), Fin (- 999)]"
    using example_sequential by (auto simp: sequential_def Let_def example_job_def)
  then show ?thesis using call by (auto simp: example_job_def)
qed

end
