(* ===== verification/Spec2Isabelle.thy ===== *)
theory Spec2Isabelle
  imports Parallel
begin

text \<open>
  \<^bold>\<open>Verification of the core of oneseismic-api.\<close> The program serves seismic data from VDS files:
  slices through a volume, traces along a fence, attributes between surfaces, and the
  metadata of each. The core, \<^verbatim>\<open>src/internal/core\<close>, is a C++ library over OpenVDS with a C
  interface; Go code calls that interface. This development models the C++ core, the part of
  its JSON library that it uses, and the Go function that computes attributes concurrently.

  \<^bold>\<open>Parts and theories.\<close> Each theory follows its source file, in the order of the code.
  \<^item> \<^verbatim>\<open>Prelude\<close>: failures as values. A \<open>result\<close> is a \<open>failure\<close> or a value; failures are the
    exceptions of the code (\<^verbatim>\<open>exceptions.hpp\<close>) and \<open>undefined_behaviour\<close>, which marks accesses outside
    a buffer, integer overflow and reads of what was not written. Loops are \<open>rfold\<close>. Decimal text.
  \<^item> \<^verbatim>\<open>Floating\<close>: \<open>f32\<close> and \<open>f64\<close> round a real number after every operation of the code; \<open>fp\<close> are samples
    with infinities and NaN. The locale \<open>rounding\<close> has the laws of both roundings.
  \<^item> \<^verbatim>\<open>Openvds\<close>: what is called of OpenVDS and of the interpolation of Boost, as a record of parameters.
  \<^item> \<^verbatim>\<open>Directions\<close>, \<^verbatim>\<open>Axes\<close>: \<^verbatim>\<open>ctypes.h\<close>, \<^verbatim>\<open>direction.cpp\<close>, \<^verbatim>\<open>axis_type.cpp\<close>, \<^verbatim>\<open>axis.cpp\<close>.
  \<^item> \<^verbatim>\<open>Transformers\<close>: \<^verbatim>\<open>coordinate_transformer.hpp\<close>, \<^verbatim>\<open>boundingbox.cpp\<close>. The locale \<open>lattice_transformer\<close> is the
    contract that one cube and the intersection of two share.
  \<^item> \<^verbatim>\<open>Metadata\<close>: \<^verbatim>\<open>metadatahandle.cpp\<close>; the locale \<open>axis_loop\<close> is the loop that both constructors run.
  \<^item> \<^verbatim>\<open>Subcube\<close>: \<^verbatim>\<open>subcube.cpp\<close>, the voxel box of a request.
  \<^item> \<^verbatim>\<open>Surfaces\<close>, \<^verbatim>\<open>Segments\<close>, \<^verbatim>\<open>Subvolume\<close>: \<^verbatim>\<open>regularsurface.cpp\<close>, \<^verbatim>\<open>subvolume.hpp\<close>, \<^verbatim>\<open>subvolume.cpp\<close>: grids,
    the samples of one vertical segment, and the samples between two surfaces in one vector.
  \<^item> \<^verbatim>\<open>Attributes\<close>: \<^verbatim>\<open>attribute.cpp\<close>; the locale \<open>keyed_order\<close> is for the searches by value and by magnitude.
  \<^item> \<^verbatim>\<open>Datahandle\<close>: \<^verbatim>\<open>datahandle.cpp\<close>. The locale \<open>cube_reader\<close> says what reading from a handle gives; one
    VDS, a combination of two, and the virtual \<^verbatim>\<open>DataHandle\<close> satisfy it.
  \<^item> \<^verbatim>\<open>Cppapi_Data\<close>, \<^verbatim>\<open>Cppapi_Metadata\<close>: \<^verbatim>\<open>cppapi_data.cpp\<close>, \<^verbatim>\<open>cppapi_metadata.cpp\<close>, the requests.
  \<^item> \<^verbatim>\<open>Dtoa\<close>, \<^verbatim>\<open>Json\<close>: the part of \<^verbatim>\<open>nlohmann/json.hpp\<close> that prints documents.
  \<^item> \<^verbatim>\<open>Capi\<close>, \<^verbatim>\<open>Sessions\<close>: \<^verbatim>\<open>capi.cpp\<close>. The state is a heap of objects with the record of the VDSs that
    were opened and closed; every function of the interface takes and returns it. \<open>reachable\<close> are the
    states that sequences of calls reach.
  \<^item> \<^verbatim>\<open>Parallel\<close>: \<^verbatim>\<open>getAttributes\<close> of \<^verbatim>\<open>core_attributes.go\<close>. \<open>go_step\<close> is one step of one goroutine or of the
    function that started them, on the shared subvolume, output and channels.

  \<^bold>\<open>What the theorems show.\<close>
  \<^item> Requests stay inside the volume: the box of a slice, the samples of a subvolume with their
    margins, and the layout of the samples; and exactly which requests are accepted.
  \<^item> Requests return the right samples: slices, fences with their fill values, traces and boxes
    of a combination of two VDSs, which are the operator applied to both at the same place; the attributes
    are computed from the samples that were fetched for them.
  \<^item> The two coordinate transformations of a grid, and the limits of an axis in a document and its line numbers, invert
    each other; the metadata of a slice fits its data.
  \<^item> Attributes: extreme values and positions, the median for every rearrangement the library may
    choose, a bound on the error of the mean, no infinity from finite data.
  \<^item> Printing of documents: strings are accepted exactly when they are UTF-8, no write
    leaves the buffer, integers are printed in decimal.
  \<^item> The C interface: in every reachable state all objects are well formed, a failing call
    changes only what its contract names, and every VDS that was opened is accounted for.
  \<^item> Goroutines: the chunks partition the grid, every schedule ends and none blocks, every
    schedule returns what one sequential call returns, and no error is lost. A call of
    \<^verbatim>\<open>attribute\<close> on the heap is the two steps of a goroutine.
  \<^item> Four theorems are about what the code does wrong: axes with fractional steps, segments
    on an axis of three samples, a combination whose second VDS cannot be opened, and a request
    for no traces.

  \<^bold>\<open>Bounds.\<close> Machine integers are integers with the wrap-around written out (\<open>wrap64\<close>, \<open>to_size_t\<close>) or a guard
    where the code would overflow; the bounds in the hypotheses, such as
    six coordinates per sample below \<open>2 ^ 31\<close>, are those the loop counters and indices of the code need. The exponents of
    floating-point numbers are not bounded, so overflow of a float is not modelled. The loops
    are structural or have termination proofs; the loop that starts the goroutines is a partial
    function, and \<open>chunks_partition\<close> proves that it returns. No definition uses fuel.

  \<^bold>\<open>Hypotheses on code outside the program.\<close> \<open>holds_cube\<close>: a read request to OpenVDS returns the samples of one
    fixed cube. \<open>survey_transformer\<close>: its coordinate transformer is affine. The interpolation of Boost is arbitrary.
    Each theorem that has such a hypothesis is applied to a concrete library, \<open>example_vds\<close>.

  \<^bold>\<open>Not modelled.\<close>
  \<^item> The Go bindings apart from \<^verbatim>\<open>getAttributes\<close>, and the HTTP service (\<^verbatim>\<open>api\<close>, \<^verbatim>\<open>cmd\<close>, \<^verbatim>\<open>internal/cache\<close>, \<^verbatim>\<open>internal/metrics\<close>): they
    translate names, copy memory and call third-party packages.
  \<^item> Of \<^verbatim>\<open>nlohmann/json.hpp\<close> the parser, iterators, binary formats, patches and pretty
    printing: the program does not call them. That Grisu2 finds a decimal that reads back
    as the same double is not proved; \<^verbatim>\<open>Dtoa\<close> is its translation.
  \<^item> In the C interface, the reuse of addresses after \<^verbatim>\<open>delete\<close>, overlapping output arguments,
    and what a call that throws half way has written to its storage, which is arbitrary.
  \<^item> In the goroutines, the interleaving inside \<^verbatim>\<open>fetch_subvolume\<close> and inside \<^verbatim>\<open>attributes\<close>; each is one step. They write to
    disjoint parts of the storage.
\<close>

end
